(* ===== verification/Prelude.thy ===== *)
theory Prelude
  imports Complex_Main "HOL-Library.Word" "HOL-Library.AList" "HOL-Library.Multiset"
begin

text \<open>
  What every component of the Spider model shares: the Go types the source uses (bytes, 64-bit
  integers, errors that wrap errors), the parts of the packages \<open>errors\<close>, \<open>strings\<close> and
  \<open>sort\<close> that the source calls, and the generic facts about lists and association lists that
  the component proofs rest on.

  Conventions. A Go string is its list of bytes, an Isabelle \<open>string\<close>. A \<open>[]byte\<close> is a
  list of 8-bit words. An \<open>int64\<close> is an \<open>int\<close> with the wrap-around of additions written
  out (\<open>wrap64\<close>). A Go map that the code iterates over is an association list with distinct
  keys: Go leaves the iteration order open, and so does a theorem about every such list. A
  function that returns an error returns \<open>Inl\<close> of it.
\<close>

section \<open>Collections of facts\<close>

named_theorems go_simps \<open>unfolding of small Go library functions\<close>
named_theorems inv_intros \<open>preservation of component invariants\<close>

section \<open>Bytes and 64-bit integers\<close>

type_synonym byte = "8 word"
type_synonym bytes = "8 word list"

definition wrap64 :: "int \<Rightarrow> int" where
  "wrap64 x = (x + 2 ^ 63) mod 2 ^ 64 - 2 ^ 63"

lemma wrap64_id [simp]: "- (2 ^ 63) \<le> x \<Longrightarrow> x < 2 ^ 63 \<Longrightarrow> wrap64 x = x"
  by (simp add: wrap64_def)

lemma wrap64_range: "- (2 ^ 63) \<le> wrap64 x \<and> wrap64 x < 2 ^ 63"
  by (simp add: wrap64_def)

lemma wrap64_add_left: "wrap64 (wrap64 x + y) = wrap64 (x + y)"
proof -
  have "wrap64 x + y + 2 ^ 63 = (x + 2 ^ 63) mod 2 ^ 64 + y"
    by (simp add: wrap64_def)
  then have "(wrap64 x + y + 2 ^ 63) mod 2 ^ 64 = ((x + 2 ^ 63) mod 2 ^ 64 + y) mod 2 ^ 64"
    by (rule arg_cong)
  also have "\<dots> = (x + 2 ^ 63 + y) mod 2 ^ 64"
    by (rule mod_add_left_eq)
  also have "\<dots> = (x + y + 2 ^ 63) mod 2 ^ 64"
    by (simp add: ac_simps)
  finally show ?thesis
    by (simp add: wrap64_def)
qed

section \<open>Errors\<close>

datatype code = OK | Canceled | InvalidArgument | DeadlineExceeded | NotFound
  | ResourceExhausted | OutOfRange | Internal | Unavailable | Unknown

text \<open>
  \<open>Err\<close> is a plain error value (\<open>errors.New\<close>, \<open>fmt.Errorf\<close> without \<open>%w\<close>),
  \<open>Wrapf\<close> is \<open>fmt.Errorf\<close> with one \<open>%w\<close>, \<open>GrpcStatus\<close> a gRPC status error.
  Texts keep the fixed part of the source's message.
\<close>

datatype go_error = Err string | Wrapf string go_error | GrpcStatus code string

type_synonym 'a result = "go_error + 'a"

fun errors_Is :: "go_error \<Rightarrow> go_error \<Rightarrow> bool" where
  "errors_Is (Wrapf s e) t = (Wrapf s e = t \<or> errors_Is e t)"
| "errors_Is e t = (e = t)"

fun status_Code :: "go_error \<Rightarrow> code option" where
  "status_Code (GrpcStatus c m) = Some c"
| "status_Code (Wrapf s e) = status_Code e"
| "status_Code (Err m) = None"

fun err_text :: "go_error \<Rightarrow> string" where
  "err_text (Err m) = m"
| "err_text (Wrapf s e) = s @ '': '' @ err_text e"
| "err_text (GrpcStatus c m) = m"

abbreviation ErrNotExist :: go_error where "ErrNotExist \<equiv> Err ''file does not exist''"
abbreviation ErrExist :: go_error where "ErrExist \<equiv> Err ''file already exists''"
abbreviation ErrIsDir :: go_error where "ErrIsDir \<equiv> Err ''is a directory''"
abbreviation ErrNotDir :: go_error where "ErrNotDir \<equiv> Err ''not a directory''"
abbreviation ErrDevice :: go_error where "ErrDevice \<equiv> Err ''input/output error''"
abbreviation ErrCanceled :: go_error where "ErrCanceled \<equiv> Err ''context canceled''"
abbreviation ErrDeadline :: go_error where "ErrDeadline \<equiv> Err ''context deadline exceeded''"

section \<open>The strings package\<close>

definition has_prefix :: "string \<Rightarrow> string \<Rightarrow> bool" where
  "has_prefix s p = (take (length p) s = p)"

definition trim_prefix :: "string \<Rightarrow> string \<Rightarrow> string" where
  "trim_prefix s p = (if has_prefix s p then drop (length p) s else s)"

fun contains :: "string \<Rightarrow> string \<Rightarrow> bool" where
  "contains [] p = (p = [])"
| "contains (c # s) p = (has_prefix (c # s) p \<or> contains s p)"

lemma has_prefix_append [simp]: "has_prefix (p @ s) p"
  by (simp add: has_prefix_def)

lemma has_prefixE: "has_prefix s p \<Longrightarrow> (\<And>t. s = p @ t \<Longrightarrow> P) \<Longrightarrow> P"
  by (metis append_take_drop_id has_prefix_def)

lemma trim_prefix_append [simp]: "trim_prefix (p @ s) p = s"
  by (simp add: trim_prefix_def)

lemma has_prefix_Nil [simp]: "has_prefix s []"
  by (simp add: has_prefix_def)

lemma has_prefix_Cons [simp]: "has_prefix (c # s) (d # p) = (c = d \<and> has_prefix s p)"
  by (simp add: has_prefix_def)

lemma has_prefix_Nil_left [simp]: "has_prefix [] p = (p = [])"
  by (auto simp: has_prefix_def)

text \<open>
  The white space of \<open>unicode.IsSpace\<close>, as UTF-8 byte sequences: the six ASCII characters, U+0085,
  U+00A0, U+1680, U+2000 to U+200A, U+2028, U+2029, U+202F, U+205F and U+3000.
\<close>

definition space_seqs :: "string list" where
  "space_seqs =
     [[CHR 0x09], [CHR 0x0A], [CHR 0x0B], [CHR 0x0C], [CHR 0x0D], [CHR 0x20],
      [CHR 0xC2, CHR 0x85], [CHR 0xC2, CHR 0xA0], [CHR 0xE1, CHR 0x9A, CHR 0x80],
      [CHR 0xE2, CHR 0x80, CHR 0x80], [CHR 0xE2, CHR 0x80, CHR 0x81],
      [CHR 0xE2, CHR 0x80, CHR 0x82], [CHR 0xE2, CHR 0x80, CHR 0x83],
      [CHR 0xE2, CHR 0x80, CHR 0x84], [CHR 0xE2, CHR 0x80, CHR 0x85],
      [CHR 0xE2, CHR 0x80, CHR 0x86], [CHR 0xE2, CHR 0x80, CHR 0x87],
      [CHR 0xE2, CHR 0x80, CHR 0x88], [CHR 0xE2, CHR 0x80, CHR 0x89],
      [CHR 0xE2, CHR 0x80, CHR 0x8A], [CHR 0xE2, CHR 0x80, CHR 0xA8],
      [CHR 0xE2, CHR 0x80, CHR 0xA9], [CHR 0xE2, CHR 0x80, CHR 0xAF],
      [CHR 0xE2, CHR 0x81, CHR 0x9F], [CHR 0xE3, CHR 0x80, CHR 0x80]]"

fun strip_seqs :: "nat \<Rightarrow> string list \<Rightarrow> string \<Rightarrow> string" where
  "strip_seqs 0 ws s = s"
| "strip_seqs (Suc n) ws s =
     (case find (has_prefix s) ws of None \<Rightarrow> s | Some w \<Rightarrow> strip_seqs n ws (drop (length w) s))"

definition trim_space :: "string \<Rightarrow> string" where
  "trim_space s =
     (let l = strip_seqs (length s) space_seqs s
      in rev (strip_seqs (length l) (map rev space_seqs) (rev l)))"

text \<open>\<open>strings.EqualFold\<close>; folding is modelled on ASCII letters, other bytes compare as they are.\<close>

definition fold_char :: "char \<Rightarrow> char" where
  "fold_char c = (let n = of_char c :: nat in if 65 \<le> n \<and> n \<le> 90 then char_of (n + 32) else c)"

definition equal_fold :: "string \<Rightarrow> string \<Rightarrow> bool" where
  "equal_fold a b = (map fold_char a = map fold_char b)"

lemma equal_fold_refl [simp]: "equal_fold a a"
  by (simp add: equal_fold_def)

lemma equal_fold_sym: "equal_fold a b = equal_fold b a"
  by (auto simp: equal_fold_def)

text \<open>Go compares strings bytewise.\<close>

fun str_less :: "string \<Rightarrow> string \<Rightarrow> bool" where
  "str_less a [] = False"
| "str_less [] (d # b) = True"
| "str_less (c # a) (d # b) =
     ((of_char c :: nat) < of_char d \<or> (c = d \<and> str_less a b))"

lemma of_char_nat_inject: "((of_char c :: nat) = of_char d) = (c = d)"
  by (metis char_of_char)

lemma str_less_irrefl [simp]: "\<not> str_less a a"
  by (induction a) auto

lemma str_less_asym: "str_less a b \<Longrightarrow> \<not> str_less b a"
  by (induction a b rule: str_less.induct) auto

lemma str_less_trans: "str_less a b \<Longrightarrow> str_less b c \<Longrightarrow> str_less a c"
proof (induction a b arbitrary: c rule: str_less.induct)
  case (1 a)
  then show ?case by simp
next
  case (2 d b)
  then show ?case by (cases c) auto
next
  case (3 x a d b)
  then show ?case by (cases c) auto
qed

lemma str_less_linear: "str_less a b \<or> a = b \<or> str_less b a"
proof (induction a b rule: str_less.induct)
  case (3 c a d b)
  then show ?case
    using of_char_nat_inject [of c d] by (auto simp: not_less_iff_gr_or_eq)
next
  case (1 a)
  then show ?case by (cases a) auto
qed auto

section \<open>Insertion sort\<close>

text \<open>
  The stable insertion sort that the source writes out in \<open>RarestFirst\<close> and
  \<open>sortByAssigned\<close>: each element moves left past the elements that are strictly greater. The
  sorted prefix is kept reversed. It also models \<open>sort.SliceStable\<close>, whose result is determined by
  its contract, and \<open>sort.Slice\<close>, which leaves the order of equal elements open.
\<close>

fun sift :: "('a \<Rightarrow> 'a \<Rightarrow> bool) \<Rightarrow> 'a \<Rightarrow> 'a list \<Rightarrow> 'a list" where
  "sift lt x [] = [x]"
| "sift lt x (y # ys) = (if lt x y then y # sift lt x ys else x # y # ys)"

definition insertion_sort :: "('a \<Rightarrow> 'a \<Rightarrow> bool) \<Rightarrow> 'a list \<Rightarrow> 'a list" where
  "insertion_sort lt xs = rev (foldl (\<lambda>acc x. sift lt x acc) [] xs)"

lemma mset_sift: "mset (sift lt x ys) = add_mset x (mset ys)"
  by (induction ys) auto

lemma mset_foldl_sift: "mset (foldl (\<lambda>acc x. sift lt x acc) ys xs) = mset xs + mset ys"
  by (induction xs arbitrary: ys) (auto simp: mset_sift)

lemma mset_insertion_sort [simp]: "mset (insertion_sort lt xs) = mset xs"
  by (simp add: insertion_sort_def mset_foldl_sift)

lemma set_insertion_sort [simp]: "set (insertion_sort lt xs) = set xs"
  by (metis mset_insertion_sort set_mset_mset)

lemma length_insertion_sort [simp]: "length (insertion_sort lt xs) = length xs"
  by (metis mset_insertion_sort size_mset)

lemma distinct_insertion_sort [simp]: "distinct (insertion_sort lt xs) = distinct xs"
  by (metis mset_insertion_sort mset_eq_imp_distinct_iff)

lemma insertion_sort_Nil [simp]: "insertion_sort lt [] = []"
  by (simp add: insertion_sort_def)

text \<open>What the comparison functions of the source promise: a strict weak order.\<close>

locale weak_order =
  fixes lt :: "'a \<Rightarrow> 'a \<Rightarrow> bool"
  assumes asym: "lt a b \<Longrightarrow> \<not> lt b a"
    and neg_trans: "\<not> lt a b \<Longrightarrow> \<not> lt b c \<Longrightarrow> \<not> lt a c"
begin

lemma sorted_sift:
  assumes "sorted_wrt (\<lambda>a b. \<not> lt a b) ys"
  shows "sorted_wrt (\<lambda>a b. \<not> lt a b) (sift lt x ys)"
  using assms
proof (induction ys)
  case (Cons y ys)
  have "set (sift lt x ys) = insert x (set ys)"
    by (metis mset_sift set_mset_add_mset_insert set_mset_mset)
  with Cons show ?case
    by (auto dest: asym neg_trans)
qed simp

lemma sorted_foldl_sift:
  "sorted_wrt (\<lambda>a b. \<not> lt a b) ys \<Longrightarrow>
   sorted_wrt (\<lambda>a b. \<not> lt a b) (foldl (\<lambda>acc x. sift lt x acc) ys xs)"
  by (induction xs arbitrary: ys) (auto simp: sorted_sift)

lemma sorted_insertion_sort: "sorted_wrt (\<lambda>a b. \<not> lt b a) (insertion_sort lt xs)"
  by (simp add: insertion_sort_def sorted_wrt_rev sorted_foldl_sift)

lemma sift_stable:
  assumes "\<And>u v. u \<in> E \<Longrightarrow> v \<in> E \<Longrightarrow> \<not> lt u v" and "x \<in> E"
  shows "filter (\<lambda>z. z \<in> E) (sift lt x ys) = x # filter (\<lambda>z. z \<in> E) ys"
  using assms by (induction ys) auto

lemma foldl_sift_stable:
  assumes "\<And>u v. u \<in> E \<Longrightarrow> v \<in> E \<Longrightarrow> \<not> lt u v"
  shows "filter (\<lambda>z. z \<in> E) (foldl (\<lambda>acc x. sift lt x acc) ys xs) =
    rev (filter (\<lambda>z. z \<in> E) xs) @ filter (\<lambda>z. z \<in> E) ys"
proof (induction xs arbitrary: ys)
  case (Cons x xs)
  show ?case
  proof (cases "x \<in> E")
    case True
    with assms have "filter (\<lambda>z. z \<in> E) (sift lt x ys) = x # filter (\<lambda>z. z \<in> E) ys"
      by (rule sift_stable)
    with Cons.IH True show ?thesis by simp
  next
    case False
    then have "filter (\<lambda>z. z \<in> E) (sift lt x ys) = filter (\<lambda>z. z \<in> E) ys"
      by (induction ys) auto
    with Cons.IH False show ?thesis by simp
  qed
qed simp

lemma insertion_sort_stable:
  assumes "\<And>u v. u \<in> E \<Longrightarrow> v \<in> E \<Longrightarrow> \<not> lt u v"
  shows "filter (\<lambda>z. z \<in> E) (insertion_sort lt xs) = filter (\<lambda>z. z \<in> E) xs"
  using foldl_sift_stable [OF assms, of E "[]" xs]
  by (simp add: insertion_sort_def rev_filter [symmetric])

lemma sorted_unique:
  assumes "sorted_wrt (\<lambda>a b. \<not> lt b a) xs" and "sorted_wrt (\<lambda>a b. \<not> lt b a) ys"
    and "mset xs = mset ys"
    and "\<And>a b. a \<in> set xs \<Longrightarrow> b \<in> set xs \<Longrightarrow> a \<noteq> b \<Longrightarrow> lt a b \<or> lt b a"
  shows "xs = ys"
  using assms
proof (induction xs arbitrary: ys)
  case (Cons x xs)
  from Cons.prems(3) obtain y zs where ys: "ys = y # zs"
    by (cases ys) auto
  have same: "set (x # xs) = set (y # zs)"
    using Cons.prems(3) ys by (metis set_mset_mset)
  have "x = y"
  proof (rule ccontr)
    assume "x \<noteq> y"
    with same have "x \<in> set zs" "y \<in> set xs" by auto
    with Cons.prems(1,2) ys have "\<not> lt y x" "\<not> lt x y" by auto
    moreover have "lt x y \<or> lt y x"
      using Cons.prems(4) [of x y] \<open>x \<noteq> y\<close> \<open>y \<in> set xs\<close> by simp
    ultimately show False by blast
  qed
  moreover have "xs = zs"
    using Cons.prems ys \<open>x = y\<close> by (intro Cons.IH) auto
  ultimately show ?case using ys by simp
qed simp

lemma insertion_sort_unique:
  assumes "mset xs = mset ys"
    and "\<And>a b. a \<in> set xs \<Longrightarrow> b \<in> set xs \<Longrightarrow> a \<noteq> b \<Longrightarrow> lt a b \<or> lt b a"
  shows "insertion_sort lt xs = insertion_sort lt ys"
  using assms by (intro sorted_unique) (simp_all add: sorted_insertion_sort)

lemma insertion_sort_sorted:
  assumes "sorted_wrt (\<lambda>a b. \<not> lt b a) xs"
  shows "insertion_sort lt xs = xs"
proof -
  have step: "foldl (\<lambda>acc x. sift lt x acc) acc xs = rev xs @ acc"
    if "sorted_wrt (\<lambda>a b. \<not> lt b a) (rev acc @ xs)" for acc
    using that
  proof (induction xs arbitrary: acc)
    case (Cons x xs)
    then have "sift lt x acc = x # acc"
      by (cases acc) (auto simp: sorted_wrt_append)
    with Cons.IH [of "x # acc"] Cons.prems show ?case by simp
  qed simp
  from step [of "[]"] assms show ?thesis by (simp add: insertion_sort_def)
qed

end

text \<open>Orders by a key, by a string key, and by a key with another order for ties.\<close>

lemma weak_order_key: "weak_order (\<lambda>a b. f a < (f b :: 'b :: linorder))"
  by unfold_locales auto

lemma weak_order_str: "weak_order (\<lambda>a b. str_less (f a) (f b))"
  by unfold_locales (rule str_less_asym, assumption, metis str_less_linear str_less_trans)

lemma weak_order_lex:
  assumes "weak_order lt"
  shows "weak_order (\<lambda>a b. f a < (f b :: 'b :: linorder) \<or> f a = f b \<and> lt a b)"
proof (unfold_locales, goal_cases)
  case (1 a b)
  with weak_order.asym [OF assms, of a b] show ?case by auto
next
  case (2 a b c)
  then have "f b \<le> f a" "f c \<le> f b" "f a = f b \<Longrightarrow> \<not> lt a b" "f b = f c \<Longrightarrow> \<not> lt b c"
    by auto
  with weak_order.neg_trans [OF assms, of a b c] show ?case by auto
qed

section \<open>Loops that skip what they have seen\<close>

fun firsts :: "'a set \<Rightarrow> 'a list \<Rightarrow> 'a list" where
  "firsts seen [] = []"
| "firsts seen (x # xs) =
     (if x \<in> seen then firsts seen xs else x # firsts (insert x seen) xs)"

lemma set_firsts: "set (firsts seen xs) = set xs - seen"
  by (induction xs arbitrary: seen) auto

lemma distinct_firsts: "distinct (firsts seen xs)"
  by (induction xs arbitrary: seen) (auto simp: set_firsts)

lemma firsts_distinct: "distinct xs \<Longrightarrow> set xs \<inter> seen = {} \<Longrightarrow> firsts seen xs = xs"
  by (induction xs arbitrary: seen) auto

section \<open>Association lists\<close>

abbreviation wf_alist :: "('k \<times> 'v) list \<Rightarrow> bool" where
  "wf_alist m \<equiv> distinct (map fst m)"

lemma wf_alist_update [simp, inv_intros]: "wf_alist m \<Longrightarrow> wf_alist (AList.update k v m)"
  by (rule distinct_update)

lemma wf_alist_delete [simp, inv_intros]: "wf_alist m \<Longrightarrow> wf_alist (AList.delete k m)"
  by (rule distinct_delete)

lemma map_of_update [simp]: "map_of (AList.update k v m) = (map_of m)(k \<mapsto> v)"
  by (rule update_conv')

lemma map_of_delete [simp]: "map_of (AList.delete k m) = (map_of m)(k := None)"
  by (rule delete_conv')

lemma in_set_map_of: "wf_alist m \<Longrightarrow> ((k, v) \<in> set m) = (map_of m k = Some v)"
  by auto

lemma update_new: "map_of m k = None \<Longrightarrow> AList.update k v m = m @ [(k, v)]"
  by (induction m) (auto split: if_splits)

lemma delete_absent: "map_of m k = None \<Longrightarrow> AList.delete k m = m"
  by (induction m) (auto split: if_splits simp: AList.delete_eq)

lemma filter_delete:
  assumes "wf_alist m" and "map_of m k = Some v"
  shows "length (filter P m) = length (filter P (AList.delete k m)) + (if P (k, v) then 1 else 0)"
  using assms
proof (induction m)
  case (Cons x m)
  show ?case
  proof (cases "fst x = k")
    case True
    then have "map_of m k = None"
      using Cons.prems(1) by (auto simp: map_of_eq_None_iff)
    moreover have "AList.delete k (x # m) = AList.delete k m"
      using True by (cases x) (simp add: AList.delete_eq)
    ultimately show ?thesis
      using True Cons.prems(2) by (cases x) (simp add: delete_absent)
  next
    case False
    with Cons show ?thesis by (cases x) (simp add: AList.delete_eq)
  qed
qed simp

lemma map_of_filter_wf:
  "wf_alist m \<Longrightarrow> map_of (filter (\<lambda>(i, v). P i v) m) i =
     (case map_of m i of None \<Rightarrow> None | Some v \<Rightarrow> if P i v then Some v else None)"
  by (induction m) (auto split: option.splits simp: map_of_eq_None_iff [symmetric] dest: map_of_SomeD)

lemma length_delete_le: "length (AList.delete k m) \<le> length m"
  by (simp add: AList.delete_eq)

lemma set_delete_subset: "set (AList.delete k m) \<subseteq> set m"
  by (auto simp: AList.delete_eq)

end
