(* ===== verification/Sha256.thy ===== *)
theory Sha256
  imports Prelude
begin

text \<open>
  The digest of \<open>crypto/sha256\<close> (FIPS 180-4) on 32-bit words and the lower-case text of
  \<open>encoding/hex\<close>. The rest of the development uses the shape of a digest: 32 bytes, whose text is
  64 lower-case hexadecimal characters. Nothing is assumed about collisions.
\<close>

unbundle bit_operations_syntax

type_synonym u32 = "32 word"

section \<open>The compression function\<close>

definition rotr :: "nat \<Rightarrow> u32 \<Rightarrow> u32" where
  "rotr n x = drop_bit n x OR push_bit (32 - n) x"

definition big_sigma0 :: "u32 \<Rightarrow> u32" where
  "big_sigma0 x = rotr 2 x XOR rotr 13 x XOR rotr 22 x"

definition big_sigma1 :: "u32 \<Rightarrow> u32" where
  "big_sigma1 x = rotr 6 x XOR rotr 11 x XOR rotr 25 x"

definition small_sigma0 :: "u32 \<Rightarrow> u32" where
  "small_sigma0 x = rotr 7 x XOR rotr 18 x XOR drop_bit 3 x"

definition small_sigma1 :: "u32 \<Rightarrow> u32" where
  "small_sigma1 x = rotr 17 x XOR rotr 19 x XOR drop_bit 10 x"

definition sha_ch :: "u32 \<Rightarrow> u32 \<Rightarrow> u32 \<Rightarrow> u32" where
  "sha_ch x y z = (x AND y) XOR (NOT x AND z)"

definition sha_maj :: "u32 \<Rightarrow> u32 \<Rightarrow> u32 \<Rightarrow> u32" where
  "sha_maj x y z = (x AND y) XOR (x AND z) XOR (y AND z)"

text \<open>
  The constants are the first 32 bits of the fractional parts of the cube roots of the first 64
  primes, and of the square roots of the first 8. \<open>root_bits k b x\<close> is the largest number below
  \<open>2 ^ b\<close> whose \<open>k\<close>-th power is at most \<open>x\<close>, one bit at a time.
\<close>

fun root_bits :: "nat \<Rightarrow> nat \<Rightarrow> int \<Rightarrow> int \<Rightarrow> int" where
  "root_bits k 0 x r = r"
| "root_bits k (Suc b) x r =
     root_bits k b x (if (r + 2 ^ b) ^ k \<le> x then r + 2 ^ b else r)"

fun primes_from :: "nat \<Rightarrow> int \<Rightarrow> int list \<Rightarrow> int list" where
  "primes_from 0 n ps = rev ps"
| "primes_from (Suc f) n ps =
     primes_from f (n + 1) (if list_ex (\<lambda>p. n mod p = 0) ps then ps else n # ps)"

definition sha_k :: "u32 list" where
  "sha_k = map (\<lambda>p. word_of_int (root_bits 3 36 (p * 2 ^ 96) 0)) (take 64 (primes_from 311 2 []))"

definition sha_h0 :: "u32 list" where
  "sha_h0 = map (\<lambda>p. word_of_int (root_bits 2 36 (p * 2 ^ 64) 0)) [2, 3, 5, 7, 11, 13, 17, 19]"

text \<open>The message schedule, the newest word first.\<close>

fun schedule :: "nat \<Rightarrow> u32 list \<Rightarrow> u32 list" where
  "schedule 0 w = w"
| "schedule (Suc n) w =
     schedule n ((small_sigma1 (w ! 1) + w ! 6 + small_sigma0 (w ! 14) + w ! 15) # w)"

fun sha_round :: "u32 list \<Rightarrow> u32 \<times> u32 \<Rightarrow> u32 list" where
  "sha_round [a, b, c, d, e, f, g, h] (k, w) =
     (let t1 = h + big_sigma1 e + sha_ch e f g + k + w; t2 = big_sigma0 a + sha_maj a b c
      in [t1 + t2, a, b, c, d + t1, e, f, g])"
| "sha_round st kw = st"

definition word_of_bytes :: "byte list \<Rightarrow> u32" where
  "word_of_bytes bs = foldl (\<lambda>acc b. push_bit 8 acc OR ucast b) 0 bs"

fun take_words :: "nat \<Rightarrow> byte list \<Rightarrow> u32 list" where
  "take_words 0 bs = []"
| "take_words (Suc n) bs = word_of_bytes (take 4 bs) # take_words n (drop 4 bs)"

definition compress :: "u32 list \<Rightarrow> byte list \<Rightarrow> u32 list" where
  "compress hs block =
     (let w = rev (schedule 48 (rev (take_words 16 block)))
      in map2 (+) hs (foldl sha_round hs (zip sha_k w)))"

section \<open>Padding, blocks, the digest\<close>

definition be_bytes :: "nat list \<Rightarrow> 'a::len word \<Rightarrow> byte list" where
  "be_bytes shifts x = map (\<lambda>k. ucast (drop_bit k x)) shifts"

definition sha_pad :: "byte list \<Rightarrow> byte list" where
  "sha_pad m =
     m @ 0x80 # replicate ((119 - length m mod 64) mod 64) 0 @
     be_bytes [56, 48, 40, 32, 24, 16, 8, 0] (8 * of_nat (length m) :: 64 word)"

fun blocks :: "nat \<Rightarrow> byte list \<Rightarrow> byte list list" where
  "blocks 0 m = []"
| "blocks (Suc n) m = take 64 m # blocks n (drop 64 m)"

definition sha256 :: "byte list \<Rightarrow> byte list" where
  "sha256 m =
     (let p = sha_pad m
      in concat (map (be_bytes [24, 16, 8, 0]) (foldl compress sha_h0 (blocks (length p div 64) p))))"

section \<open>Hexadecimal text\<close>

definition hex_digit :: "nat \<Rightarrow> char" where
  "hex_digit n = ''0123456789abcdef'' ! (n mod 16)"

definition hex_encode :: "byte list \<Rightarrow> string" where
  "hex_encode bs = concat (map (\<lambda>b. [hex_digit (unat b div 16), hex_digit (unat b)]) bs)"

definition is_hex :: "char \<Rightarrow> bool" where
  "is_hex c = (c \<in> set ''0123456789abcdef'')"

definition hex_digest :: "byte list \<Rightarrow> string" where
  "hex_digest m = hex_encode (sha256 m)"

section \<open>Shape of a digest\<close>

lemma length_sha_round: "length (sha_round st kw) = length st"
  by (induction st kw rule: sha_round.induct) (auto simp: Let_def)

lemma length_rounds: "length (foldl sha_round st kws) = length st"
  by (induction kws arbitrary: st) (auto simp: length_sha_round)

lemma length_compress: "length (compress hs b) = length hs"
  by (simp add: compress_def length_rounds Let_def)

lemma length_foldl_compress: "length (foldl compress hs bs) = length hs"
  by (induction bs arbitrary: hs) (auto simp: length_compress)

lemma length_be_bytes [simp]: "length (be_bytes ks x) = length ks"
  by (simp add: be_bytes_def)

lemma length_sha256 [simp]: "length (sha256 m) = 32"
  by (simp add: sha256_def Let_def length_concat comp_def length_foldl_compress sha_h0_def
      sum_list_triv)

lemma length_hex_encode [simp]: "length (hex_encode bs) = 2 * length bs"
  by (induction bs) (auto simp: hex_encode_def)

lemma length_hex_digest [simp]: "length (hex_digest m) = 64"
  by (simp add: hex_digest_def)

lemma is_hex_digit [simp]: "is_hex (hex_digit n)"
proof -
  have "n mod 16 < length ''0123456789abcdef''" by simp
  then show ?thesis
    unfolding is_hex_def hex_digit_def by (rule nth_mem)
qed

lemma hex_encode_is_hex: "c \<in> set (hex_encode bs) \<Longrightarrow> is_hex c"
  by (auto simp: hex_encode_def)

lemma hex_digest_is_hex: "c \<in> set (hex_digest m) \<Longrightarrow> is_hex c"
  by (simp add: hex_digest_def hex_encode_is_hex)

lemma is_hex_not_slash: "is_hex c \<Longrightarrow> c \<noteq> CHR ''/'' \<and> c \<noteq> CHR ''.''"
  by (auto simp: is_hex_def)

end
