(* ===== verification/Json.thy ===== *)
theory Json
  imports Sha256
begin

text \<open>
  The text that \<open>encoding/json\<close> writes for the values Spider encodes: objects in field order,
  arrays, strings with the HTML-safe escaping of \<open>json.Marshal\<close>, and decimal integers. A JSON
  text is a string; \<open>bytes_of_string\<close> gives its bytes.
\<close>

section \<open>Values\<close>

datatype json =
    JNull
  | JBool bool
  | JNum string
  | JStr string
  | JArr "json list"
  | JObj "(string \<times> json) list"

definition bytes_of_string :: "string \<Rightarrow> bytes" where
  "bytes_of_string s = map (\<lambda>c. of_nat (of_char c)) s"

definition string_of_bytes :: "bytes \<Rightarrow> string" where
  "string_of_bytes bs = map (\<lambda>b. char_of (unat b)) bs"

lemma string_of_bytes_of_string [simp]: "string_of_bytes (bytes_of_string s) = s"
proof -
  have "char_of (unat (of_nat (of_char c) :: byte)) = c" for c
  proof -
    have "(of_char c :: nat) < 256" by (rule nat_of_char_less_256)
    then have "unat (of_nat (of_char c) :: byte) = of_char c"
      by (simp add: unat_of_nat)
    then show ?thesis by simp
  qed
  then show ?thesis
    by (simp add: string_of_bytes_def bytes_of_string_def comp_def)
qed

lemma bytes_of_string_inject: "bytes_of_string s = bytes_of_string t \<longleftrightarrow> s = t"
  by (metis string_of_bytes_of_string)

section \<open>Integers\<close>

fun show_nat :: "nat \<Rightarrow> string" where
  "show_nat n =
     (if n < 10 then [hex_digit n] else show_nat (n div 10) @ [hex_digit (n mod 10)])"

declare show_nat.simps [simp del]

definition show_int :: "int \<Rightarrow> string" where
  "show_int i = (if i < 0 then CHR ''-'' # show_nat (nat (- i)) else show_nat (nat i))"

section \<open>Strings\<close>

abbreviation ord :: "char \<Rightarrow> nat" where
  "ord c \<equiv> of_char c"

definition between :: "nat \<Rightarrow> nat \<Rightarrow> char \<Rightarrow> bool" where
  "between lo hi c = (lo \<le> ord c \<and> ord c \<le> hi)"

text \<open>The length of the valid UTF-8 sequence at the front of a string, 0 when there is none.\<close>

definition rune_len :: "string \<Rightarrow> nat" where
  "rune_len s =
     (case s of
        [] \<Rightarrow> 0
      | c # s1 \<Rightarrow>
          if ord c < 0x80 then 1
          else case s1 of
            [] \<Rightarrow> 0
          | d # s2 \<Rightarrow>
              if between 0xC2 0xDF c then if between 0x80 0xBF d then 2 else 0
              else case s2 of
                [] \<Rightarrow> 0
              | e # s3 \<Rightarrow>
                  if between 0xE0 0xEF c then
                    if between (if ord c = 0xE0 then 0xA0 else 0x80)
                         (if ord c = 0xED then 0x9F else 0xBF) d \<and> between 0x80 0xBF e
                    then 3 else 0
                  else case s3 of
                    [] \<Rightarrow> 0
                  | f # _ \<Rightarrow>
                      if between 0xF0 0xF4 c \<and>
                         between (if ord c = 0xF0 then 0x90 else 0x80)
                           (if ord c = 0xF4 then 0x8F else 0xBF) d \<and>
                         between 0x80 0xBF e \<and> between 0x80 0xBF f
                      then 4 else 0)"

text \<open>An ASCII character: \<open>htmlSafeSet\<close> decides which ones are written as they are.\<close>

definition esc_ascii :: "char \<Rightarrow> string" where
  "esc_ascii c =
     (if c = CHR 0x5C \<or> c = CHR 0x22 then [CHR 0x5C, c]
      else if ord c = 8 then [CHR 0x5C, CHR ''b'']
      else if ord c = 12 then [CHR 0x5C, CHR ''f'']
      else if ord c = 10 then [CHR 0x5C, CHR ''n'']
      else if ord c = 13 then [CHR 0x5C, CHR ''r'']
      else if ord c = 9 then [CHR 0x5C, CHR ''t'']
      else if ord c < 32 \<or> c = CHR ''<'' \<or> c = CHR ''>'' \<or> c = CHR ''&'' then
        CHR 0x5C # ''u00'' @ [hex_digit (ord c div 16), hex_digit (ord c)]
      else [c])"

function json_body :: "string \<Rightarrow> string" where
  "json_body [] = []"
| "json_body (c # s) =
     (if ord c < 0x80 then esc_ascii c @ json_body s
      else let n = rune_len (c # s)
        in if n = 0 then CHR 0x5C # ''ufffd'' @ json_body s
           else if take 3 (c # s) = [CHR 0xE2, CHR 0x80, CHR 0xA8] then CHR 0x5C # ''u2028'' @ json_body (drop (n - 1) s)
           else if take 3 (c # s) = [CHR 0xE2, CHR 0x80, CHR 0xA9] then CHR 0x5C # ''u2029'' @ json_body (drop (n - 1) s)
           else take n (c # s) @ json_body (drop (n - 1) s))"
  by pat_completeness auto
termination
  by (relation "measure length") auto

definition json_string :: "string \<Rightarrow> string" where
  "json_string s = CHR 0x22 # json_body s @ [CHR 0x22]"

section \<open>Compact text\<close>

fun intercalate :: "string \<Rightarrow> string list \<Rightarrow> string" where
  "intercalate sep [] = []"
| "intercalate sep [w] = w"
| "intercalate sep (w # ws) = w @ sep @ intercalate sep ws"

fun json_compact :: "json \<Rightarrow> string" where
  "json_compact JNull = ''null''"
| "json_compact (JBool b) = (if b then ''true'' else ''false'')"
| "json_compact (JNum n) = n"
| "json_compact (JStr s) = json_string s"
| "json_compact (JArr xs) = ''['' @ intercalate '','' (map json_compact xs) @ '']''"
| "json_compact (JObj kvs) =
     ''{'' @ intercalate '','' (map (\<lambda>kv. json_string (fst kv) @ '':'' @ json_compact (snd kv)) kvs) @ ''}''"

section \<open>Indented text\<close>

text \<open>
  \<open>json.MarshalIndent\<close> with an empty prefix and two spaces; \<open>nl\<close> is the line break followed by the
  indentation of the current level.
\<close>

fun json_indent :: "string \<Rightarrow> json \<Rightarrow> string" where
  "json_indent nl JNull = ''null''"
| "json_indent nl (JBool b) = (if b then ''true'' else ''false'')"
| "json_indent nl (JNum n) = n"
| "json_indent nl (JStr s) = json_string s"
| "json_indent nl (JArr xs) =
     (if xs = [] then ''[]''
      else ''['' @ intercalate '','' (map (\<lambda>x. nl @ ''  '' @ json_indent (nl @ ''  '') x) xs) @ nl @ '']'')"
| "json_indent nl (JObj kvs) =
     (if kvs = [] then ''{}''
      else ''{'' @ intercalate '',''
             (map (\<lambda>kv. nl @ ''  '' @ json_string (fst kv) @ '': '' @ json_indent (nl @ ''  '') (snd kv)) kvs) @
           nl @ ''}'')"

definition json_MarshalIndent :: "json \<Rightarrow> bytes" where
  "json_MarshalIndent j = bytes_of_string (json_indent [CHR 0x0A] j)"

end
