(* ===== verification/Filepath.thy ===== *)
theory Filepath
  imports Prelude
begin

text \<open>
  The functions of \<open>path/filepath\<close> that Spider calls, on Unix (where \<open>ToSlash\<close> and
  \<open>FromSlash\<close> are the identity): \<open>Clean\<close>, \<open>Join\<close>, \<open>Dir\<close>, \<open>Base\<close>,
  \<open>IsAbs\<close>, and \<open>resolve\<close>, the file a path names for the operating system, as the list of
  its components from the root. The lemmas relate the three: cleaning does not change the file
  a path names, and joining appends the components of a relative path without \<open>..\<close>.
\<close>

section \<open>Components\<close>

fun split_slash :: "string \<Rightarrow> string list" where
  "split_slash [] = [[]]"
| "split_slash (c # cs) =
     (if c = CHR ''/'' then [] # split_slash cs
      else (case split_slash cs of [] \<Rightarrow> [[c]] | w # ws \<Rightarrow> (c # w) # ws))"

fun join_slash :: "string list \<Rightarrow> string" where
  "join_slash [] = []"
| "join_slash [w] = w"
| "join_slash (w # ws) = w @ CHR ''/'' # join_slash ws"

lemma split_slash_not_Nil [simp]: "split_slash s \<noteq> []"
  by (induction s) (auto split: list.splits)

lemma split_slash_append: "split_slash (a @ CHR ''/'' # b) = split_slash a @ split_slash b"
  by (induction a) (auto split: list.splits)

lemma split_slash_word: "CHR ''/'' \<notin> set w \<Longrightarrow> split_slash w = [w]"
  by (induction w) auto

lemma split_join:
  "ws \<noteq> [] \<Longrightarrow> \<forall>w \<in> set ws. CHR ''/'' \<notin> set w \<Longrightarrow> split_slash (join_slash ws) = ws"
proof (induction ws rule: join_slash.induct)
  case (3 w v ws)
  then show ?case by (simp add: split_slash_append split_slash_word)
qed (auto simp: split_slash_word)

lemma split_slash_no_slash: "w \<in> set (split_slash s) \<Longrightarrow> CHR ''/'' \<notin> set w"
  by (induction s arbitrary: w) (auto split: if_splits list.splits)

lemma join_split [simp]: "join_slash (split_slash s) = s"
proof (induction s)
  case (Cons c s)
  obtain w ws where "split_slash s = w # ws"
    using split_slash_not_Nil [of s] by (cases "split_slash s") auto
  with Cons show ?case by (cases ws) auto
qed simp

lemma join_slash_Cons: "ws \<noteq> [] \<Longrightarrow> join_slash (w # ws) = w @ CHR ''/'' # join_slash ws"
  by (cases ws) auto

lemma join_slash_append:
  "us \<noteq> [] \<Longrightarrow> ws \<noteq> [] \<Longrightarrow> join_slash (us @ ws) = join_slash us @ CHR ''/'' # join_slash ws"
  by (induction us rule: join_slash.induct) (auto simp: join_slash_Cons)

section \<open>Clean, Join, Dir, Base\<close>

definition rooted :: "string \<Rightarrow> bool" where
  "rooted p = has_prefix p ''/''"

abbreviation filepath_IsAbs :: "string \<Rightarrow> bool" where
  "filepath_IsAbs p \<equiv> rooted p"

text \<open>
  One path element, on the elements kept so far, the last one first: an empty element and \<open>.\<close> are
  dropped, \<open>..\<close> removes the element before it, or is kept when there is none and the path is
  not rooted.
\<close>

fun clean_step :: "bool \<Rightarrow> string list \<Rightarrow> string \<Rightarrow> string list" where
  "clean_step r st c =
     (if c = [] \<or> c = ''.'' then st
      else if c = ''..'' then
        (case st of
           [] \<Rightarrow> if r then [] else [''..'']
         | t # ts \<Rightarrow> if t = ''..'' then ''..'' # st else ts)
      else c # st)"

declare clean_step.simps [simp del]

definition clean_comps :: "bool \<Rightarrow> string list \<Rightarrow> string list \<Rightarrow> string list" where
  "clean_comps r st cs = foldl (clean_step r) st cs"

definition filepath_Clean :: "string \<Rightarrow> string" where
  "filepath_Clean p =
     (if p = [] then ''.''
      else let s = join_slash (rev (clean_comps (rooted p) [] (split_slash p)))
           in if rooted p then CHR ''/'' # s else if s = [] then ''.'' else s)"

fun filepath_Join :: "string list \<Rightarrow> string" where
  "filepath_Join [] = []"
| "filepath_Join (e # es) =
     (if e = [] then filepath_Join es else filepath_Clean (join_slash (e # es)))"

text \<open>\<open>Dir\<close> cleans everything up to and including the last slash.\<close>

definition filepath_Dir :: "string \<Rightarrow> string" where
  "filepath_Dir p = filepath_Clean (join_slash (butlast (split_slash p) @ [[]]))"

definition filepath_Base :: "string \<Rightarrow> string" where
  "filepath_Base p =
     (if p = [] then ''.''
      else case dropWhile (\<lambda>w. w = []) (rev (split_slash p)) of [] \<Rightarrow> ''/'' | w # _ \<Rightarrow> w)"

text \<open>
  The file a path names: its components from the root, for a process with working directory
  \<open>cwd\<close>. Symbolic links are not modelled.
\<close>

definition resolve :: "string list \<Rightarrow> string \<Rightarrow> string list" where
  "resolve cwd p = rev (clean_comps True (if rooted p then [] else rev cwd) (split_slash p))"

section \<open>Facts about cleaning\<close>

lemma clean_comps_Nil [simp]: "clean_comps r st [] = st"
  by (simp add: clean_comps_def)

lemma clean_comps_Cons [simp]: "clean_comps r st (c # cs) = clean_comps r (clean_step r st c) cs"
  by (simp add: clean_comps_def)

lemma clean_comps_append:
  "clean_comps r st (as @ bs) = clean_comps r (clean_comps r st as) bs"
  by (simp add: clean_comps_def)

definition plain :: "string \<Rightarrow> bool" where
  "plain c = (c \<noteq> [] \<and> c \<noteq> ''.'' \<and> c \<noteq> ''..'' \<and> CHR ''/'' \<notin> set c)"

lemma clean_step_plain [simp]: "plain c \<Longrightarrow> clean_step r st c = c # st"
  by (simp add: clean_step.simps plain_def)

lemma clean_step_dotdot: "clean_step r st ''..'' =
  (case st of [] \<Rightarrow> if r then [] else [''..''] | t # ts \<Rightarrow> if t = ''..'' then ''..'' # st else ts)"
  by (simp add: clean_step.simps)

lemma clean_step_skip [simp]: "clean_step r st [] = st" "clean_step r st ''.'' = st"
  by (simp_all add: clean_step.simps)

lemma clean_step_cases:
  assumes "CHR ''/'' \<notin> set c"
  obtains "c = []" | "c = ''.''" | "c = ''..''" | "plain c"
  using assms by (auto simp: plain_def)

lemma clean_comps_plain: "\<forall>c \<in> set cs. plain c \<Longrightarrow> clean_comps r st cs = rev cs @ st"
  by (induction cs arbitrary: st) auto

text \<open>The stack of a rooted path holds plain names only; of a relative one, plain names above \<open>..\<close>s.\<close>

fun rel_stack :: "string list \<Rightarrow> bool" where
  "rel_stack [] = True"
| "rel_stack (t # ts) = (if t = ''..'' then set ts \<subseteq> {''..''} else plain t \<and> rel_stack ts)"

lemma rel_stack_dots: "set ts \<subseteq> {''..''} \<Longrightarrow> rel_stack ts"
  by (cases ts) auto

lemma rel_stack_tl: "rel_stack (t # ts) \<Longrightarrow> rel_stack ts"
  by (auto split: if_splits intro: rel_stack_dots)

lemma rel_stack_step:
  assumes "rel_stack st" and "CHR ''/'' \<notin> set c"
  shows "rel_stack (clean_step r st c)"
  using assms(2)
proof (cases rule: clean_step_cases)
  case 3
  with assms(1) show ?thesis
    by (cases st) (simp_all add: clean_step_dotdot rel_stack_dots split: if_splits)
next
  case 4
  with assms(1) show ?thesis by (simp add: plain_def)
qed (use assms(1) in simp_all)

lemma rel_stack_clean:
  "rel_stack st \<Longrightarrow> \<forall>c \<in> set cs. CHR ''/'' \<notin> set c \<Longrightarrow> rel_stack (clean_comps r st cs)"
  by (induction cs arbitrary: st) (auto simp: rel_stack_step)

lemma root_step:
  assumes "\<forall>t \<in> set st. plain t" and "CHR ''/'' \<notin> set c"
  shows "\<forall>t \<in> set (clean_step True st c). plain t"
  using assms(2)
proof (cases rule: clean_step_cases)
  case 3
  with assms(1) show ?thesis
    by (cases st) (simp_all add: clean_step_dotdot plain_def)
qed (use assms(1) in simp_all)

lemma root_clean:
  "\<forall>t \<in> set st. plain t \<Longrightarrow> \<forall>c \<in> set cs. CHR ''/'' \<notin> set c \<Longrightarrow>
   \<forall>t \<in> set (clean_comps True st cs). plain t"
proof (induction cs arbitrary: st)
  case (Cons c cs)
  from Cons.prems have "\<forall>t \<in> set (clean_step True st c). plain t"
    by (intro root_step) auto
  moreover from Cons.prems have "\<forall>c \<in> set cs. CHR ''/'' \<notin> set c" by simp
  ultimately show ?case unfolding clean_comps_Cons by (rule Cons.IH)
qed simp

lemma split_no_slash: "\<forall>c \<in> set (split_slash s). CHR ''/'' \<notin> set c"
  by (auto dest: split_slash_no_slash)

lemma rel_stack_no_slash: "rel_stack st \<Longrightarrow> t \<in> set st \<Longrightarrow> CHR ''/'' \<notin> set t \<and> t \<noteq> [] \<and> t \<noteq> ''.''"
  by (induction st) (auto simp: plain_def split: if_splits)

text \<open>
  Normalising a relative path first and then walking it from a directory ends where walking
  the path itself ends.
\<close>

lemma walk_step:
  assumes "rel_stack st" and "\<forall>t \<in> set base. plain t" and "CHR ''/'' \<notin> set c"
  shows "clean_comps True base (rev (clean_step False st c)) =
    clean_step True (clean_comps True base (rev st)) c"
  using assms(3)
proof (cases rule: clean_step_cases)
  case 3
  show ?thesis
  proof (cases st)
    case Nil
    with 3 show ?thesis by (simp add: clean_step_dotdot)
  next
    case (Cons t ts)
    show ?thesis
    proof (cases "t = ''..''")
      case True
      with Cons 3 show ?thesis by (simp add: clean_step_dotdot clean_comps_append)
    next
      case False
      with Cons assms(1) have "plain t" by simp
      with Cons False 3 show ?thesis by (simp add: clean_step_dotdot clean_comps_append)
    qed
  qed
qed (simp_all add: clean_comps_append)

lemma walk_clean:
  assumes "rel_stack st" and "\<forall>t \<in> set base. plain t" and "\<forall>c \<in> set cs. CHR ''/'' \<notin> set c"
  shows "clean_comps True base (rev (clean_comps False st cs)) =
    clean_comps True (clean_comps True base (rev st)) cs"
  using assms
proof (induction cs arbitrary: st)
  case (Cons c cs)
  then have "rel_stack (clean_step False st c)" by (simp add: rel_stack_step)
  with Cons show ?case by (simp add: walk_step)
qed simp

section \<open>Facts about resolving\<close>

abbreviation plain_path :: "string list \<Rightarrow> bool" where
  "plain_path cs \<equiv> \<forall>c \<in> set cs. plain c"

lemma rooted_Cons: "rooted (c # s) = (c = CHR ''/'')"
  by (simp add: rooted_def)

lemma rooted_Nil [simp]: "\<not> rooted []"
  by (simp add: rooted_def)

lemma plain_resolve: "plain_path cwd \<Longrightarrow> plain_path (resolve cwd p)"
  unfolding resolve_def set_rev by (rule root_clean) (simp_all add: split_no_slash)

lemma rooted_append: "a \<noteq> [] \<Longrightarrow> rooted (a @ b) = rooted a"
  by (cases a) (simp_all add: rooted_Cons)

lemma split_join_any: "ws \<noteq> [] \<Longrightarrow> split_slash (join_slash ws) = concat (map split_slash ws)"
  by (induction ws rule: join_slash.induct) (simp_all add: split_slash_append)

lemma resolve_relative:
  "\<not> rooted p \<Longrightarrow> resolve cwd p = rev (clean_comps True (rev cwd) (split_slash p))"
  by (simp add: resolve_def)

lemma resolve_rooted: "rooted p \<Longrightarrow> resolve cwd p = rev (clean_comps True [] (split_slash p))"
  by (simp add: resolve_def)

lemma relative_join:
  assumes "rel_stack st" and "st \<noteq> []"
  shows "join_slash (rev st) \<noteq> [] \<and> \<not> rooted (join_slash (rev st))
    \<and> split_slash (join_slash (rev st)) = rev st"
proof -
  obtain w ws where ws: "rev st = w # ws"
    using assms(2) by (cases "rev st") auto
  then have "w \<in> set st" by (metis list.set_intros(1) set_rev)
  with assms(1) have w: "w \<noteq> []" "CHR ''/'' \<notin> set w"
    by (auto dest: rel_stack_no_slash)
  obtain x w' where xw: "w = x # w'" "x \<noteq> CHR ''/''"
    using w by (cases w) auto
  have "\<exists>z. join_slash (rev st) = x # z"
    using ws xw by (cases ws) auto
  moreover have "split_slash (join_slash (rev st)) = rev st"
    using assms by (intro split_join) (auto dest: rel_stack_no_slash)
  ultimately show ?thesis
    using xw by (auto simp: rooted_Cons)
qed

lemma root_rel_stack: "\<forall>t \<in> set st. plain t \<Longrightarrow> rel_stack st"
  by (induction st) (auto simp: plain_def)

text \<open>Cleaning a path does not change the file it names.\<close>

lemma resolve_Clean:
  assumes "plain_path cwd"
  shows "resolve cwd (filepath_Clean p) = resolve cwd p"
proof (cases "p = []")
  case True
  then show ?thesis by (simp add: filepath_Clean_def resolve_def rooted_Cons)
next
  case ne: False
  show ?thesis
  proof (cases "rooted p")
    case True
    let ?st = "clean_comps True [] (split_slash p)"
    have pl: "\<forall>t \<in> set ?st. plain t"
      by (rule root_clean) (simp_all add: split_no_slash)
    have "clean_comps True [] (split_slash (join_slash (rev ?st))) = ?st"
    proof (cases "?st = []")
      case False
      then have "split_slash (join_slash (rev ?st)) = rev ?st"
        using relative_join root_rel_stack pl by blast
      moreover have "clean_comps True [] (rev ?st) = ?st"
        using clean_comps_plain [of "rev ?st" True "[]"] pl by (metis append_Nil2 rev_rev_ident set_rev)
      ultimately show ?thesis by simp
    qed simp
    with ne True show ?thesis
      by (simp add: filepath_Clean_def resolve_rooted rooted_Cons)
  next
    case False
    let ?st = "clean_comps False [] (split_slash p)"
    have rs: "rel_stack ?st"
      by (rule rel_stack_clean) (simp_all add: split_no_slash)
    have walk: "clean_comps True (rev cwd) (rev ?st) = clean_comps True (rev cwd) (split_slash p)"
      using walk_clean [of "[]" "rev cwd" "split_slash p"] assms by (simp add: split_no_slash)
    show ?thesis
    proof (cases "?st = []")
      case True
      with ne False walk show ?thesis
        by (simp add: filepath_Clean_def resolve_relative rooted_Cons)
    next
      case False
      with relative_join [OF rs] ne \<open>\<not> rooted p\<close> walk show ?thesis
        by (simp add: filepath_Clean_def resolve_relative)
    qed
  qed
qed

lemma filepath_Clean_not_Nil [simp]: "filepath_Clean p \<noteq> []"
  by (simp add: filepath_Clean_def Let_def)

lemma resolve_Join:
  assumes "plain_path cwd" and "a \<noteq> []"
  shows "resolve cwd (filepath_Join (a # bs)) =
    rev (clean_comps True (rev (resolve cwd a)) (concat (map split_slash bs)))"
proof -
  have "rooted (join_slash (a # bs)) = rooted a"
    using assms(2) by (cases bs) (simp_all add: rooted_append)
  moreover have "resolve cwd (filepath_Join (a # bs)) = resolve cwd (join_slash (a # bs))"
    using assms by (simp add: resolve_Clean)
  ultimately show ?thesis
    by (simp add: resolve_def split_join_any clean_comps_append)
qed

lemma resolve_Join_plain:
  assumes "plain_path cwd" and "a \<noteq> []" and "plain_path bs"
  shows "resolve cwd (filepath_Join (a # bs)) = resolve cwd a @ bs"
proof -
  have "concat (map split_slash bs) = bs"
    using assms(3) by (induction bs) (auto simp: plain_def split_slash_word)
  with resolve_Join [OF assms(1,2), of bs] assms(3) show ?thesis
    by (simp add: clean_comps_plain)
qed

text \<open>A cleaned relative path that does not begin with \<open>..\<close> has plain components only.\<close>

lemma rel_stack_no_dots:
  assumes "rel_stack st" and "st \<noteq> [] \<Longrightarrow> last st \<noteq> ''..''"
  shows "\<forall>t \<in> set st. plain t"
  using assms
proof (induction st)
  case (Cons t ts)
  show ?case
  proof (cases "t = ''..''")
    case True
    with Cons.prems(1) have "set (t # ts) \<subseteq> {''..''}" by simp
    then have "last (t # ts) = ''..''"
      using last_in_set [of "t # ts"] by blast
    with Cons.prems(2) show ?thesis by simp
  next
    case False
    with Cons.prems(1) have "plain t" "rel_stack ts" by simp_all
    moreover have "ts \<noteq> [] \<Longrightarrow> last ts \<noteq> ''..''"
      using Cons.prems(2) by simp
    ultimately show ?thesis
      using Cons.IH by (simp only: set_simps ball_simps) blast
  qed
qed simp

text \<open>The directory of a path whose last component is a plain name.\<close>

lemma split_butlast_last: "split_slash p = butlast (split_slash p) @ [last (split_slash p)]"
  by simp

lemma rooted_split: "rooted p = (\<exists>ws. ws \<noteq> [] \<and> split_slash p = [] # ws)"
  by (cases p) (auto simp: rooted_Cons split: list.splits)

lemma rooted_join: "rooted (join_slash ws) = (\<exists>us. us \<noteq> [] \<and> concat (map split_slash ws) = [] # us)"
proof (cases "ws = []")
  case False
  then show ?thesis by (simp add: rooted_split split_join_any)
qed simp

lemma concat_map_split: "\<forall>w \<in> set ws. CHR ''/'' \<notin> set w \<Longrightarrow> concat (map split_slash ws) = ws"
  by (induction ws) (auto simp: split_slash_word)

lemma resolve_Dir:
  assumes "plain_path cwd" and "plain (last (split_slash p))"
  shows "resolve cwd p = resolve cwd (filepath_Dir p) @ [last (split_slash p)]"
proof -
  let ?ws = "butlast (split_slash p)" and ?x = "last (split_slash p)"
  let ?d = "join_slash (?ws @ [[]])"
  have ns: "\<forall>w \<in> set (?ws @ [[]]). CHR ''/'' \<notin> set w"
    using split_no_slash [of p] by (auto dest: in_set_butlastD)
  have split: "split_slash ?d = ?ws @ [[]]"
    using ns by (intro split_join) auto
  have ends: "(\<exists>us. us \<noteq> [] \<and> ws @ [x] = [] # us) = (ws \<noteq> [] \<and> hd ws = [])" for ws and x :: string
    by (cases ws) auto
  have "rooted ?d = (?ws \<noteq> [] \<and> hd ?ws = [])"
    unfolding rooted_split split by (rule ends)
  moreover have "rooted p = (?ws \<noteq> [] \<and> hd ?ws = [])"
    unfolding rooted_split by (subst split_butlast_last) (rule ends)
  ultimately have "rooted ?d = rooted p" by simp
  then have "resolve cwd p = resolve cwd ?d @ [?x]"
    using assms(2) by (subst resolve_def, subst split_butlast_last)
      (simp only: clean_comps_append resolve_def split, simp)
  then show ?thesis
    using assms(1) by (simp add: filepath_Dir_def resolve_Clean)
qed

lemma last_split_Join:
  assumes "plain x" and "a \<noteq> []"
  shows "last (split_slash (filepath_Join (a # bs @ [x]))) = x"
proof -
  let ?p = "join_slash (a # bs @ [x])"
  let ?st = "clean_comps (rooted ?p) [] (concat (map split_slash (a # bs)))"
  have "split_slash ?p = concat (map split_slash (a # bs)) @ [x]"
    using assms(1) by (subst split_join_any) (auto simp: plain_def split_slash_word)
  then have st: "clean_comps (rooted ?p) [] (split_slash ?p) = x # ?st"
    using assms(1) by (simp add: clean_comps_append)
  have "rel_stack (clean_comps (rooted ?p) [] (split_slash ?p))"
    by (intro rel_stack_clean split_no_slash) simp
  then have "\<forall>w \<in> set (rev (x # ?st)). CHR ''/'' \<notin> set w"
    unfolding st set_rev using rel_stack_no_slash by blast
  then have "split_slash (join_slash (rev (x # ?st))) = rev (x # ?st)"
    by (intro split_join) simp_all
  then have "last (split_slash (join_slash (rev (x # ?st)))) = x" by simp
  moreover have "?p \<noteq> []" using assms(2) by (cases bs) (auto simp: join_slash_Cons)
  ultimately show ?thesis
    using assms st by (auto simp: filepath_Clean_def Let_def plain_def)
qed

end
