(* ===== verification/Manifest.thy ===== *)
theory Manifest
  imports Json Filepath
begin

text \<open>
  \<open>api/v1/manifest.go\<close>: the artifact manifest, its canonical identifier, \<open>Finalize\<close>,
  \<open>Validate\<close> and \<open>AllChunkHashes\<close>. \<open>manifest_ok\<close> is the declarative reading of
  \<open>Validate\<close>; the two are shown to agree. A slice that may be nil (\<open>Chunks\<close>) is an option: nil
  and an empty slice have different JSON texts. \<open>Files\<close> is copied by \<open>ComputeID\<close> onto a nil
  slice, so an empty one is always written \<open>null\<close> there.
\<close>

section \<open>Data\<close>

definition DefaultChunkSize :: int where
  "DefaultChunkSize = 4 * 1024 * 1024"

definition CurrentSchema :: int where
  "CurrentSchema = 1"

record chunk_ref =
  cr_Hash :: string
  cr_Offset :: int
  cr_Size :: int

record file_entry =
  fe_Path :: string
  fe_Size :: int
  fe_Mode :: string
  fe_Chunks :: "chunk_ref list option"

record manifest =
  m_SchemaVersion :: int
  m_ArtifactID :: string
  m_Name :: string
  m_Version :: string
  m_ChunkSize :: int
  m_TotalSize :: int
  m_Files :: "file_entry list"

text \<open>The elements a \<open>range\<close> over a possibly nil slice visits.\<close>

definition slice :: "'a list option \<Rightarrow> 'a list" where
  "slice s = (case s of None \<Rightarrow> [] | Some xs \<Rightarrow> xs)"

lemma slice_simps [simp]: "slice None = []" "slice (Some xs) = xs"
  by (simp_all add: slice_def)

section \<open>Paths\<close>

definition NormalizePath :: "string \<Rightarrow> string" where
  "NormalizePath p =
     (let clean = filepath_Clean p; clean = trim_prefix clean ''/''
      in trim_prefix clean ''./'')"

definition validManifestPath :: "string \<Rightarrow> bool" where
  "validManifestPath p =
     (if p = [] \<or> has_prefix p ''/'' then False
      else let cleaned = trim_prefix (filepath_Clean p) ''./''
        in if cleaned = [] \<or> cleaned = ''.'' then False
           else if filepath_IsAbs p \<or> filepath_IsAbs cleaned then False
           else if cleaned = ''..'' \<or> has_prefix cleaned ''../'' then False
           else True)"

section \<open>The canonical identifier\<close>

definition json_of_chunk_ref :: "chunk_ref \<Rightarrow> json" where
  "json_of_chunk_ref c =
     JObj [(''hash'', JStr (cr_Hash c)), (''offset'', JNum (show_int (cr_Offset c))),
           (''size'', JNum (show_int (cr_Size c)))]"

definition json_of_file_entry :: "file_entry \<Rightarrow> json" where
  "json_of_file_entry f =
     JObj [(''path'', JStr (fe_Path f)), (''size'', JNum (show_int (fe_Size f))),
           (''mode'', JStr (fe_Mode f)),
           (''chunks'', case fe_Chunks f of None \<Rightarrow> JNull
                       | Some cs \<Rightarrow> JArr (map json_of_chunk_ref cs))]"

definition json_of_manifest :: "manifest \<Rightarrow> json" where
  "json_of_manifest m =
     JObj [(''schemaVersion'', JNum (show_int (m_SchemaVersion m))),
           (''artifactId'', JStr (m_ArtifactID m)), (''name'', JStr (m_Name m)),
           (''version'', JStr (m_Version m)), (''chunkSize'', JNum (show_int (m_ChunkSize m))),
           (''totalSize'', JNum (show_int (m_TotalSize m))),
           (''files'', if m_Files m = [] then JNull
                      else JArr (map json_of_file_entry (m_Files m)))]"

definition path_less :: "file_entry \<Rightarrow> file_entry \<Rightarrow> bool" where
  "path_less a b = str_less (fe_Path a) (fe_Path b)"

definition canonical :: "manifest \<Rightarrow> manifest" where
  "canonical m = m\<lparr>m_ArtifactID := [], m_Files := insertion_sort path_less (m_Files m)\<rparr>"

definition ComputeID :: "manifest \<Rightarrow> string" where
  "ComputeID m =
     ''sha256:'' @ hex_digest (bytes_of_string (json_compact (json_of_manifest (canonical m))))"

section \<open>Finalize\<close>

fun sum_sizes :: "int \<Rightarrow> file_entry list \<Rightarrow> int" where
  "sum_sizes tot [] = tot"
| "sum_sizes tot (f # fs) = sum_sizes (wrap64 (tot + fe_Size f)) fs"

definition Finalize :: "manifest \<Rightarrow> manifest" where
  "Finalize m =
     (let m = (if m_SchemaVersion m = 0 then m\<lparr>m_SchemaVersion := CurrentSchema\<rparr> else m);
          m = (if m_ChunkSize m = 0 then m\<lparr>m_ChunkSize := DefaultChunkSize\<rparr> else m);
          fs = map (\<lambda>f. f\<lparr>fe_Path := NormalizePath (fe_Path f)\<rparr>) (m_Files m);
          m = m\<lparr>m_TotalSize := sum_sizes 0 fs, m_Files := insertion_sort path_less fs\<rparr>
      in m\<lparr>m_ArtifactID := ComputeID m\<rparr>)"

section \<open>Validate\<close>

datatype manifest_error =
    UnsupportedSchema int
  | NameRequired
  | VersionRequired
  | BadChunkSize
  | NoFiles
  | InvalidPath nat string
  | DuplicatePath string
  | InvalidChunkHash string nat string
  | InvalidChunkSize string nat int
  | OffsetMismatch string nat int int
  | FileSizeMismatch string int int
  | TotalSizeMismatch int int
  | ArtifactIDMismatch string string

text \<open>The loop over the chunks of one file; it returns \<open>fileChunkSize\<close>.\<close>

fun check_chunks :: "string \<Rightarrow> nat \<Rightarrow> int \<Rightarrow> chunk_ref list \<Rightarrow> manifest_error + int" where
  "check_chunks path ci acc [] = Inr acc"
| "check_chunks path ci acc (c # cs) =
     (if \<not> has_prefix (cr_Hash c) ''sha256:'' \<or> length (cr_Hash c) \<noteq> 71
      then Inl (InvalidChunkHash path ci (cr_Hash c))
      else if cr_Size c < 0 then Inl (InvalidChunkSize path ci (cr_Size c))
      else if cr_Offset c \<noteq> acc then Inl (OffsetMismatch path ci acc (cr_Offset c))
      else check_chunks path (Suc ci) (wrap64 (acc + cr_Size c)) cs)"

text \<open>The loop over the files, with \<open>seenPaths\<close> and \<open>calculatedTotal\<close>.\<close>

fun check_files :: "nat \<Rightarrow> string set \<Rightarrow> int \<Rightarrow> file_entry list \<Rightarrow> manifest_error + int" where
  "check_files i seen tot [] = Inr tot"
| "check_files i seen tot (f # fs) =
     (if \<not> validManifestPath (fe_Path f) then Inl (InvalidPath i (fe_Path f))
      else if fe_Path f \<in> seen then Inl (DuplicatePath (fe_Path f))
      else case check_chunks (fe_Path f) 0 0 (slice (fe_Chunks f)) of
          Inl e \<Rightarrow> Inl e
        | Inr n \<Rightarrow>
            if n \<noteq> fe_Size f then Inl (FileSizeMismatch (fe_Path f) (fe_Size f) n)
            else check_files (Suc i) (insert (fe_Path f) seen) (wrap64 (tot + fe_Size f)) fs)"

definition Validate :: "manifest \<Rightarrow> manifest_error option" where
  "Validate m =
     (if m_SchemaVersion m \<noteq> CurrentSchema then Some (UnsupportedSchema (m_SchemaVersion m))
      else if trim_space (m_Name m) = [] then Some NameRequired
      else if trim_space (m_Version m) = [] then Some VersionRequired
      else if m_ChunkSize m \<le> 0 then Some BadChunkSize
      else if length (m_Files m) = 0 then Some NoFiles
      else case check_files 0 {} 0 (m_Files m) of
          Inl e \<Rightarrow> Some e
        | Inr tot \<Rightarrow>
            if tot \<noteq> m_TotalSize m then Some (TotalSizeMismatch (m_TotalSize m) tot)
            else if m_ArtifactID m \<noteq> ComputeID m
            then Some (ArtifactIDMismatch (ComputeID m) (m_ArtifactID m))
            else None)"

section \<open>AllChunkHashes\<close>

fun hashes_of_chunks :: "string set \<Rightarrow> string list \<Rightarrow> chunk_ref list \<Rightarrow> string set \<times> string list" where
  "hashes_of_chunks seen hashes [] = (seen, hashes)"
| "hashes_of_chunks seen hashes (c # cs) =
     (if cr_Hash c \<notin> seen
      then hashes_of_chunks (insert (cr_Hash c) seen) (hashes @ [cr_Hash c]) cs
      else hashes_of_chunks seen hashes cs)"

fun hashes_of_files :: "string set \<Rightarrow> string list \<Rightarrow> file_entry list \<Rightarrow> string list" where
  "hashes_of_files seen hashes [] = hashes"
| "hashes_of_files seen hashes (f # fs) =
     (let (seen', hashes') = hashes_of_chunks seen hashes (slice (fe_Chunks f))
      in hashes_of_files seen' hashes' fs)"

definition AllChunkHashes :: "manifest \<Rightarrow> string list" where
  "AllChunkHashes m = hashes_of_files {} [] (m_Files m)"

text \<open>Every chunk reference of a manifest, in file order.\<close>

definition all_refs :: "manifest \<Rightarrow> chunk_ref list" where
  "all_refs m = concat (map (\<lambda>f. slice (fe_Chunks f)) (m_Files m))"

section \<open>The declarative reading of Validate\<close>

definition chunk_hash_ok :: "string \<Rightarrow> bool" where
  "chunk_hash_ok h = (has_prefix h ''sha256:'' \<and> length h = 71)"

definition chunks_ok :: "int \<Rightarrow> chunk_ref list \<Rightarrow> bool" where
  "chunks_ok start cs =
     (\<forall>i < length cs. chunk_hash_ok (cr_Hash (cs ! i)) \<and> 0 \<le> cr_Size (cs ! i) \<and>
        cr_Offset (cs ! i) = wrap64 (start + sum_list (map cr_Size (take i cs))))"

definition file_ok :: "file_entry \<Rightarrow> bool" where
  "file_ok f =
     (validManifestPath (fe_Path f) \<and> chunks_ok 0 (slice (fe_Chunks f)) \<and>
      fe_Size f = wrap64 (sum_list (map cr_Size (slice (fe_Chunks f)))))"

definition manifest_ok :: "manifest \<Rightarrow> bool" where
  "manifest_ok m =
     (m_SchemaVersion m = CurrentSchema \<and> trim_space (m_Name m) \<noteq> [] \<and>
      trim_space (m_Version m) \<noteq> [] \<and> 0 < m_ChunkSize m \<and> m_Files m \<noteq> [] \<and>
      list_all file_ok (m_Files m) \<and> distinct (map fe_Path (m_Files m)) \<and>
      m_TotalSize m = wrap64 (sum_list (map fe_Size (m_Files m))) \<and>
      m_ArtifactID m = ComputeID m)"

lemma wrap64_0 [simp]: "wrap64 0 = 0"
  by simp

lemma chunks_ok_Nil [simp]: "chunks_ok a []"
  by (simp add: chunks_ok_def)

lemma chunks_ok_Cons:
  "chunks_ok a (c # cs) =
     (chunk_hash_ok (cr_Hash c) \<and> 0 \<le> cr_Size c \<and> cr_Offset c = wrap64 a \<and>
      chunks_ok (a + cr_Size c) cs)"
  by (simp only: chunks_ok_def length_Cons All_less_Suc2) (simp add: add.assoc)

lemma check_chunks_iff:
  "check_chunks p ci (wrap64 a) cs = Inr n \<longleftrightarrow>
     chunks_ok a cs \<and> n = wrap64 (a + sum_list (map cr_Size cs))"
proof (induction cs arbitrary: ci a)
  case (Cons c cs)
  show ?case
    using Cons.IH [of "Suc ci" "a + cr_Size c"]
    by (auto simp: chunks_ok_Cons chunk_hash_ok_def wrap64_add_left add.assoc)
qed auto

lemmas check_chunks_from_0 = check_chunks_iff [of _ _ 0, simplified]

lemma check_files_iff:
  "check_files i seen (wrap64 t) fs = Inr n \<longleftrightarrow>
     list_all file_ok fs \<and> distinct (map fe_Path fs) \<and> fe_Path ` set fs \<inter> seen = {} \<and>
     n = wrap64 (t + sum_list (map fe_Size fs))"
proof (induction fs arbitrary: i seen t)
  case (Cons f fs)
  show ?case
  proof (cases "file_ok f")
    case True
    then have "check_chunks (fe_Path f) 0 0 (slice (fe_Chunks f)) = Inr (fe_Size f)"
      by (simp add: check_chunks_from_0 file_ok_def)
    with True Cons.IH [of "Suc i" "insert (fe_Path f) seen" "t + fe_Size f"] show ?thesis
      by (auto simp: file_ok_def wrap64_add_left add.assoc)
  next
    case False
    then have "validManifestPath (fe_Path f) \<Longrightarrow>
        check_chunks (fe_Path f) 0 0 (slice (fe_Chunks f)) \<noteq> Inr (fe_Size f)"
      by (simp add: check_chunks_from_0 file_ok_def)
    with False show ?thesis by (auto split: sum.splits)
  qed
qed auto

lemma Validate_iff: "Validate m = None \<longleftrightarrow> manifest_ok m"
  using check_files_iff [of 0 "{}" 0 "m_Files m"]
  by (auto simp: Validate_def manifest_ok_def split: sum.splits)

lemma manifest_ok_file: "manifest_ok m \<Longrightarrow> f \<in> set (m_Files m) \<Longrightarrow> file_ok f"
  by (auto simp: manifest_ok_def list_all_iff)

section \<open>Facts about the identifier and Finalize\<close>

interpretation pl: weak_order path_less
proof
  show "path_less a b \<Longrightarrow> \<not> path_less b a" for a b
    by (simp add: path_less_def str_less_asym)
  show "\<not> path_less a b \<Longrightarrow> \<not> path_less b c \<Longrightarrow> \<not> path_less a c" for a b c
    unfolding path_less_def by (metis str_less_linear str_less_trans)
qed

lemma path_less_total:
  "distinct (map fe_Path fs) \<Longrightarrow> a \<in> set fs \<Longrightarrow> b \<in> set fs \<Longrightarrow> a \<noteq> b \<Longrightarrow>
   path_less a b \<or> path_less b a"
  unfolding path_less_def by (metis distinct_map inj_on_def str_less_linear)

lemma ComputeID_cong:
  "canonical m = canonical m' \<Longrightarrow> ComputeID m = ComputeID m'"
  by (simp add: ComputeID_def)

lemma ComputeID_ArtifactID [simp]: "ComputeID (m\<lparr>m_ArtifactID := x\<rparr>) = ComputeID m"
  by (simp add: ComputeID_def canonical_def)

lemma sum_sizes_eq: "sum_sizes (wrap64 t) fs = wrap64 (t + sum_list (map fe_Size fs))"
  by (induction fs arbitrary: t) (simp_all add: wrap64_add_left add.assoc)

lemma sum_sizes_0: "sum_sizes 0 fs = wrap64 (sum_list (map fe_Size fs))"
  using sum_sizes_eq [of 0 fs] by simp

lemma sum_list_insertion_sort:
  "sum_list (map f (insertion_sort lt xs)) = sum_list (map (f :: _ \<Rightarrow> int) xs)"
  by (metis mset_insertion_sort mset_map sum_mset_sum_list)

lemma length_ComputeID: "chunk_hash_ok (ComputeID m)"
  by (simp add: ComputeID_def chunk_hash_ok_def)

section \<open>Facts about AllChunkHashes\<close>

lemma hashes_of_chunks_eq:
  "hashes_of_chunks seen hs cs =
     (seen \<union> cr_Hash ` set cs, hs @ firsts seen (map cr_Hash cs))"
  by (induction cs arbitrary: seen hs) (auto simp: insert_absorb)

lemma firsts_append: "firsts seen (xs @ ys) = firsts seen xs @ firsts (seen \<union> set xs) ys"
  by (induction xs arbitrary: seen) (auto simp: insert_absorb)

lemma hashes_of_files_eq:
  "hashes_of_files seen hs fs =
     hs @ firsts seen (map cr_Hash (concat (map (\<lambda>f. slice (fe_Chunks f)) fs)))"
  by (induction fs arbitrary: seen hs) (simp_all add: hashes_of_chunks_eq firsts_append)

lemma AllChunkHashes_eq: "AllChunkHashes m = firsts {} (map cr_Hash (all_refs m))"
  by (simp add: AllChunkHashes_def hashes_of_files_eq all_refs_def)

lemma set_AllChunkHashes [simp]: "set (AllChunkHashes m) = cr_Hash ` set (all_refs m)"
  by (simp add: AllChunkHashes_eq set_firsts)

lemma distinct_AllChunkHashes [simp]: "distinct (AllChunkHashes m)"
  by (simp add: AllChunkHashes_eq distinct_firsts)

lemma finalize_validates_aux:
  assumes "m_SchemaVersion m = 0 \<or> m_SchemaVersion m = CurrentSchema"
    and "trim_space (m_Name m) \<noteq> []" and "trim_space (m_Version m) \<noteq> []"
    and "0 \<le> m_ChunkSize m" and "m_Files m \<noteq> []"
    and "\<And>f. f \<in> set (m_Files m) \<Longrightarrow> file_ok (f\<lparr>fe_Path := NormalizePath (fe_Path f)\<rparr>)"
    and "distinct (map (\<lambda>f. NormalizePath (fe_Path f)) (m_Files m))"
  shows "Validate (Finalize m) = None"
proof -
  let ?fs = "map (\<lambda>f. f\<lparr>fe_Path := NormalizePath (fe_Path f)\<rparr>) (m_Files m)"
  let ?m = "Finalize m"
  have files: "m_Files ?m = insertion_sort path_less ?fs"
    by (simp add: Finalize_def Let_def)
  have "m_Files ?m \<noteq> []"
    using assms(5) files by (metis length_0_conv length_insertion_sort length_map)
  moreover have "list_all file_ok (m_Files ?m)"
    using assms(6) by (auto simp: files list_all_iff)
  moreover have "mset (map fe_Path (m_Files ?m)) = mset (map fe_Path ?fs)"
    unfolding files mset_map mset_insertion_sort by simp
  then have "distinct (map fe_Path (m_Files ?m)) = distinct (map fe_Path ?fs)"
    by (rule mset_eq_imp_distinct_iff)
  then have "distinct (map fe_Path (m_Files ?m))"
    using assms(7) by (simp add: comp_def)
  moreover have "m_TotalSize ?m = wrap64 (sum_list (map fe_Size (m_Files ?m)))"
    by (simp add: files sum_list_insertion_sort) (simp add: Finalize_def Let_def sum_sizes_0)
  ultimately have "manifest_ok ?m"
    using assms(1-4)
    by (auto simp: manifest_ok_def Finalize_def Let_def CurrentSchema_def DefaultChunkSize_def)
  then show ?thesis by (simp add: Validate_iff)
qed

section \<open>A sample manifest\<close>

definition sample_hash :: string where
  "sample_hash = ''sha256:'' @ replicate 64 (CHR ''0'')"

definition sample_file :: "string \<Rightarrow> int \<Rightarrow> file_entry" where
  "sample_file p n =
     \<lparr>fe_Path = p, fe_Size = n, fe_Mode = ''0644'',
      fe_Chunks = Some [\<lparr>cr_Hash = sample_hash, cr_Offset = 0, cr_Size = n\<rparr>]\<rparr>"

definition sample_manifest :: manifest where
  "sample_manifest =
     \<lparr>m_SchemaVersion = 0, m_ArtifactID = [], m_Name = ''model'', m_Version = ''1'',
      m_ChunkSize = 0, m_TotalSize = 0, m_Files = [sample_file ''b'' 5, sample_file ''a'' 3]\<rparr>"

lemma sample_hash_ok [simp]: "chunk_hash_ok sample_hash"
  by (simp add: sample_hash_def chunk_hash_ok_def)

lemma sample_file_ok:
  "0 \<le> n \<Longrightarrow> n < 2 ^ 63 \<Longrightarrow> validManifestPath p \<Longrightarrow> file_ok (sample_file p n)"
  by (simp add: sample_file_def file_ok_def chunks_ok_Cons)

lemma sample_names:
  "NormalizePath ''a'' = ''a''" "NormalizePath ''b'' = ''b''"
  "validManifestPath ''a''" "validManifestPath ''b''"
  "trim_space ''model'' \<noteq> []" "trim_space ''1'' \<noteq> []"
  by code_simp+

lemma sample_file_oks:
  "f \<in> set (m_Files sample_manifest) \<Longrightarrow> file_ok (f\<lparr>fe_Path := NormalizePath (fe_Path f)\<rparr>)"
  "NormalizePath (fe_Path (sample_file p n)) = NormalizePath p"
  using sample_file_ok [of 5 "''b''"] sample_file_ok [of 3 "''a''"]
  by (auto simp: sample_manifest_def sample_names sample_file_def)

lemma sample_valid: "Validate (Finalize sample_manifest) = None"
  by (rule finalize_validates_aux) (auto simp: sample_file_oks sample_manifest_def sample_names)

section \<open>Properties\<close>

text \<open>
  C1. \<open>Validate\<close> accepts a manifest exactly when it meets the declarative specification
  \<open>manifest_ok\<close>: schema 1, a name and a version that are not blank, a positive chunk size, at least one
  file, distinct valid paths, chunk hashes of the right form, chunk sizes that are not negative, chunk
  offsets equal to the (64-bit) running sum, file and total sizes equal to the sums, and the
  canonical identifier.
\<close>
theorem validate_characterisation: "(Validate m = None) = manifest_ok m"
  by (simp only: Validate_iff)

text \<open>
  C2. \<open>Finalize\<close> produces a manifest that \<open>Validate\<close> accepts, provided the fields it does not compute
  are right: an unset or current schema version, a name, a version, a chunk size that is not
  negative, files whose normalised paths are valid and distinct and whose chunks cover them.
\<close>
theorem finalize_validates:
  assumes "m_SchemaVersion m = 0 \<or> m_SchemaVersion m = CurrentSchema"
    and "trim_space (m_Name m) \<noteq> []" and "trim_space (m_Version m) \<noteq> []"
    and "0 \<le> m_ChunkSize m" and "m_Files m \<noteq> []"
    and "\<And>f. f \<in> set (m_Files m) \<Longrightarrow> file_ok (f\<lparr>fe_Path := NormalizePath (fe_Path f)\<rparr>)"
    and "distinct (map (\<lambda>f. NormalizePath (fe_Path f)) (m_Files m))"
  shows "Validate (Finalize m) = None"
  using assms by (rule finalize_validates_aux)

theorem finalize_validates_witness: "Validate (Finalize sample_manifest) = None"
  by (rule finalize_validates) (auto simp: sample_file_oks sample_manifest_def sample_names)

text \<open>
  C3. The canonical identifier does not depend on the order of the files nor on the identifier the
  manifest carries: two manifests that agree on everything else and list the same files, under
  distinct paths, have the same \<open>ComputeID\<close>.
\<close>
theorem compute_id_order_independent:
  assumes "mset (m_Files m) = mset (m_Files m')"
    and "distinct (map fe_Path (m_Files m))"
    and "m' = m\<lparr>m_ArtifactID := m_ArtifactID m', m_Files := m_Files m'\<rparr>"
  shows "ComputeID m = ComputeID m'"
proof (rule ComputeID_cong)
  have "insertion_sort path_less (m_Files m) = insertion_sort path_less (m_Files m')"
    using assms(1,2) by (intro pl.insertion_sort_unique) (auto dest: path_less_total)
  moreover have "canonical (m\<lparr>m_ArtifactID := x, m_Files := ys\<rparr>) =
      m\<lparr>m_ArtifactID := [], m_Files := insertion_sort path_less ys\<rparr>" for x ys
    by (simp add: canonical_def)
  ultimately show "canonical m = canonical m'"
    using assms(3) by (metis canonical_def)
qed

theorem compute_id_order_independent_witness:
  "ComputeID sample_manifest =
   ComputeID (sample_manifest\<lparr>m_ArtifactID := ''x'', m_Files := [sample_file ''a'' 3, sample_file ''b'' 5]\<rparr>)"
  by (rule compute_id_order_independent) (simp_all add: sample_manifest_def sample_file_def)

lemma prefix_sum_bound:
  assumes "\<And>c. c \<in> set cs \<Longrightarrow> 0 \<le> g c" and "sum_list (map g cs) < (2 ^ 63 :: int)"
  shows "wrap64 (sum_list (map g (take k cs))) = sum_list (map g (take k cs))"
proof (rule wrap64_id)
  have split: "sum_list (map g (take k cs)) + sum_list (map g (drop k cs)) = sum_list (map g cs)"
    by (metis append_take_drop_id map_append sum_list_append)
  have pos: "0 \<le> sum_list (map g (take k cs))" "0 \<le> sum_list (map g (drop k cs))"
    using assms(1) by (auto intro!: sum_list_nonneg dest!: in_set_takeD in_set_dropD)
  show "- (2 ^ 63) \<le> sum_list (map g (take k cs))"
    by (rule order_trans [OF _ pos(1)]) simp
  show "sum_list (map g (take k cs)) < 2 ^ 63"
    using split pos(2) assms(2) by linarith
qed

text \<open>
  C4. In an accepted manifest the chunks of a file tile it: as long as the sizes add up to less than
  \<open>2 ^ 63\<close>, each chunk begins where the ones before it end, and ends where the next one begins,
  the last one at the size of the file.
\<close>
theorem validated_chunks_tile_file:
  assumes "Validate m = None" and "f \<in> set (m_Files m)" and "cs = slice (fe_Chunks f)"
    and "sum_list (map cr_Size cs) < 2 ^ 63" and "i < length cs"
  shows "cr_Offset (cs ! i) = sum_list (map cr_Size (take i cs)) \<and>
    cr_Offset (cs ! i) + cr_Size (cs ! i) =
      (if Suc i < length cs then cr_Offset (cs ! Suc i) else fe_Size f)"
proof -
  let ?sum = "\<lambda>k. sum_list (map cr_Size (take k cs))"
  have ok: "file_ok f"
    using assms(1,2) by (simp add: Validate_iff manifest_ok_file)
  then have "0 \<le> cr_Size c" if "c \<in> set cs" for c
    using that assms(3) by (auto simp: file_ok_def chunks_ok_def in_set_conv_nth)
  then have exact: "wrap64 (?sum k) = ?sum k" for k
    using assms(4) by (rule prefix_sum_bound)
  have off: "cr_Offset (cs ! k) = ?sum k" if "k < length cs" for k
    using ok that exact [of k] assms(3) by (simp add: file_ok_def chunks_ok_def)
  have size: "fe_Size f = ?sum (length cs)"
    using ok exact [of "length cs"] assms(3) by (simp add: file_ok_def)
  have "?sum (Suc i) = ?sum i + cr_Size (cs ! i)"
    using assms(5) by (simp add: take_Suc_conv_app_nth)
  moreover have "\<not> Suc i < length cs \<Longrightarrow> Suc i = length cs"
    using assms(5) by simp
  ultimately show ?thesis
    using assms(5) off size by (cases "Suc i < length cs") auto
qed

theorem validated_chunks_tile_file_witness:
  "cr_Offset (slice (fe_Chunks (sample_file ''a'' 3)) ! 0) = 0 \<and>
   cr_Size (slice (fe_Chunks (sample_file ''a'' 3)) ! 0) = fe_Size (sample_file ''a'' 3)"
proof -
  have "sample_file ''a'' 3 \<in> set (m_Files (Finalize sample_manifest))"
    by (simp add: Finalize_def Let_def sample_manifest_def sample_file_def sample_names)
  from validated_chunks_tile_file [OF sample_valid this refl, of 0]
  show ?thesis by (simp add: sample_file_def)
qed

text \<open>
  C5. \<open>Validate\<close> adds chunk sizes with 64-bit wrap-around and compares offsets with the wrapped
  sum: it accepts a manifest in which a chunk has a negative offset and the chunks of one
  file are larger than the file.
\<close>
theorem validate_accepts_wrapped_sizes:
  "\<exists>m f c. Validate m = None \<and> f \<in> set (m_Files m) \<and> c \<in> set (slice (fe_Chunks f)) \<and>
     cr_Offset c < 0 \<and> fe_Size f < cr_Size c"
proof -
  let ?c = "\<lparr>cr_Hash = sample_hash, cr_Offset = - 2, cr_Size = 3\<rparr>"
  let ?cs = "[\<lparr>cr_Hash = sample_hash, cr_Offset = 0, cr_Size = 2 ^ 63 - 1\<rparr>,
    \<lparr>cr_Hash = sample_hash, cr_Offset = 2 ^ 63 - 1, cr_Size = 2 ^ 63 - 1\<rparr>, ?c]"
  let ?f = "\<lparr>fe_Path = ''a'', fe_Size = 1, fe_Mode = ''0644'', fe_Chunks = Some ?cs\<rparr>"
  let ?m = "Finalize (sample_manifest\<lparr>m_Files := [?f]\<rparr>)"
  have "Validate ?m = None"
    by (rule finalize_validates_aux)
      (simp_all add: sample_manifest_def sample_names file_ok_def chunks_ok_Cons wrap64_def)
  moreover have "?f \<in> set (m_Files ?m)"
    by (simp add: Finalize_def Let_def sample_manifest_def sample_names)
  moreover have "?c \<in> set (slice (fe_Chunks ?f))" "cr_Offset ?c < 0" "fe_Size ?f < cr_Size ?c"
    by simp_all
  ultimately show ?thesis by blast
qed

end
