(* ===== verification/Osfs.thy ===== *)
theory Osfs
  imports Filepath
begin

text \<open>
  The file system as the package \<open>os\<close> shows it to Spider: names of regular files that point to
  inodes (two names may share one, after \<open>os.Link\<close>), directories, and the contents and permission
  bits of the inodes. Every operation can also fail for a reason outside the program (a device or
  permission error, a full disk): \<open>fs_fault\<close> says which operations fail on which file and
  \<open>fs_limit\<close> how many bytes a file can hold. Both are arbitrary, so a theorem about every file
  system covers every choice of failures. A path is resolved before it is looked up, so two
  spellings of one file are one file.
\<close>

section \<open>State\<close>

datatype os_op = OpStat | OpOpen | OpRead | OpMkdir | OpCreate | OpSync | OpRename | OpRemove
  | OpLink | OpChmod

type_synonym path = "string list"

record fsys =
  fs_files :: "(path \<times> nat) list"
  fs_dirs :: "path list"
  fs_data :: "nat \<Rightarrow> bytes"
  fs_mode :: "nat \<Rightarrow> nat"
  fs_next :: nat
  fs_cwd :: path
  fs_fault :: "os_op \<Rightarrow> path \<Rightarrow> bool"
  fs_limit :: "path \<Rightarrow> nat option"

abbreviation key :: "fsys \<Rightarrow> string \<Rightarrow> path" where
  "key fs p \<equiv> resolve (fs_cwd fs) p"

abbreviation inode :: "fsys \<Rightarrow> path \<Rightarrow> nat option" where
  "inode fs k \<equiv> map_of (fs_files fs) k"

definition contents :: "fsys \<Rightarrow> path \<Rightarrow> bytes option" where
  "contents fs k = map_option (fs_data fs) (inode fs k)"

definition is_dir :: "fsys \<Rightarrow> path \<Rightarrow> bool" where
  "is_dir fs k = (k = [] \<or> k \<in> set (fs_dirs fs))"

definition prefixes_of :: "path \<Rightarrow> path list" where
  "prefixes_of k = map (\<lambda>n. take n k) [0..<Suc (length k)]"

text \<open>The error for a name that is not there: a file may stand where a directory is needed.\<close>

definition missing :: "fsys \<Rightarrow> path \<Rightarrow> go_error" where
  "missing fs k =
     (if list_ex (\<lambda>q. inode fs q \<noteq> None) (prefixes_of (butlast k)) then ErrNotDir else ErrNotExist)"

section \<open>Looking\<close>

record file_info =
  fi_IsDir :: bool
  fi_Size :: int
  fi_Perm :: nat

definition os_Stat :: "fsys \<Rightarrow> string \<Rightarrow> file_info result" where
  "os_Stat fs p =
     (let k = key fs p
      in if fs_fault fs OpStat k then Inl ErrDevice
         else case inode fs k of
             Some i \<Rightarrow> Inr \<lparr>fi_IsDir = False, fi_Size = int (length (fs_data fs i)), fi_Perm = fs_mode fs i\<rparr>
           | None \<Rightarrow>
               if is_dir fs k then Inr \<lparr>fi_IsDir = True, fi_Size = 4096, fi_Perm = 493\<rparr>
               else Inl (missing fs k))"

text \<open>An open file: its resolved path, and its inode unless it is a directory.\<close>

type_synonym handle = "path \<times> nat option"

definition os_Open :: "fsys \<Rightarrow> string \<Rightarrow> handle result" where
  "os_Open fs p =
     (let k = key fs p
      in if fs_fault fs OpOpen k then Inl ErrDevice
         else case inode fs k of
             Some i \<Rightarrow> Inr (k, Some i)
           | None \<Rightarrow> if is_dir fs k then Inr (k, None) else Inl (missing fs k))"

definition handle_Stat :: "fsys \<Rightarrow> handle \<Rightarrow> file_info result" where
  "handle_Stat fs h =
     (if fs_fault fs OpStat (fst h) then Inl ErrDevice
      else case snd h of
          Some i \<Rightarrow> Inr \<lparr>fi_IsDir = False, fi_Size = int (length (fs_data fs i)), fi_Perm = fs_mode fs i\<rparr>
        | None \<Rightarrow> Inr \<lparr>fi_IsDir = True, fi_Size = 4096, fi_Perm = 493\<rparr>)"

definition read_all :: "fsys \<Rightarrow> handle \<Rightarrow> bytes result" where
  "read_all fs h =
     (if fs_fault fs OpRead (fst h) then Inl ErrDevice
      else case snd h of Some i \<Rightarrow> Inr (fs_data fs i) | None \<Rightarrow> Inl ErrIsDir)"

definition os_ReadFile :: "fsys \<Rightarrow> string \<Rightarrow> bytes result" where
  "os_ReadFile fs p = (case os_Open fs p of Inl e \<Rightarrow> Inl e | Inr h \<Rightarrow> read_all fs h)"

section \<open>Changing\<close>

definition os_MkdirAll :: "fsys \<Rightarrow> string \<Rightarrow> fsys \<times> unit result" where
  "os_MkdirAll fs p =
     (let k = key fs p
      in if fs_fault fs OpMkdir k then (fs, Inl ErrDevice)
         else if list_ex (\<lambda>q. inode fs q \<noteq> None) (prefixes_of k) then (fs, Inl ErrNotDir)
         else (fs\<lparr>fs_dirs := prefixes_of k @ fs_dirs fs\<rparr>, Inr ()))"

text \<open>\<open>os.OpenFile\<close> with \<open>O_CREATE\<close>: the file that is there, or a new one in an existing directory.\<close>

definition os_create :: "fsys \<Rightarrow> string \<Rightarrow> fsys \<times> handle result" where
  "os_create fs p =
     (let k = key fs p
      in if fs_fault fs OpCreate k then (fs, Inl ErrDevice)
         else if is_dir fs k then (fs, Inl ErrIsDir)
         else case inode fs k of
             Some i \<Rightarrow> (fs, Inr (k, Some i))
           | None \<Rightarrow>
               if is_dir fs (butlast k)
               then (fs\<lparr>fs_files := AList.update k (fs_next fs) (fs_files fs),
                        fs_data := (fs_data fs)(fs_next fs := []),
                        fs_mode := (fs_mode fs)(fs_next fs := 420),
                        fs_next := Suc (fs_next fs)\<rparr>, Inr (k, Some (fs_next fs)))
               else (fs, Inl (missing fs k)))"

definition set_data :: "fsys \<Rightarrow> nat \<Rightarrow> bytes \<Rightarrow> fsys" where
  "set_data fs i d = fs\<lparr>fs_data := (fs_data fs)(i := d)\<rparr>"

text \<open>\<open>O_TRUNC\<close> empties the inode, under all of its names.\<close>

definition os_create_trunc :: "fsys \<Rightarrow> string \<Rightarrow> fsys \<times> handle result" where
  "os_create_trunc fs p =
     (case os_create fs p of
        (fs', Inl e) \<Rightarrow> (fs', Inl e)
      | (fs', Inr h) \<Rightarrow>
          ((case snd h of Some i \<Rightarrow> set_data fs' i [] | None \<Rightarrow> fs'), Inr h))"

text \<open>Writing at the end of a file: all of it, or what fits and an error.\<close>

definition write_end :: "fsys \<Rightarrow> handle \<Rightarrow> bytes \<Rightarrow> fsys \<times> unit result" where
  "write_end fs h d =
     (case snd h of
        None \<Rightarrow> (fs, Inl ErrIsDir)
      | Some i \<Rightarrow>
          (case fs_limit fs (fst h) of
             None \<Rightarrow> (set_data fs i (fs_data fs i @ d), Inr ())
           | Some n \<Rightarrow>
               let room = n - length (fs_data fs i)
               in if length d \<le> room then (set_data fs i (fs_data fs i @ d), Inr ())
                  else (set_data fs i (fs_data fs i @ take room d), Inl ErrDevice)))"

text \<open>\<open>os.WriteFile\<close>: truncate or create, then write.\<close>

definition os_WriteFile :: "fsys \<Rightarrow> string \<Rightarrow> bytes \<Rightarrow> fsys \<times> unit result" where
  "os_WriteFile fs p d =
     (case os_create_trunc fs p of
        (fs', Inl e) \<Rightarrow> (fs', Inl e)
      | (fs', Inr h) \<Rightarrow> write_end fs' h d)"

definition handle_Sync :: "fsys \<Rightarrow> handle \<Rightarrow> unit result" where
  "handle_Sync fs h = (if fs_fault fs OpSync (fst h) then Inl ErrDevice else Inr ())"

definition below :: "path \<Rightarrow> path \<Rightarrow> bool" where
  "below k q = (length k < length q \<and> take (length k) q = k)"

definition os_Remove :: "fsys \<Rightarrow> string \<Rightarrow> fsys \<times> unit result" where
  "os_Remove fs p =
     (let k = key fs p
      in if fs_fault fs OpRemove k then (fs, Inl ErrDevice)
         else case inode fs k of
             Some i \<Rightarrow> (fs\<lparr>fs_files := AList.delete k (fs_files fs)\<rparr>, Inr ())
           | None \<Rightarrow>
               if \<not> is_dir fs k then (fs, Inl (missing fs k))
               else if k = [] \<or> list_ex (below k) (map fst (fs_files fs)) \<or> list_ex (below k) (fs_dirs fs)
               then (fs, Inl (Err ''directory not empty''))
               else (fs\<lparr>fs_dirs := removeAll k (fs_dirs fs)\<rparr>, Inr ()))"

text \<open>\<open>os.Rename\<close> of a regular file (the source renames nothing else).\<close>

definition os_Rename :: "fsys \<Rightarrow> string \<Rightarrow> string \<Rightarrow> fsys \<times> unit result" where
  "os_Rename fs p q =
     (let k = key fs p; l = key fs q
      in if fs_fault fs OpRename l then (fs, Inl ErrDevice)
         else case inode fs k of
             None \<Rightarrow> (fs, Inl (if is_dir fs k then ErrIsDir else missing fs k))
           | Some i \<Rightarrow>
               if is_dir fs l then (fs, Inl ErrExist)
               else if \<not> is_dir fs (butlast l) then (fs, Inl (missing fs l))
               else (fs\<lparr>fs_files := AList.update l i (AList.delete k (fs_files fs))\<rparr>, Inr ()))"

definition os_Link :: "fsys \<Rightarrow> string \<Rightarrow> string \<Rightarrow> fsys \<times> unit result" where
  "os_Link fs p q =
     (let k = key fs p; l = key fs q
      in if fs_fault fs OpLink l then (fs, Inl ErrDevice)
         else case inode fs k of
             None \<Rightarrow> (fs, Inl (if is_dir fs k then ErrIsDir else missing fs k))
           | Some i \<Rightarrow>
               if inode fs l \<noteq> None \<or> is_dir fs l then (fs, Inl ErrExist)
               else if \<not> is_dir fs (butlast l) then (fs, Inl (missing fs l))
               else (fs\<lparr>fs_files := AList.update l i (fs_files fs)\<rparr>, Inr ()))"

definition os_Chmod :: "fsys \<Rightarrow> string \<Rightarrow> nat \<Rightarrow> fsys \<times> unit result" where
  "os_Chmod fs p mode =
     (let k = key fs p
      in if fs_fault fs OpChmod k then (fs, Inl ErrDevice)
         else case inode fs k of
             Some i \<Rightarrow> (fs\<lparr>fs_mode := (fs_mode fs)(i := mode mod 512)\<rparr>, Inr ())
           | None \<Rightarrow> (fs, if is_dir fs k then Inr () else Inl (missing fs k)))"

section \<open>Streams\<close>

text \<open>
  A reader is the pieces that its successive \<open>Read\<close> calls return, and the error that ends them
  (\<open>None\<close> for \<open>io.EOF\<close>). \<open>io_Copy\<close> writes piece after piece; when a write fails it stops, and
  the pieces it has not read are its last result.
\<close>

type_synonym reader = "bytes list \<times> go_error option"

fun io_Copy :: "fsys \<Rightarrow> handle \<Rightarrow> reader \<Rightarrow> fsys \<times> unit result \<times> bytes list" where
  "io_Copy fs h ([], None) = (fs, Inr (), [])"
| "io_Copy fs h ([], Some e) = (fs, Inl e, [])"
| "io_Copy fs h (d # ds, e) =
     (case write_end fs h d of
        (fs', Inl w) \<Rightarrow> (fs', Inl w, ds)
      | (fs', Inr u) \<Rightarrow> io_Copy fs' h (ds, e))"

text \<open>An open file as a reader: one piece, since no reader of the source depends on the boundaries.\<close>

definition file_reader :: "fsys \<Rightarrow> handle \<Rightarrow> reader" where
  "file_reader fs h = (case read_all fs h of Inl e \<Rightarrow> ([], Some e) | Inr d \<Rightarrow> ([d], None))"

definition bytes_reader :: "bytes \<Rightarrow> reader" where
  "bytes_reader d = (if d = [] then [] else [d], None)"

section \<open>What the operations change\<close>

text \<open>
  \<open>fs_ok\<close> is the invariant of the file system: every name points to an inode in use. The frame
  lemmas say which names and which inodes an operation touches; \<open>same_env\<close> collects what none changes.
\<close>

definition fs_ok :: "fsys \<Rightarrow> bool" where
  "fs_ok fs =
     (plain_path (fs_cwd fs) \<and> wf_alist (fs_files fs) \<and>
      (\<forall>k i. inode fs k = Some i \<longrightarrow> i < fs_next fs))"

definition same_env :: "fsys \<Rightarrow> fsys \<Rightarrow> bool" where
  "same_env fs fs' =
     (fs_cwd fs' = fs_cwd fs \<and> fs_fault fs' = fs_fault fs \<and> fs_limit fs' = fs_limit fs)"

definition same_files :: "fsys \<Rightarrow> fsys \<Rightarrow> bool" where
  "same_files fs fs' =
     (same_env fs fs' \<and> fs_files fs' = fs_files fs \<and> fs_data fs' = fs_data fs \<and>
      fs_mode fs' = fs_mode fs \<and> fs_next fs' = fs_next fs)"

lemma same_env_refl [simp]: "same_env fs fs"
  by (simp add: same_env_def)

lemma same_files_refl [simp]: "same_files fs fs"
  by (simp add: same_files_def)

lemma same_env_trans: "same_env a b \<Longrightarrow> same_env b c \<Longrightarrow> same_env a c"
  by (simp add: same_env_def)

lemma same_filesD:
  assumes "same_files fs fs'"
  shows "same_env fs fs'" "fs_cwd fs' = fs_cwd fs" "fs_files fs' = fs_files fs"
    "fs_data fs' = fs_data fs" "fs_next fs' = fs_next fs" "fs_ok fs' = fs_ok fs"
    "contents fs' k = contents fs k"
  using assms by (auto simp: same_files_def same_env_def fs_ok_def contents_def)

lemma fs_ok_cwd [simp]: "fs_ok fs \<Longrightarrow> plain_path (fs_cwd fs)"
  by (simp add: fs_ok_def)

lemma fs_ok_inode: "fs_ok fs \<Longrightarrow> inode fs k = Some i \<Longrightarrow> i < fs_next fs"
  by (simp add: fs_ok_def)

lemma os_MkdirAll_frame: "same_files fs (fst (os_MkdirAll fs p))"
  by (simp add: os_MkdirAll_def same_files_def same_env_def Let_def)

lemma os_MkdirAll_dirs:
  "os_MkdirAll fs p = (fs', Inr u) \<Longrightarrow> is_dir fs' q = (is_dir fs q \<or> q \<in> set (prefixes_of (key fs p)))"
  by (auto simp: os_MkdirAll_def is_dir_def Let_def split: if_splits)

lemma prefixes_of_self [simp]: "k \<in> set (prefixes_of k)"
  by (force simp: prefixes_of_def image_iff)

lemma os_create_disj:
  "os_create fs p = (fs', res) \<Longrightarrow>
     (\<exists>e. res = Inl e \<and> fs' = fs) \<or>
     (\<exists>i. res = Inr (key fs p, Some i) \<and> fs' = fs \<and> inode fs (key fs p) = Some i) \<or>
     (res = Inr (key fs p, Some (fs_next fs)) \<and> inode fs (key fs p) = None \<and> fs' = fs\<lparr>fs_files := AList.update (key fs p) (fs_next fs) (fs_files fs),
       fs_data := (fs_data fs)(fs_next fs := []),
       fs_mode := (fs_mode fs)(fs_next fs := 420), fs_next := Suc (fs_next fs)\<rparr>)"
  by (auto simp: os_create_def Let_def split: if_splits option.splits)

lemma os_create_cases:
  assumes "os_create fs p = (fs', res)"
  obtains e where "res = Inl e" "fs' = fs"
  | i where "res = Inr (key fs p, Some i)" "fs' = fs" "inode fs (key fs p) = Some i"
  | "res = Inr (key fs p, Some (fs_next fs))" "inode fs (key fs p) = None"
    "fs' = fs\<lparr>fs_files := AList.update (key fs p) (fs_next fs) (fs_files fs),
              fs_data := (fs_data fs)(fs_next fs := []),
              fs_mode := (fs_mode fs)(fs_next fs := 420), fs_next := Suc (fs_next fs)\<rparr>"
  using os_create_disj [OF assms] by (elim disjE exE conjE) (rule that; assumption)+

lemma write_end_cases:
  assumes "write_end fs (k, Some i) d = (fs', res)"
  obtains n where "fs' = set_data fs i (fs_data fs i @ take n d)" "res = Inr () \<longrightarrow> length d \<le> n"
proof (cases "fs_limit fs k")
  case None
  with assms that [of "length d"] show ?thesis by (auto simp: write_end_def)
next
  case (Some m)
  with assms that [of "m - length (fs_data fs i)"] show ?thesis
    by (cases "length d \<le> m - length (fs_data fs i)") (auto simp: write_end_def Let_def)
qed

lemma set_data_set_data [simp]: "set_data (set_data fs i a) i b = set_data fs i b"
  by (simp add: set_data_def)

lemma set_data_simps [simp]:
  "fs_files (set_data fs i d) = fs_files fs" "fs_data (set_data fs i d) = (fs_data fs)(i := d)"
  "fs_next (set_data fs i d) = fs_next fs" "fs_cwd (set_data fs i d) = fs_cwd fs"
  "fs_ok (set_data fs i d) = fs_ok fs" "same_env fs (set_data fs i d)"
  "fs_dirs (set_data fs i d) = fs_dirs fs" "fs_fault (set_data fs i d) = fs_fault fs"
  "fs_limit (set_data fs i d) = fs_limit fs"
  by (simp_all add: set_data_def fs_ok_def same_env_def)

lemma set_data_same [simp]: "set_data fs i (fs_data fs i) = fs"
  by (simp add: set_data_def)

lemma io_Copy_frame:
  assumes "io_Copy fs (k, Some i) (ps, e) = (fs', res, rest)"
  shows "\<exists>d. fs' = set_data fs i (fs_data fs i @ d) \<and>
    (res = Inr () \<longrightarrow> d = concat ps \<and> rest = [] \<and> e = None)"
  using assms
proof (induction ps arbitrary: fs)
  case Nil
  then show ?case
    by (cases e) (auto intro: exI [of _ "[]"])
next
  case (Cons d ds)
  obtain fs1 w where w: "write_end fs (k, Some i) d = (fs1, w)" by force
  then obtain n where fs1: "fs1 = set_data fs i (fs_data fs i @ take n d)"
    and n: "w = Inr () \<longrightarrow> length d \<le> n"
    by (rule write_end_cases)
  show ?case
  proof (cases w)
    case (Inl x)
    with Cons.prems w fs1 show ?thesis by auto
  next
    case (Inr u)
    with Cons.prems w have "io_Copy fs1 (k, Some i) (ds, e) = (fs', res, rest)" by simp
    from Cons.IH [OF this] Inr n fs1 show ?thesis by auto
  qed
qed

lemma io_Copy_unlimited:
  assumes "fs_limit fs k = None"
  shows "io_Copy fs (k, Some i) (ps, e) =
    (set_data fs i (fs_data fs i @ concat ps), case e of None \<Rightarrow> Inr () | Some x \<Rightarrow> Inl x, [])"
  using assms by (induction ps arbitrary: fs) (cases e, auto simp: write_end_def)

lemma os_Remove_disj:
  "os_Remove fs p = (fs', res) \<Longrightarrow>
     (\<exists>e. res = Inl e \<and> fs' = fs \<and> (\<not> fs_fault fs OpRemove (key fs p) \<longrightarrow> inode fs (key fs p) = None)) \<or>
     (\<exists>i. res = Inr () \<and> inode fs (key fs p) = Some i \<and> fs' = fs\<lparr>fs_files := AList.delete (key fs p) (fs_files fs)\<rparr>) \<or>
     (res = Inr () \<and> inode fs (key fs p) = None \<and> same_files fs fs')"
  by (auto simp: os_Remove_def Let_def same_files_def same_env_def split: if_splits option.splits)

lemma os_Remove_cases:
  assumes "os_Remove fs p = (fs', res)"
  obtains e where "res = Inl e" "fs' = fs" "\<not> fs_fault fs OpRemove (key fs p) \<longrightarrow> inode fs (key fs p) = None"
  | i where "res = Inr ()" "inode fs (key fs p) = Some i"
    "fs' = fs\<lparr>fs_files := AList.delete (key fs p) (fs_files fs)\<rparr>"
  | "res = Inr ()" "inode fs (key fs p) = None" "same_files fs fs'"
  using os_Remove_disj [OF assms] by (elim disjE exE conjE) (rule that; assumption)+

lemma os_Rename_disj:
  "os_Rename fs p q = (fs', res) \<Longrightarrow>
     (\<exists>e. res = Inl e \<and> fs' = fs) \<or>
     (\<exists>i. res = Inr () \<and> inode fs (key fs p) = Some i \<and> fs' = fs\<lparr>fs_files := AList.update (key fs q) i (AList.delete (key fs p) (fs_files fs))\<rparr>)"
  by (auto simp: os_Rename_def Let_def split: if_splits option.splits)

lemma os_Rename_cases:
  assumes "os_Rename fs p q = (fs', res)"
  obtains e where "res = Inl e" "fs' = fs"
  | i where "res = Inr ()" "inode fs (key fs p) = Some i"
    "fs' = fs\<lparr>fs_files := AList.update (key fs q) i (AList.delete (key fs p) (fs_files fs))\<rparr>"
  using os_Rename_disj [OF assms] by (elim disjE exE conjE) (rule that; assumption)+

lemma os_Link_disj:
  "os_Link fs p q = (fs', res) \<Longrightarrow>
     (\<exists>e. res = Inl e \<and> fs' = fs) \<or>
     (\<exists>i. res = Inr () \<and> inode fs (key fs p) = Some i \<and> inode fs (key fs q) = None \<and> fs' = fs\<lparr>fs_files := AList.update (key fs q) i (fs_files fs)\<rparr>)"
  by (auto simp: os_Link_def Let_def split: if_splits option.splits)

lemma os_Link_cases:
  assumes "os_Link fs p q = (fs', res)"
  obtains e where "res = Inl e" "fs' = fs"
  | i where "res = Inr ()" "inode fs (key fs p) = Some i" "inode fs (key fs q) = None"
    "fs' = fs\<lparr>fs_files := AList.update (key fs q) i (fs_files fs)\<rparr>"
  using os_Link_disj [OF assms] by (elim disjE exE conjE) (rule that; assumption)+

lemma os_WriteFile_frame:
  assumes "os_WriteFile fs p d = (fs', res)" and "fs_ok fs"
  shows "(fs' = fs \<and> res \<noteq> Inr ()) \<or>
    (\<exists>i x. inode fs' = (inode fs)(key fs p \<mapsto> i) \<and> fs_data fs' = (fs_data fs)(i := x) \<and>
       (inode fs (key fs p) = Some i \<or> inode fs (key fs p) = None \<and> i = fs_next fs) \<and>
       same_env fs fs' \<and> fs_ok fs' \<and> (res = Inr () \<longrightarrow> x = d))"
proof -
  obtain fs1 r1 where cr: "os_create fs p = (fs1, r1)" by force
  have wr: "\<exists>x. fs' = set_data fs1 i x \<and> (res = Inr () \<longrightarrow> x = d)" if r: "r1 = Inr (key fs p, Some i)" for i
  proof -
    have "write_end (set_data fs1 i []) (key fs p, Some i) d = (fs', res)"
      using assms(1) cr r by (simp add: os_WriteFile_def os_create_trunc_def)
    then show ?thesis by (cases rule: write_end_cases) auto
  qed
  from cr show ?thesis
  proof (cases rule: os_create_cases)
    case (1 e)
    then show ?thesis
      using assms(1) cr by (auto simp: os_WriteFile_def os_create_trunc_def)
  next
    case (2 i)
    from wr [OF 2(1)] obtain x where x: "fs' = set_data fs1 i x" "res = Inr () \<longrightarrow> x = d" by blast
    have "inode fs' = (inode fs)(key fs p \<mapsto> i)"
      using x 2 by (simp add: fun_eq_iff)
    with x 2 assms(2) show ?thesis by auto
  next
    case 3
    from wr [OF 3(1)] obtain x where x: "fs' = set_data fs1 (fs_next fs) x" "res = Inr () \<longrightarrow> x = d" by blast
    have "fs_ok fs1"
      using assms(2) by (auto simp: 3 fs_ok_def less_Suc_eq)
    moreover have "inode fs' = (inode fs)(key fs p \<mapsto> fs_next fs)"
      "fs_data fs' = (fs_data fs)(fs_next fs := x)" "same_env fs fs'"
      using x 3 by (simp_all add: fun_eq_iff same_env_def)
    ultimately show ?thesis using x 3 by auto
  qed
qed

end
