(* ===== verification/Chunker.thy ===== *)
theory Chunker
  imports Manifest Osfs
begin

text \<open>
  The package \<open>chunk\<close>: content hashes and the splitting of a stream into chunks of a fixed size.
  The loop of \<open>ChunkStream\<close> is a terminating function for every positive chunk size; with size 0
  (which \<open>NewChunker\<close> excludes) the Go loop spins, and the model returns \<open>None\<close>. The lemmas relate the
  loop to \<open>slices\<close>, the plain list of consecutive slices of the input.
\<close>

section \<open>Hashes\<close>

record chunk =
  ch_Hash :: string
  ch_Data :: bytes
  ch_Offset :: int
  ch_Size :: int

definition ComputeHash :: "bytes \<Rightarrow> string" where
  "ComputeHash data = ''sha256:'' @ hex_digest data"

definition ComputeReaderHash :: "reader \<Rightarrow> (string \<times> int) result" where
  "ComputeReaderHash r =
     (case snd r of
        Some e \<Rightarrow> Inl (Wrapf ''failed to hash reader'' e)
      | None \<Rightarrow> Inr (ComputeHash (concat (fst r)), int (length (concat (fst r)))))"

definition VerifyHash :: "reader \<Rightarrow> string \<Rightarrow> go_error option" where
  "VerifyHash r expectedHash =
     (case ComputeReaderHash r of
        Inl e \<Rightarrow> Some e
      | Inr (actual, n) \<Rightarrow> if actual \<noteq> expectedHash then Some (Err ''hash mismatch'') else None)"

section \<open>Splitting\<close>

abbreviation ErrEOF :: go_error where "ErrEOF \<equiv> Err ''EOF''"
abbreviation ErrUnexpectedEOF :: go_error where "ErrUnexpectedEOF \<equiv> Err ''unexpected EOF''"

text \<open>\<open>io.ReadFull\<close> with a buffer of \<open>n\<close> bytes.\<close>

fun read_pieces :: "nat \<Rightarrow> bytes list \<Rightarrow> bytes \<times> bytes list" where
  "read_pieces n [] = ([], [])"
| "read_pieces n (p # ps) =
     (if n = 0 then ([], p # ps)
      else if n < length p then (take n p, drop n p # ps)
      else let (b, rest) = read_pieces (n - length p) ps in (p @ b, rest))"

definition io_ReadFull :: "nat \<Rightarrow> reader \<Rightarrow> bytes \<times> go_error option \<times> reader" where
  "io_ReadFull n r =
     (let (b, rest) = read_pieces n (fst r)
      in (b,
          if length b = n then None
          else case snd r of
              Some e \<Rightarrow> Some e
            | None \<Rightarrow> if b = [] then Some ErrEOF else Some ErrUnexpectedEOF,
          (rest, snd r)))"

record chunker =
  chunkSize :: int

definition NewChunker :: "int \<Rightarrow> chunker" where
  "NewChunker n = \<lparr>chunkSize = if n \<le> 0 then DefaultChunkSize else n\<rparr>"

type_synonym 's callback = "chunk \<Rightarrow> 's \<Rightarrow> 's \<times> go_error option"

lemma read_pieces_concat:
  "read_pieces n ps = (b, rest) \<Longrightarrow> b @ concat rest = concat ps \<and> length b = min n (length (concat ps))"
proof (induction n ps arbitrary: b rest rule: read_pieces.induct)
  case (2 n p ps)
  consider "n = 0" | "n \<noteq> 0" "n < length p" | "n \<noteq> 0" "\<not> n < length p" by blast
  then show ?case
  proof cases
    case 3
    obtain b' where b': "read_pieces (n - length p) ps = (b', rest)" "b = p @ b'"
      using 2(2) 3 by (cases "read_pieces (n - length p) ps") auto
    show ?thesis
      using 2(1) [OF 3 b'(1)] 3 b'(2) by auto
  qed (use 2(2) in auto)
qed auto

lemma io_ReadFull_shrinks:
  assumes "io_ReadFull n r = (b, None, r')" and "n \<noteq> 0"
  shows "length (concat (fst r')) < length (concat (fst r))"
proof -
  obtain rest where rest: "read_pieces n (fst r) = (b, rest)" "r' = (rest, snd r)" "length b = n"
    using assms by (auto simp: io_ReadFull_def Let_def split: prod.splits if_splits option.splits)
  then have "b @ concat rest = concat (fst r)"
    using read_pieces_concat by blast
  then have "length b + length (concat rest) = length (concat (fst r))"
    by (metis length_append)
  then show ?thesis
    using rest assms(2) by simp
qed

function chunk_loop ::
    "nat \<Rightarrow> int \<Rightarrow> reader \<Rightarrow> 's callback \<Rightarrow> 's \<Rightarrow> ('s \<times> go_error option) option" where
  "chunk_loop sz off r onChunk s =
     (if sz = 0 then None
      else case io_ReadFull sz r of
        (b, err, r') \<Rightarrow>
          (case (if 0 < length b
                 then onChunk \<lparr>ch_Hash = ComputeHash b, ch_Data = b, ch_Offset = off,
                               ch_Size = int (length b)\<rparr> s
                 else (s, None)) of
             (s', Some cbErr) \<Rightarrow> Some (s', Some cbErr)
           | (s', None) \<Rightarrow>
               let off' = if 0 < length b then wrap64 (off + int (length b)) else off
               in (case err of
                     None \<Rightarrow> chunk_loop sz off' r' onChunk s'
                   | Some e \<Rightarrow>
                       if e = ErrEOF \<or> e = ErrUnexpectedEOF then Some (s', None)
                       else Some (s', Some (Wrapf ''error reading chunk at offset'' e)))))"
  by pat_completeness auto
termination
  by (relation "measure (\<lambda>(sz, off, r, cb, s). length (concat (fst r)))")
    (simp, simp only: in_measure prod.case, metis io_ReadFull_shrinks)

declare chunk_loop.simps [simp del]

definition ChunkStream ::
    "chunker \<Rightarrow> reader \<Rightarrow> 's callback option \<Rightarrow> 's \<Rightarrow> ('s \<times> go_error option) option" where
  "ChunkStream c r onChunk s =
     (case onChunk of
        None \<Rightarrow> Some (s, Some (Err ''onChunk callback is required''))
      | Some cb \<Rightarrow> chunk_loop (nat (chunkSize c)) 0 r cb s)"

definition ChunkReader :: "chunker \<Rightarrow> reader \<Rightarrow> (chunk list \<times> go_error option) option" where
  "ChunkReader c r = ChunkStream c r (Some (\<lambda>ch chunks. (chunks @ [ch], None))) []"

definition ref_of :: "chunk \<Rightarrow> chunk_ref" where
  "ref_of ch = \<lparr>cr_Hash = ch_Hash ch, cr_Offset = ch_Offset ch, cr_Size = ch_Size ch\<rparr>"

definition ChunkFile ::
    "chunker \<Rightarrow> fsys \<Rightarrow> string \<Rightarrow> (chunk list \<times> chunk_ref list) result option" where
  "ChunkFile c fs filePath =
     (case os_Open fs filePath of
        Inl e \<Rightarrow> Some (Inl (Wrapf ''failed to open file'' e))
      | Inr f \<Rightarrow>
          map_option
            (\<lambda>(crs, err). case err of Some e \<Rightarrow> Inl e | None \<Rightarrow> Inr crs)
            (ChunkStream c (file_reader fs f)
               (Some (\<lambda>ch (chunks, refs).
                  ((chunks @ [ch], refs @ [ref_of ch]), None)))
               ([], [])))"

section \<open>What the loop computes\<close>

lemma chunk_hash_ok_ComputeHash [simp]: "chunk_hash_ok (ComputeHash d)"
  by (simp add: chunk_hash_ok_def ComputeHash_def)

function slices :: "nat \<Rightarrow> bytes \<Rightarrow> bytes list" where
  "slices sz d = (if sz = 0 \<or> d = [] then [] else take sz d # slices sz (drop sz d))"
  by pat_completeness auto
termination by (relation "measure (length o snd)") auto

declare slices.simps [simp del]

lemma slices_Nil [simp]: "slices sz [] = []"
  by (simp add: slices.simps)

lemma slices_0 [simp]: "slices 0 d = []"
  by (simp add: slices.simps)

lemma slices_step: "sz \<noteq> 0 \<Longrightarrow> d \<noteq> [] \<Longrightarrow> slices sz d = take sz d # slices sz (drop sz d)"
  by (simp add: slices.simps)

lemma slices_short: "length d < sz \<Longrightarrow> slices sz d = (if d = [] then [] else [d])"
  by (simp add: slices_step)

lemma concat_slices: "sz \<noteq> 0 \<Longrightarrow> concat (slices sz d) = d"
proof (induction sz d rule: slices.induct)
  case (1 sz d)
  then show ?case by (cases "d = []") (simp_all add: slices_step [of sz d])
qed

lemma slices_nonempty: "b \<in> set (slices sz d) \<Longrightarrow> b \<noteq> [] \<and> length b \<le> sz"
proof (induction sz d rule: slices.induct)
  case (1 sz d)
  show ?case
  proof (cases "sz = 0 \<or> d = []")
    case True
    with 1(2) show ?thesis by (auto simp: slices_0)
  next
    case False
    then have "b = take sz d \<or> b \<in> set (slices sz (drop sz d))"
      using 1(2) slices_step [of sz d] by auto
    with False show ?thesis
      using 1(1) by auto
  qed
qed

lemma slices_full: "Suc i < length (slices sz d) \<Longrightarrow> length (slices sz d ! i) = sz"
proof (induction sz d arbitrary: i rule: slices.induct)
  case (1 sz d)
  show ?case
  proof (cases "sz = 0 \<or> d = []")
    case False
    then have step: "slices sz d = take sz d # slices sz (drop sz d)"
      by (simp add: slices_step)
    have "sz \<le> length d" if "slices sz (drop sz d) \<noteq> []"
      using that by (metis drop_all linear slices_Nil)
    then show ?thesis
      using 1(2) 1(1) [OF False, of "i - 1"] by (cases i) (auto simp: step)
  qed (use 1(2) in auto)
qed

primrec chunks_at :: "int \<Rightarrow> bytes list \<Rightarrow> chunk list" where
  "chunks_at off [] = []"
| "chunks_at off (b # bs) =
     \<lparr>ch_Hash = ComputeHash b, ch_Data = b, ch_Offset = off, ch_Size = int (length b)\<rparr>
     # chunks_at (wrap64 (off + int (length b))) bs"

fun feed :: "'s callback \<Rightarrow> 's \<Rightarrow> chunk list \<Rightarrow> 's \<times> go_error option" where
  "feed cb s [] = (s, None)"
| "feed cb s (c # cs) =
     (case cb c s of (s', Some e) \<Rightarrow> (s', Some e) | (s', None) \<Rightarrow> feed cb s' cs)"

definition end_error :: "go_error option \<Rightarrow> go_error option" where
  "end_error e =
     (case e of
        None \<Rightarrow> None
      | Some x \<Rightarrow>
          if x = ErrEOF \<or> x = ErrUnexpectedEOF then None
          else Some (Wrapf ''error reading chunk at offset'' x))"

lemma io_ReadFull_full:
  assumes "n \<le> length (concat ps)"
  obtains rest where "io_ReadFull n (ps, e) = (take n (concat ps), None, (rest, e))"
    and "concat rest = drop n (concat ps)"
proof -
  obtain b rest where rest: "read_pieces n ps = (b, rest)" by force
  note split = read_pieces_concat [OF rest]
  then have "b = take n (concat ps)" "concat rest = drop n (concat ps)" "length b = n"
    using assms by (metis append_eq_conv_conj min_absorb1)+
  with rest show thesis
    by (intro that) (auto simp: io_ReadFull_def)
qed

lemma io_ReadFull_short:
  assumes "length (concat ps) < n"
  obtains r where "io_ReadFull n (ps, e) =
    (concat ps, Some (case e of Some x \<Rightarrow> x | None \<Rightarrow> if concat ps = [] then ErrEOF else ErrUnexpectedEOF), r)"
proof -
  obtain b rest where rest: "read_pieces n ps = (b, rest)" by force
  note split = read_pieces_concat [OF rest]
  have len: "length b = length (concat ps)"
    using split assms by simp
  with split have "b = concat ps"
    by (metis append_eq_append_conv append_Nil2)
  with rest assms len show thesis
    by (intro that [of "(rest, e)"]) (auto simp: io_ReadFull_def split: option.splits)
qed

lemma chunk_loop_feed:
  assumes "sz \<noteq> 0"
  shows "chunk_loop sz off (ps, e) cb s =
    Some (case feed cb s (chunks_at off (slices sz (concat ps))) of
            (s', Some x) \<Rightarrow> (s', Some x)
          | (s', None) \<Rightarrow> (s', end_error e))"
proof (induction "length (concat ps)" arbitrary: ps off s rule: less_induct)
  case less
  show ?case
  proof (cases "sz \<le> length (concat ps)")
    case True
    then obtain rest where rest: "io_ReadFull sz (ps, e) = (take sz (concat ps), None, (rest, e))"
      "concat rest = drop sz (concat ps)"
      by (rule io_ReadFull_full)
    have "concat ps \<noteq> []"
      using True assms by (metis le_zero_eq list.size(3))
    then have sl: "slices sz (concat ps) = take sz (concat ps) # slices sz (concat rest)"
      using assms rest(2) by (simp add: slices_step)
    have IH: "chunk_loop sz off' (rest, e) cb s' =
        Some (case feed cb s' (chunks_at off' (slices sz (concat rest))) of
                (s', Some x) \<Rightarrow> (s', Some x) | (s', None) \<Rightarrow> (s', end_error e))" for off' s'
      by (rule less) (use True assms rest(2) in simp)
    have len: "length (take sz (concat ps)) = sz"
      using True by simp
    define b where "b = take sz (concat ps)"
    show ?thesis
      unfolding sl b_def [symmetric]
      using rest(1) len assms unfolding b_def [symmetric]
      by (subst chunk_loop.simps) (auto simp: IH split: prod.splits option.splits)
  next
    case False
    then obtain r where r: "io_ReadFull sz (ps, e) =
      (concat ps, Some (case e of Some x \<Rightarrow> x | None \<Rightarrow> if concat ps = [] then ErrEOF else ErrUnexpectedEOF), r)"
      using io_ReadFull_short [of ps sz e] by auto
    have "slices sz (concat ps) = (if concat ps = [] then [] else [concat ps])"
      using False by (intro slices_short) simp
    moreover define d where "d = concat ps"
    ultimately show ?thesis
      using r assms unfolding d_def [symmetric]
      by (subst chunk_loop.simps)
        (auto simp: end_error_def split: prod.splits option.splits if_splits)
  qed
qed

lemma feed_append: "feed (\<lambda>ch chunks. (chunks @ [ch], None)) s cs = (s @ cs, None)"
  by (induction cs arbitrary: s) auto

lemma feed_append_refs:
  "feed (\<lambda>ch (chunks, refs). ((chunks @ [ch], refs @ [ref_of ch]), None)) (a, b) cs =
     ((a @ cs, b @ map ref_of cs), None)"
  by (induction cs arbitrary: a b) auto

lemma chunks_at_Data [simp]: "map ch_Data (chunks_at off bs) = bs"
  by (induction bs arbitrary: off) auto

lemma length_chunks_at [simp]: "length (chunks_at off bs) = length bs"
  by (induction bs arbitrary: off) auto

lemma chunks_at_fields:
  "c \<in> set (chunks_at off bs) \<Longrightarrow>
     ch_Hash c = ComputeHash (ch_Data c) \<and> ch_Size c = int (length (ch_Data c)) \<and> ch_Data c \<in> set bs"
  by (induction bs arbitrary: off) auto

lemma chunks_at_nth_Size: "i < length bs \<Longrightarrow> ch_Size (chunks_at off bs ! i) = int (length (bs ! i))"
  by (induction bs arbitrary: off i) (auto simp: nth_Cons split: nat.splits)

lemma chunks_at_ok: "chunks_ok a (map ref_of (chunks_at (wrap64 a) bs))"
  by (induction bs arbitrary: a) (auto simp: chunks_ok_Cons ref_of_def wrap64_add_left)

lemma chunks_at_sizes: "map (cr_Size o ref_of) (chunks_at off bs) = map (int o length) bs"
  by (induction bs arbitrary: off) (auto simp: ref_of_def)

lemma sum_lengths: "sum_list (map (int o length) bs) = int (length (concat bs))"
  by (induction bs) auto

lemma chunkSize_pos [simp]:
  "0 < chunkSize (NewChunker n)" "nat (chunkSize (NewChunker n)) \<noteq> 0" "0 \<le> chunkSize (NewChunker n)"
  by (auto simp: NewChunker_def DefaultChunkSize_def)

lemma le_chunkSize: "m \<le> nat (chunkSize (NewChunker n)) \<Longrightarrow> int m \<le> chunkSize (NewChunker n)"
  using chunkSize_pos(1) [of n] by linarith

lemma ChunkStream_eq:
  assumes "0 < chunkSize c"
  shows "ChunkStream c (ps, e) (Some cb) s =
    Some (case feed cb s (chunks_at 0 (slices (nat (chunkSize c)) (concat ps))) of
            (s', Some x) \<Rightarrow> (s', Some x) | (s', None) \<Rightarrow> (s', end_error e))"
  using assms by (simp add: ChunkStream_def chunk_loop_feed)

lemma ChunkReader_eq:
  "0 < chunkSize c \<Longrightarrow>
   ChunkReader c (ps, e) = Some (chunks_at 0 (slices (nat (chunkSize c)) (concat ps)), end_error e)"
  by (simp add: ChunkReader_def ChunkStream_eq feed_append)

lemma ChunkFile_eq:
  assumes "0 < chunkSize c" and "os_Open fs p = Inr f" and "read_all fs f = Inr d"
  shows "ChunkFile c fs p =
    (let cs = chunks_at 0 (slices (nat (chunkSize c)) d) in Some (Inr (cs, map ref_of cs)))"
  using assms
  by (simp add: ChunkFile_def file_reader_def ChunkStream_eq feed_append_refs end_error_def Let_def)

lemma chunk_offsets:
  assumes "i < length (chunks_at 0 (slices sz d))" and "length d < 2 ^ 63"
  shows "ch_Offset (chunks_at 0 (slices sz d) ! i) =
    sum_list (map ch_Size (take i (chunks_at 0 (slices sz d))))"
proof -
  let ?cs = "chunks_at 0 (slices sz d)"
  have sizes: "sum_list (map ch_Size (take i ?cs)) = int (length (concat (take i (slices sz d))))"
  proof -
    have "map ch_Size ?cs = map (int o length) (slices sz d)"
      using chunks_at_sizes [of 0 "slices sz d"] by (simp add: ref_of_def comp_def)
    then show ?thesis
      by (metis sum_lengths take_map)
  qed
  have "concat (take i (slices sz d)) @ concat (drop i (slices sz d)) = d"
    using assms(1) by (cases "sz = 0") (simp_all add: concat_slices flip: concat_append)
  then have "length (concat (take i (slices sz d))) \<le> length d"
    by (metis length_append le_add1)
  moreover have "cr_Offset (map ref_of ?cs ! i) =
      wrap64 (0 + sum_list (map cr_Size (take i (map ref_of ?cs))))"
    using chunks_at_ok [of 0 "slices sz d"] assms(1) unfolding chunks_ok_def by simp
  ultimately show ?thesis
    using assms sizes by (simp add: ref_of_def take_map comp_def)
qed

section \<open>Properties\<close>

text \<open>
  C6. Splitting loses nothing: for a stream that ends without an error \<open>ChunkReader\<close> returns chunks
  whose payloads, one after the other, are the stream. Each carries the hash and the size of its
  payload and begins where the ones before it end, none is empty, and all but the last have exactly
  the chunk size. It does not matter in which pieces the stream delivers its bytes.
\<close>
theorem chunk_reader_splits:
  assumes "length (concat ps) < 2 ^ 63"
  shows "\<exists>cs. ChunkReader (NewChunker n) (ps, None) = Some (cs, None) \<and>
    concat (map ch_Data cs) = concat ps \<and>
    (\<forall>c \<in> set cs. ch_Hash c = ComputeHash (ch_Data c) \<and> ch_Size c = int (length (ch_Data c)) \<and>
       0 < ch_Size c \<and> ch_Size c \<le> chunkSize (NewChunker n)) \<and>
    (\<forall>i. Suc i < length cs \<longrightarrow> ch_Size (cs ! i) = chunkSize (NewChunker n)) \<and>
    (\<forall>i < length cs. ch_Offset (cs ! i) = sum_list (map ch_Size (take i cs)))"
proof -
  let ?sz = "nat (chunkSize (NewChunker n))"
  let ?cs = "chunks_at 0 (slices ?sz (concat ps))"
  have "concat (map ch_Data ?cs) = concat ps"
    by (simp add: concat_slices [OF chunkSize_pos(2)])
  moreover have "\<forall>c \<in> set ?cs. ch_Hash c = ComputeHash (ch_Data c) \<and>
      ch_Size c = int (length (ch_Data c)) \<and> 0 < ch_Size c \<and> ch_Size c \<le> chunkSize (NewChunker n)"
    by (auto dest!: chunks_at_fields slices_nonempty intro: le_chunkSize)
  moreover have "ch_Size (?cs ! i) = chunkSize (NewChunker n)" if "Suc i < length ?cs" for i
    using that slices_full [of i ?sz "concat ps"] chunkSize_pos(1) [of n]
    by (simp add: chunks_at_nth_Size)
  moreover have "ch_Offset (?cs ! i) = sum_list (map ch_Size (take i ?cs))" if "i < length ?cs" for i
    using that assms by (rule chunk_offsets)
  moreover have "ChunkReader (NewChunker n) (ps, None) = Some (?cs, None)"
    by (simp add: ChunkReader_eq end_error_def)
  ultimately show ?thesis by blast
qed

theorem chunk_reader_splits_witness:
  "\<exists>cs. ChunkReader (NewChunker 2) ([[1, 2, 3], [4, 5]], None) = Some (cs, None) \<and>
     concat (map ch_Data cs) = [1, 2, 3, 4, 5]"
  using chunk_reader_splits [of "[[1, 2, 3], [4, 5]]" 2] by auto

end
