(* ===== verification/ChunkStore.thy ===== *)
theory ChunkStore
  imports Chunker
begin

text \<open>
  \<open>pkg/cache/cache.go\<close>: the content-addressed chunk store on disk. A store is the record of its
  directories; its state is the file system. Each operation is one definition that returns the new
  file system and what the Go function returns, and \<open>CommitPartial\<close> also the call it makes to the
  \<open>onCommit\<close> hook. The per-hash mutex of \<open>LockHash\<close> makes the operations on one hash atomic, which is
  how the model composes them.

  \<open>store_inv\<close> is the invariant: what is stored under the name of a hash has that hash, and no
  partial download shares its inode with another file of the store. Every operation keeps it, for
  every choice of device failures. The operations are related to the abstract content-addressed
  store of the locale \<open>blob_store\<close>.
\<close>

section \<open>Paths\<close>

abbreviation ErrChunkNotFound :: go_error where "ErrChunkNotFound \<equiv> Err ''chunk not found in cache''"
abbreviation ErrHashMismatch :: go_error where "ErrHashMismatch \<equiv> Err ''chunk content hash mismatch''"
abbreviation ErrInvalidHashName :: go_error where "ErrInvalidHashName \<equiv> Err ''invalid chunk hash format''"

record chunk_store =
  rootDir :: string
  chunksDir :: string
  tmpDir :: string
  partialDir :: string
  mfstDir :: string
  onCommit :: bool

definition store_at :: "string \<Rightarrow> chunk_store" where
  "store_at dir =
     \<lparr>rootDir = dir,
      chunksDir = filepath_Join [dir, ''chunks'', ''sha256''],
      tmpDir = filepath_Join [dir, ''tmp''],
      partialDir = filepath_Join [dir, ''tmp'', ''partial''],
      mfstDir = filepath_Join [dir, ''manifests''],
      onCommit = False\<rparr>"

fun mkdirs :: "fsys \<Rightarrow> string list \<Rightarrow> fsys \<times> unit result" where
  "mkdirs fs [] = (fs, Inr ())"
| "mkdirs fs (d # ds) =
     (case os_MkdirAll fs d of
        (fs', Inl e) \<Rightarrow> (fs', Inl (Wrapf ''failed to create cache directory'' e))
      | (fs', Inr u) \<Rightarrow> mkdirs fs' ds)"

definition NewChunkStore :: "fsys \<Rightarrow> string \<Rightarrow> fsys \<times> chunk_store result" where
  "NewChunkStore fs dir =
     (let c = store_at (if dir = [] then ''/var/lib/spider'' else dir)
      in case mkdirs fs [chunksDir c, tmpDir c, partialDir c, mfstDir c] of
           (fs', Inl e) \<Rightarrow> (fs', Inl e)
         | (fs', Inr u) \<Rightarrow> (fs', Inr c))"

definition SetOnCommit :: "chunk_store \<Rightarrow> chunk_store" where
  "SetOnCommit c = c\<lparr>onCommit := True\<rparr>"

definition parseHash :: "string \<Rightarrow> string result" where
  "parseHash hash =
     (if \<not> has_prefix hash ''sha256:'' then Inl ErrInvalidHashName
      else let hexPart = trim_prefix hash ''sha256:''
           in if length hexPart \<noteq> 64 then Inl ErrInvalidHashName else Inr hexPart)"

definition chunkPath :: "chunk_store \<Rightarrow> string \<Rightarrow> string result" where
  "chunkPath c hash =
     (case parseHash hash of
        Inl e \<Rightarrow> Inl e
      | Inr hexPart \<Rightarrow> Inr (filepath_Join [chunksDir c, take 2 hexPart, hexPart]))"

definition partialPath :: "chunk_store \<Rightarrow> string \<Rightarrow> string result" where
  "partialPath c hash =
     (case parseHash hash of
        Inl e \<Rightarrow> Inl e
      | Inr hexPart \<Rightarrow> Inr (filepath_Join [partialDir c, hexPart]))"

section \<open>Looking up\<close>

definition HasChunk :: "chunk_store \<Rightarrow> fsys \<Rightarrow> string \<Rightarrow> bool" where
  "HasChunk c fs hash =
     (case chunkPath c hash of
        Inl e \<Rightarrow> False
      | Inr p \<Rightarrow> (case os_Stat fs p of Inl e \<Rightarrow> False | Inr info \<Rightarrow> \<not> fi_IsDir info))"

definition CommittedChunkSize :: "chunk_store \<Rightarrow> fsys \<Rightarrow> string \<Rightarrow> int option" where
  "CommittedChunkSize c fs hash =
     (case chunkPath c hash of
        Inl e \<Rightarrow> None
      | Inr p \<Rightarrow>
          (case os_Stat fs p of
             Inl e \<Rightarrow> None
           | Inr info \<Rightarrow> if fi_IsDir info then None else Some (fi_Size info)))"

definition HasValidCommittedChunk :: "chunk_store \<Rightarrow> fsys \<Rightarrow> string \<Rightarrow> int \<Rightarrow> bool" where
  "HasValidCommittedChunk c fs hash expectedSize =
     (if \<not> HasChunk c fs hash then False
      else if expectedSize \<le> 0 then True
      else CommittedChunkSize c fs hash = Some expectedSize)"

definition GetChunkPath :: "chunk_store \<Rightarrow> fsys \<Rightarrow> string \<Rightarrow> string result" where
  "GetChunkPath c fs hash =
     (case chunkPath c hash of
        Inl e \<Rightarrow> Inl e
      | Inr p \<Rightarrow>
          (case os_Stat fs p of
             Inl e \<Rightarrow> if e = ErrNotExist then Inl ErrChunkNotFound else Inl e
           | Inr info \<Rightarrow> Inr p))"

definition GetChunkReader :: "chunk_store \<Rightarrow> fsys \<Rightarrow> string \<Rightarrow> (handle \<times> int) result" where
  "GetChunkReader c fs hash =
     (case chunkPath c hash of
        Inl e \<Rightarrow> Inl e
      | Inr p \<Rightarrow>
          (case os_Open fs p of
             Inl e \<Rightarrow> if e = ErrNotExist then Inl ErrChunkNotFound else Inl e
           | Inr f \<Rightarrow>
               (case handle_Stat fs f of
                  Inl e \<Rightarrow> Inl e
                | Inr info \<Rightarrow> Inr (f, fi_Size info))))"

definition PartialSize :: "chunk_store \<Rightarrow> fsys \<Rightarrow> string \<Rightarrow> int" where
  "PartialSize c fs hash =
     (case partialPath c hash of
        Inl e \<Rightarrow> 0
      | Inr p \<Rightarrow>
          (case os_Stat fs p of
             Inl e \<Rightarrow> 0
           | Inr info \<Rightarrow> if fi_IsDir info then 0 else fi_Size info))"

definition HashPartial :: "chunk_store \<Rightarrow> fsys \<Rightarrow> string \<Rightarrow> string result" where
  "HashPartial c fs hash =
     (case partialPath c hash of
        Inl e \<Rightarrow> Inl e
      | Inr p \<Rightarrow>
          (case os_Open fs p of
             Inl e \<Rightarrow> Inl e
           | Inr f \<Rightarrow> (case read_all fs f of Inl e \<Rightarrow> Inl e | Inr d \<Rightarrow> Inr (ComputeHash d))))"

section \<open>Writing\<close>

definition DiscardPartial :: "chunk_store \<Rightarrow> fsys \<Rightarrow> string \<Rightarrow> fsys \<times> unit result" where
  "DiscardPartial c fs hash =
     (case partialPath c hash of
        Inl e \<Rightarrow> (fs, Inl e)
      | Inr p \<Rightarrow>
          (case os_Remove fs p of
             (fs', Inl e) \<Rightarrow> (fs', if e \<noteq> ErrNotExist then Inl e else Inr ())
           | (fs', Inr u) \<Rightarrow> (fs', Inr ())))"

text \<open>
  The last result is what the operation leaves unread of its reader: a caller that feeds the reader
  from a pipe blocks for as long as there is something left.
\<close>

definition append_partial :: "chunk_store \<Rightarrow> fsys \<Rightarrow> string \<Rightarrow> reader \<Rightarrow> fsys \<times> unit result \<times> bytes list" where
  "append_partial c fs hash r =
     (case parseHash hash of
        Inl e \<Rightarrow> (fs, Inl e, fst r)
      | Inr _ \<Rightarrow>
     (case partialPath c hash of
        Inl e \<Rightarrow> (fs, Inl e, fst r)
      | Inr p \<Rightarrow>
     (case os_MkdirAll fs (filepath_Dir p) of
        (fs1, Inl e) \<Rightarrow> (fs1, Inl e, fst r)
      | (fs1, Inr _) \<Rightarrow>
     (case os_create fs1 p of
        (fs2, Inl e) \<Rightarrow> (fs2, Inl (Wrapf ''open partial'' e), fst r)
      | (fs2, Inr f) \<Rightarrow>
     (case io_Copy fs2 f r of
        (fs3, Inl e, rest) \<Rightarrow> (fs3, Inl (Wrapf ''write partial'' e), rest)
      | (fs3, Inr _, rest) \<Rightarrow>
     (case handle_Sync fs3 f of
        Inl e \<Rightarrow> (fs3, Inl (Wrapf ''sync partial'' e), rest)
      | Inr _ \<Rightarrow> (fs3, Inr (), rest)))))))"

definition AppendPartial :: "chunk_store \<Rightarrow> fsys \<Rightarrow> string \<Rightarrow> reader \<Rightarrow> fsys \<times> unit result" where
  "AppendPartial c fs hash r = (case append_partial c fs hash r of (fs', res, _) \<Rightarrow> (fs', res))"

type_synonym hook_call = "(string \<times> int) option"

definition run_onCommit :: "chunk_store \<Rightarrow> fsys \<Rightarrow> string \<Rightarrow> string \<Rightarrow> hook_call" where
  "run_onCommit c fs hash destPath =
     (if onCommit c
      then Some (hash, case os_Stat fs destPath of Inr st \<Rightarrow> fi_Size st | Inl e \<Rightarrow> 0)
      else None)"

definition CommitPartial :: "chunk_store \<Rightarrow> fsys \<Rightarrow> string \<Rightarrow> fsys \<times> unit result \<times> hook_call" where
  "CommitPartial c fs hash =
     (case parseHash hash of
        Inl e \<Rightarrow> (fs, Inl e, None)
      | Inr _ \<Rightarrow>
     (case partialPath c hash of
        Inl e \<Rightarrow> (fs, Inl e, None)
      | Inr p \<Rightarrow>
     (case os_Open fs p of
        Inl e \<Rightarrow> (fs, Inl (Wrapf ''open partial for verify'' e), None)
      | Inr onDisk \<Rightarrow>
     (case ComputeReaderHash (file_reader fs onDisk) of
        Inl e \<Rightarrow> (fs, Inl (Wrapf ''hash partial'' e), None)
      | Inr (actual, n) \<Rightarrow>
          if actual \<noteq> hash
          then (fst (os_Remove fs p), Inl (Wrapf ''expected hash'' ErrHashMismatch), None)
          else
     (case chunkPath c hash of
        Inl e \<Rightarrow> (fs, Inl e, None)
      | Inr destPath \<Rightarrow>
     (case os_MkdirAll fs (filepath_Dir destPath) of
        (fs1, Inl e) \<Rightarrow> (fs1, Inl (Wrapf ''failed to create shard directory'' e), None)
      | (fs1, Inr _) \<Rightarrow>
     (case os_Rename fs1 p destPath of
        (fs2, Inl e) \<Rightarrow> (fs2, Inl (Wrapf ''failed to move chunk to cache'' e), None)
      | (fs2, Inr _) \<Rightarrow> (fs2, Inr (), run_onCommit c fs2 hash destPath))))))))"

definition PutChunkFromReader ::
    "chunk_store \<Rightarrow> fsys \<Rightarrow> string \<Rightarrow> reader \<Rightarrow> fsys \<times> unit result \<times> hook_call" where
  "PutChunkFromReader c fs hash r =
     (case DiscardPartial c fs hash of
        (fs1, Inl e) \<Rightarrow> (fs1, Inl e, None)
      | (fs1, Inr _) \<Rightarrow>
          (case AppendPartial c fs1 hash r of
             (fs2, Inl e) \<Rightarrow> (fst (DiscardPartial c fs2 hash), Inl e, None)
           | (fs2, Inr _) \<Rightarrow> CommitPartial c fs2 hash))"

definition PutChunk :: "chunk_store \<Rightarrow> fsys \<Rightarrow> string \<Rightarrow> bytes \<Rightarrow> fsys \<times> unit result \<times> hook_call" where
  "PutChunk c fs hash data = PutChunkFromReader c fs hash (bytes_reader data)"

definition DeleteChunk :: "chunk_store \<Rightarrow> fsys \<Rightarrow> string \<Rightarrow> fsys \<times> unit result" where
  "DeleteChunk c fs hash =
     (case chunkPath c hash of Inl e \<Rightarrow> (fs, Inl e) | Inr p \<Rightarrow> os_Remove fs p)"

section \<open>Listing\<close>

text \<open>
  \<open>filepath.Walk\<close> visits a directory tree in lexical order; the callbacks of the source stop at the
  first error. Files are visited in the order of their paths, component by component.
\<close>

fun comps_less :: "path \<Rightarrow> path \<Rightarrow> bool" where
  "comps_less a [] = False"
| "comps_less [] (d # b) = True"
| "comps_less (c # a) (d # b) = (str_less c d \<or> (c = d \<and> comps_less a b))"

definition walk_files :: "fsys \<Rightarrow> string \<Rightarrow> path list result" where
  "walk_files fs dir =
     (let k = key fs dir;
          entries = filter (below k) (map fst (fs_files fs) @ fs_dirs fs);
          dirs = k # filter (below k) (fs_dirs fs)
      in case os_Stat fs dir of
           Inl e \<Rightarrow> Inl e
         | Inr info \<Rightarrow>
             if \<not> fi_IsDir info then Inr [k]
             else if list_ex (fs_fault fs OpOpen) dirs \<or> list_ex (fs_fault fs OpStat) entries
             then Inl ErrDevice
             else Inr (insertion_sort comps_less (filter (below k) (map fst (fs_files fs)))))"

definition ListChunks :: "chunk_store \<Rightarrow> fsys \<Rightarrow> string list result" where
  "ListChunks c fs =
     map_sum id
       (\<lambda>ks. map (\<lambda>k. ''sha256:'' @ last k) (filter (\<lambda>k. k \<noteq> [] \<and> length (last k) = 64) ks))
       (walk_files fs (chunksDir c))"

definition TotalCachedBytes :: "chunk_store \<Rightarrow> fsys \<Rightarrow> int result" where
  "TotalCachedBytes c fs =
     map_sum id
       (\<lambda>ks. foldl (\<lambda>acc k. wrap64 (acc + (case contents fs k of Some d \<Rightarrow> int (length d) | None \<Rightarrow> 0))) 0 ks)
       (walk_files fs (chunksDir c))"

section \<open>Where the files are\<close>

definition hex_hash :: "string \<Rightarrow> bool" where
  "hex_hash h = (has_prefix h ''sha256:'' \<and> length h = 71 \<and> list_all is_hex (drop 7 h))"

definition wf_store :: "chunk_store \<Rightarrow> bool" where
  "wf_store c = (rootDir c \<noteq> [] \<and> c\<lparr>onCommit := False\<rparr> = store_at (rootDir c))"

definition chunk_key :: "chunk_store \<Rightarrow> fsys \<Rightarrow> string \<Rightarrow> path" where
  "chunk_key c fs h = key fs (rootDir c) @ [''chunks'', ''sha256'', take 2 (drop 7 h), drop 7 h]"

definition partial_key :: "chunk_store \<Rightarrow> fsys \<Rightarrow> string \<Rightarrow> path" where
  "partial_key c fs h = key fs (rootDir c) @ [''tmp'', ''partial'', drop 7 h]"

lemma hex_hash_ComputeHash [simp]: "hex_hash (ComputeHash d)"
  by (auto simp: hex_hash_def ComputeHash_def list_all_iff hex_digest_is_hex)

lemma hex_hash_split: "hex_hash h \<Longrightarrow> h = ''sha256:'' @ drop 7 h \<and> length (drop 7 h) = 64"
  by (auto simp: hex_hash_def elim: has_prefixE)

lemma hex_hash_inj: "hex_hash h \<Longrightarrow> hex_hash h' \<Longrightarrow> drop 7 h = drop 7 h' \<Longrightarrow> h = h'"
  by (metis hex_hash_split)

lemma parseHash_hex [simp]: "hex_hash h \<Longrightarrow> parseHash h = Inr (drop 7 h)"
  by (auto simp: hex_hash_def parseHash_def trim_prefix_def elim!: has_prefixE)

lemma parseHash_Inr: "parseHash h = Inr x \<Longrightarrow> h = ''sha256:'' @ x \<and> length x = 64"
  by (auto simp: parseHash_def Let_def trim_prefix_def split: if_splits elim!: has_prefixE)

lemma plain_hex: "x \<noteq> [] \<Longrightarrow> list_all is_hex x \<Longrightarrow> plain x"
  by (cases x) (auto simp: plain_def list_all_iff dest: is_hex_not_slash)

lemma hex_hash_plain [simp]:
  assumes "hex_hash h"
  shows "plain (drop 7 h)" "plain (take 2 (drop 7 h))"
proof -
  have hex: "list_all is_hex (drop 7 h)" and len: "length (drop 7 h) = 64"
    using assms hex_hash_split by (auto simp: hex_hash_def)
  show "plain (drop 7 h)"
    using hex len by (intro plain_hex) auto
  show "plain (take 2 (drop 7 h))"
    using hex len by (intro plain_hex) (auto simp: list_all_iff dest: in_set_takeD)
qed

lemma plain_names [simp]:
  "plain ''chunks''" "plain ''sha256''" "plain ''tmp''" "plain ''partial''" "plain ''manifests''"
  by (auto simp: plain_def)

lemma filepath_Join_not_Nil [simp]: "a \<noteq> [] \<Longrightarrow> filepath_Join (a # bs) \<noteq> []"
  by simp

lemma wf_store_dirs:
  assumes "wf_store c"
  shows "rootDir c \<noteq> []" "chunksDir c = filepath_Join (rootDir c # [''chunks'', ''sha256''])"
    "partialDir c = filepath_Join (rootDir c # [''tmp'', ''partial''])"
    "chunksDir c \<noteq> []" "partialDir c \<noteq> []"
proof -
  from assms have root: "rootDir c \<noteq> []" and eq: "c\<lparr>onCommit := False\<rparr> = store_at (rootDir c)"
    by (simp_all add: wf_store_def)
  show "rootDir c \<noteq> []" by (rule root)
  from arg_cong [OF eq, of chunksDir] show ch: "chunksDir c = filepath_Join (rootDir c # [''chunks'', ''sha256''])"
    by (simp add: store_at_def del: filepath_Join.simps)
  from arg_cong [OF eq, of partialDir] show pa: "partialDir c = filepath_Join (rootDir c # [''tmp'', ''partial''])"
    by (simp add: store_at_def del: filepath_Join.simps)
  show "chunksDir c \<noteq> []" "partialDir c \<noteq> []"
    unfolding ch pa using root by (simp_all del: filepath_Join.simps)
qed

lemma chunkPath_key:
  assumes "wf_store c" and "fs_ok fs" and "hex_hash h"
  obtains p where "chunkPath c h = Inr p" "key fs p = chunk_key c fs h"
    "key fs (filepath_Dir p) = butlast (chunk_key c fs h)"
proof -
  note dirs = wf_store_dirs [OF assms(1)]
  let ?p = "filepath_Join (chunksDir c # [take 2 (drop 7 h), drop 7 h])"
  have "key fs (chunksDir c) = key fs (rootDir c) @ [''chunks'', ''sha256'']"
    unfolding dirs(2) using assms dirs(1) by (intro resolve_Join_plain) auto
  moreover have "key fs ?p = key fs (chunksDir c) @ [take 2 (drop 7 h), drop 7 h]"
    using assms dirs(4) by (intro resolve_Join_plain) auto
  ultimately have k: "key fs ?p = chunk_key c fs h"
    by (simp only: chunk_key_def append.assoc append.simps)
  have "last (split_slash ?p) = drop 7 h"
    using last_split_Join [of "drop 7 h" "chunksDir c" "[take 2 (drop 7 h)]"] assms dirs(4)
    by (simp only: append.simps hex_hash_plain not_False_eq_True)
  then have "key fs ?p = key fs (filepath_Dir ?p) @ [drop 7 h]"
    using resolve_Dir [OF fs_ok_cwd [OF assms(2)], of ?p] assms by (simp only: hex_hash_plain)
  then have "butlast (key fs ?p) = key fs (filepath_Dir ?p)" by (metis butlast_snoc)
  with k show thesis
    using assms(3) by (intro that [of ?p]) (simp_all only: chunkPath_def parseHash_hex sum.case)
qed

lemma partialPath_key:
  assumes "wf_store c" and "fs_ok fs" and "hex_hash h"
  obtains p where "partialPath c h = Inr p" "key fs p = partial_key c fs h"
    "key fs (filepath_Dir p) = butlast (partial_key c fs h)"
proof -
  note dirs = wf_store_dirs [OF assms(1)]
  let ?p = "filepath_Join (partialDir c # [drop 7 h])"
  have "key fs (partialDir c) = key fs (rootDir c) @ [''tmp'', ''partial'']"
    unfolding dirs(3) using assms dirs(1) by (intro resolve_Join_plain) auto
  moreover have "key fs ?p = key fs (partialDir c) @ [drop 7 h]"
    using assms dirs(5) by (intro resolve_Join_plain) auto
  ultimately have k: "key fs ?p = partial_key c fs h"
    by (simp only: partial_key_def append.assoc append.simps)
  have "last (split_slash ?p) = drop 7 h"
    using last_split_Join [of "drop 7 h" "partialDir c" "[]"] assms dirs(5)
    by (simp only: append.simps hex_hash_plain not_False_eq_True)
  then have "key fs ?p = key fs (filepath_Dir ?p) @ [drop 7 h]"
    using resolve_Dir [OF fs_ok_cwd [OF assms(2)], of ?p] assms by (simp only: hex_hash_plain)
  then have "butlast (key fs ?p) = key fs (filepath_Dir ?p)" by (metis butlast_snoc)
  with k show thesis
    using assms(3) by (intro that [of ?p]) (simp_all only: partialPath_def parseHash_hex sum.case)
qed

lemma keys_distinct [simp]:
  "chunk_key c fs h \<noteq> partial_key c fs' h'" "partial_key c fs' h' \<noteq> chunk_key c fs h"
  if "fs_cwd fs' = fs_cwd fs"
  using that by (auto simp: chunk_key_def partial_key_def)

lemma chunk_key_inj: "hex_hash h \<Longrightarrow> hex_hash h' \<Longrightarrow> (chunk_key c fs h = chunk_key c fs h') = (h = h')"
  by (auto simp: chunk_key_def dest: hex_hash_inj)

lemma partial_key_inj:
  "hex_hash h \<Longrightarrow> hex_hash h' \<Longrightarrow> (partial_key c fs h = partial_key c fs h') = (h = h')"
  by (auto simp: partial_key_def dest: hex_hash_inj)

lemma keys_cwd:
  "fs_cwd fs' = fs_cwd fs \<Longrightarrow> chunk_key c fs' h = chunk_key c fs h"
  "fs_cwd fs' = fs_cwd fs \<Longrightarrow> partial_key c fs' h = partial_key c fs h"
  by (simp_all add: chunk_key_def partial_key_def)

section \<open>The abstract store and the invariant\<close>

text \<open>
  What the store is to its users: the committed chunks and the partial downloads, by hash. \<open>cas\<close>
  reads it off the file system, for hashes in proper hexadecimal form.
\<close>

record cas =
  committed :: "string \<Rightarrow> bytes option"
  partials :: "string \<Rightarrow> bytes option"

definition cas_of :: "chunk_store \<Rightarrow> fsys \<Rightarrow> cas" where
  "cas_of c fs =
     \<lparr>committed = (\<lambda>h. if hex_hash h then contents fs (chunk_key c fs h) else None),
      partials = (\<lambda>h. if hex_hash h then contents fs (partial_key c fs h) else None)\<rparr>"

definition store_keys :: "chunk_store \<Rightarrow> fsys \<Rightarrow> path set" where
  "store_keys c fs = {k. \<exists>h. hex_hash h \<and> (k = chunk_key c fs h \<or> k = partial_key c fs h)}"

definition unshared :: "chunk_store \<Rightarrow> fsys \<Rightarrow> bool" where
  "unshared c fs =
     (\<forall>h k i. hex_hash h \<longrightarrow> inode fs (partial_key c fs h) = Some i \<longrightarrow> k \<in> store_keys c fs \<longrightarrow>
        inode fs k = Some i \<longrightarrow> k = partial_key c fs h)"

definition store_inv :: "chunk_store \<Rightarrow> fsys \<Rightarrow> bool" where
  "store_inv c fs =
     (wf_store c \<and> fs_ok fs \<and> unshared c fs \<and>
      (\<forall>h d. committed (cas_of c fs) h = Some d \<longrightarrow> ComputeHash d = h))"

lemma store_invD:
  assumes "store_inv c fs"
  shows "wf_store c" "fs_ok fs" "unshared c fs" "committed (cas_of c fs) h = Some d \<Longrightarrow> ComputeHash d = h"
  using assms by (auto simp: store_inv_def)

lemma in_store_keys [simp]:
  "hex_hash h \<Longrightarrow> chunk_key c fs h \<in> store_keys c fs"
  "hex_hash h \<Longrightarrow> partial_key c fs h \<in> store_keys c fs"
  by (auto simp: store_keys_def)

lemma store_keys_cwd: "fs_cwd fs' = fs_cwd fs \<Longrightarrow> store_keys c fs' = store_keys c fs"
  by (simp only: store_keys_def chunk_key_def partial_key_def)

text \<open>Writing to a partial file, whether it is there or new, touches no other file of the store.\<close>

lemma write_frame:
  assumes inv: "store_inv c fs" and h: "hex_hash h" and cwd: "fs_cwd fs' = fs_cwd fs"
    and names: "inode fs' = (inode fs)(partial_key c fs h \<mapsto> i)"
    and bytes: "fs_data fs' = (fs_data fs)(i := d)"
    and own: "inode fs (partial_key c fs h) = Some i \<or> i = fs_next fs"
    and k: "k \<in> store_keys c fs" "k \<noteq> partial_key c fs h"
  shows "contents fs' k = contents fs k" "inode fs' k = inode fs k" "inode fs k \<noteq> Some i"
proof -
  show "inode fs k \<noteq> Some i"
  proof
    assume "inode fs k = Some i"
    moreover from this have "i < fs_next fs"
      using store_invD(2) [OF inv] fs_ok_inode by blast
    ultimately show False
      using own k h store_invD(3) [OF inv] unfolding unshared_def by blast
  qed
  moreover show "inode fs' k = inode fs k"
    using names k(2) by simp
  ultimately show "contents fs' k = contents fs k"
    by (cases "inode fs k") (auto simp: contents_def bytes)
qed

lemma write_inv:
  assumes inv: "store_inv c fs" and h: "hex_hash h" and cwd: "fs_cwd fs' = fs_cwd fs"
    and names: "inode fs' = (inode fs)(partial_key c fs h \<mapsto> i)"
    and bytes: "fs_data fs' = (fs_data fs)(i := d)"
    and own: "inode fs (partial_key c fs h) = Some i \<or> i = fs_next fs" and ok: "fs_ok fs'"
  shows "store_inv c fs'"
    "cas_of c fs' = (cas_of c fs)\<lparr>partials := (partials (cas_of c fs))(h \<mapsto> d)\<rparr>"
proof -
  note frame = write_frame [OF inv h cwd names bytes own]
  have self: "contents fs' (partial_key c fs h) = Some d"
    by (simp add: contents_def names bytes)
  show cas: "cas_of c fs' = (cas_of c fs)\<lparr>partials := (partials (cas_of c fs))(h \<mapsto> d)\<rparr>"
    using h by (auto simp: cas_of_def keys_cwd [OF cwd] frame(1) self partial_key_inj fun_eq_iff)
  have "unshared c fs'"
    unfolding unshared_def store_keys_cwd [OF cwd] keys_cwd [OF cwd]
  proof (intro allI impI)
    fix h' k j
    assume *: "hex_hash h'" "inode fs' (partial_key c fs h') = Some j" "k \<in> store_keys c fs"
      "inode fs' k = Some j"
    have "h' = h \<and> j = i \<or> h' \<noteq> h \<and> inode fs (partial_key c fs h') = Some j \<and> j \<noteq> i"
      using * h frame(2,3) [of "partial_key c fs h'"] names
      by (cases "h' = h") (auto simp: partial_key_inj)
    moreover have "k = partial_key c fs h \<and> j = i \<or> inode fs k = Some j \<and> j \<noteq> i"
      using * frame(2,3) [of k] names by (cases "k = partial_key c fs h") auto
    ultimately show "k = partial_key c fs h'"
      using * store_invD(3) [OF inv] unfolding unshared_def by blast
  qed
  then show "store_inv c fs'"
    using inv ok cas by (auto simp: store_inv_def)
qed

lemma delete_inv:
  assumes inv: "store_inv c fs" and fs': "fs' = fs\<lparr>fs_files := AList.delete k (fs_files fs)\<rparr>"
  shows "store_inv c fs'" and "contents fs' q = (if q = k then None else contents fs q)"
proof -
  have cwd: "fs_cwd fs' = fs_cwd fs" by (simp add: fs')
  show cont: "contents fs' q = (if q = k then None else contents fs q)" for q
    by (simp add: fs' contents_def)
  have "fs_ok fs'"
    using store_invD(2) [OF inv] by (auto simp: fs_ok_def fs')
  moreover have "unshared c fs'"
    using store_invD(3) [OF inv]
    unfolding unshared_def store_keys_cwd [OF cwd] keys_cwd [OF cwd] by (auto simp: fs')
  moreover have "committed (cas_of c fs') h = Some d \<Longrightarrow> committed (cas_of c fs) h = Some d" for h d
    by (auto simp: cas_of_def cont keys_cwd [OF cwd] split: if_splits)
  ultimately show "store_inv c fs'"
    using inv by (auto simp: store_inv_def)
qed

lemma rename_inv:
  assumes inv: "store_inv c fs" and h: "hex_hash h" and i: "inode fs (partial_key c fs h) = Some i"
    and hash: "ComputeHash (fs_data fs i) = h"
    and fs': "fs' = fs\<lparr>fs_files := AList.update (chunk_key c fs h) i
                (AList.delete (partial_key c fs h) (fs_files fs))\<rparr>"
  shows "store_inv c fs'"
    "cas_of c fs' = \<lparr>committed = (committed (cas_of c fs))(h \<mapsto> fs_data fs i),
                     partials = (partials (cas_of c fs))(h := None)\<rparr>"
proof -
  have cwd: "fs_cwd fs' = fs_cwd fs" by (simp add: fs')
  show cas: "cas_of c fs' = \<lparr>committed = (committed (cas_of c fs))(h \<mapsto> fs_data fs i),
                     partials = (partials (cas_of c fs))(h := None)\<rparr>"
    using h by (auto simp: cas_of_def keys_cwd [OF cwd] fun_eq_iff contents_def chunk_key_inj
        partial_key_inj) (auto simp: fs' chunk_key_inj partial_key_inj)
  have "fs_ok fs'"
    using store_invD(2) [OF inv] i by (auto simp: fs_ok_def fs')
  moreover have "unshared c fs'"
    unfolding unshared_def store_keys_cwd [OF cwd] keys_cwd [OF cwd]
  proof (intro allI impI)
    fix h' k j
    assume *: "hex_hash h'" "inode fs' (partial_key c fs h') = Some j" "k \<in> store_keys c fs"
      "inode fs' k = Some j"
    then have p: "inode fs (partial_key c fs h') = Some j" "partial_key c fs h' \<noteq> partial_key c fs h"
      by (auto simp: fs' split: if_splits)
    then have "j \<noteq> i"
      using i h *(1) store_invD(3) [OF inv] unfolding unshared_def by (metis in_store_keys(2))
    then have "inode fs k = Some j"
      using *(4) by (auto simp: fs' split: if_splits)
    then show "k = partial_key c fs h'"
      using * p store_invD(3) [OF inv] unfolding unshared_def by blast
  qed
  ultimately show "store_inv c fs'"
    using inv hash cas by (auto simp: store_inv_def)
qed

lemma same_files_inv:
  assumes "same_files fs fs'"
  shows "store_inv c fs' = store_inv c fs" "cas_of c fs' = cas_of c fs"
proof -
  note same = same_filesD [OF assms]
  show cas: "cas_of c fs' = cas_of c fs"
    unfolding cas_of_def keys_cwd [OF same(2)] same(7) ..
  show "store_inv c fs' = store_inv c fs"
    unfolding store_inv_def unshared_def cas store_keys_cwd [OF same(2)] keys_cwd [OF same(2)]
    by (simp add: same)
qed

text \<open>Changes elsewhere in the file system leave the store alone.\<close>

lemma elsewhere_inv:
  assumes inv: "store_inv c fs" and ok: "fs_ok fs'" and cwd: "fs_cwd fs' = fs_cwd fs"
    and keep: "\<And>k. k \<in> store_keys c fs \<Longrightarrow> inode fs' k = inode fs k \<and> contents fs' k = contents fs k"
  shows "store_inv c fs'" "cas_of c fs' = cas_of c fs"
proof -
  show cas: "cas_of c fs' = cas_of c fs"
    using keep unfolding cas_of_def keys_cwd [OF cwd] by (auto simp: fun_eq_iff)
  have "unshared c fs'"
    using store_invD(3) [OF inv] keep
    unfolding unshared_def store_keys_cwd [OF cwd] keys_cwd [OF cwd] by simp
  then show "store_inv c fs'"
    using inv ok cas by (simp add: store_inv_def)
qed

section \<open>What each operation does to the abstract store\<close>

abbreviation old_partial :: "chunk_store \<Rightarrow> fsys \<Rightarrow> string \<Rightarrow> bytes" where
  "old_partial c fs h \<equiv> (case partials (cas_of c fs) h of None \<Rightarrow> [] | Some b \<Rightarrow> b)"

lemma create_partial:
  assumes inv: "store_inv c fs" and h: "hex_hash h" and p: "key fs p = partial_key c fs h"
    and create: "os_create fs p = (fs1, Inr f)"
  obtains i where "f = (partial_key c fs h, Some i)" "store_inv c fs1" "same_env fs fs1"
    "inode fs1 (partial_key c fs h) = Some i" "fs_data fs1 i = old_partial c fs h"
    "cas_of c fs1 = (cas_of c fs)\<lparr>partials := (partials (cas_of c fs))(h \<mapsto> old_partial c fs h)\<rparr>"
  using create
proof (cases rule: os_create_cases)
  case (2 i)
  then have "partials (cas_of c fs) h = Some (fs_data fs i)"
    using h p by (simp add: cas_of_def contents_def)
  then have "cas_of c fs = (cas_of c fs)\<lparr>partials := (partials (cas_of c fs))(h \<mapsto> old_partial c fs h)\<rparr>"
    by (simp add: fun_upd_idem)
  with 2 inv p show thesis
    using \<open>partials (cas_of c fs) h = Some (fs_data fs i)\<close> by (intro that [of i]) simp_all
next
  case 3
  have old: "old_partial c fs h = []"
    using 3 h p by (simp add: cas_of_def contents_def)
  have "fs_ok fs1"
    using store_invD(2) [OF inv] by (auto simp: 3 fs_ok_def less_Suc_eq)
  moreover have "inode fs1 = (inode fs)(partial_key c fs h \<mapsto> fs_next fs)"
    by (auto simp: 3 p fun_eq_iff)
  moreover have "fs_cwd fs1 = fs_cwd fs" "fs_data fs1 = (fs_data fs)(fs_next fs := [])"
    by (simp_all add: 3)
  ultimately have "store_inv c fs1"
    "cas_of c fs1 = (cas_of c fs)\<lparr>partials := (partials (cas_of c fs))(h \<mapsto> [])\<rparr>"
    using write_inv [OF inv h, of fs1 "fs_next fs" "[]"] by blast+
  with 3 p old show thesis
    by (intro that [of "fs_next fs"]) (simp_all add: same_env_def)
qed simp

lemma append_partial_spec:
  assumes inv: "store_inv c fs" and h: "hex_hash h"
    and op: "append_partial c fs h (ps, e) = (fs', res, rest)"
  shows "store_inv c fs' \<and> same_env fs fs' \<and>
    (cas_of c fs' = cas_of c fs \<and> (\<exists>err. res = Inl err) \<or>
     (\<exists>d. cas_of c fs' = (cas_of c fs)\<lparr>partials := (partials (cas_of c fs))(h \<mapsto> old_partial c fs h @ d)\<rparr> \<and>
       (res = Inr () \<longrightarrow> d = concat ps \<and> rest = [] \<and> e = None)))"
proof -
  obtain p where p: "partialPath c h = Inr p" "key fs p = partial_key c fs h"
    using partialPath_key store_invD(1,2) [OF inv] h by metis
  obtain fs1 r1 where mk: "os_MkdirAll fs (filepath_Dir p) = (fs1, r1)" by force
  then have same: "same_files fs fs1"
    using os_MkdirAll_frame [of fs "filepath_Dir p"] by simp
  note inv1 = same_files_inv [OF same, of c] and sd = same_filesD [OF same]
  obtain fs2 r2 where cr: "os_create fs1 p = (fs2, r2)" by force
  have p1: "key fs1 p = partial_key c fs1 h"
    using p(2) by (simp add: sd(2) keys_cwd(2) [OF sd(2)])
  show ?thesis
  proof (cases r1)
    case (Inl x)
    with op h p mk have "fs' = fs1" "\<exists>err. res = Inl err"
      by (auto simp: append_partial_def)
    with inv inv1 sd(1) show ?thesis by simp
  next
    case (Inr u)
    show ?thesis
    proof (cases r2)
      case (Inl x)
      with cr have "fs2 = fs1" by (cases rule: os_create_cases [OF cr]) auto
      with op h p mk cr Inr Inl have "fs' = fs1" "\<exists>err. res = Inl err"
        by (auto simp: append_partial_def)
      with inv inv1 sd(1) show ?thesis by simp
    next
      case (Inr f)
      obtain i where i: "f = (partial_key c fs1 h, Some i)" "store_inv c fs2" "same_env fs1 fs2"
        "inode fs2 (partial_key c fs1 h) = Some i" "fs_data fs2 i = old_partial c fs1 h"
        "cas_of c fs2 = (cas_of c fs1)\<lparr>partials := (partials (cas_of c fs1))(h \<mapsto> old_partial c fs1 h)\<rparr>"
        using create_partial [OF _ h p1] cr Inr inv inv1(1) by blast
      obtain r3 fs3 where cp: "io_Copy fs2 f (ps, e) = (fs3, r3, rest)"
        and fs': "fs' = fs3" "res = Inr () \<longrightarrow> r3 = Inr ()"
        using op h p mk cr \<open>r1 = Inr u\<close> Inr
        by (auto simp: append_partial_def split: prod.splits sum.splits)
      then obtain d where d: "fs3 = set_data fs2 i (fs_data fs2 i @ d)"
        "r3 = Inr () \<longrightarrow> d = concat ps \<and> rest = [] \<and> e = None"
        using io_Copy_frame [of fs2 "partial_key c fs1 h" i ps e] i(1) by blast
      have cwd: "fs_cwd fs2 = fs_cwd fs1"
        using i(3) by (simp add: same_env_def)
      have names: "inode fs3 = (inode fs2)(partial_key c fs2 h \<mapsto> i)"
        using i(4) by (auto simp: d(1) keys_cwd(2) [OF cwd] fun_upd_idem)
      have own: "inode fs2 (partial_key c fs2 h) = Some i \<or> i = fs_next fs2"
        using i(4) by (simp add: keys_cwd(2) [OF cwd])
      have "fs_ok fs3" using i(2) d(1) by (simp add: store_inv_def)
      then have "store_inv c fs3" and
        "cas_of c fs3 = (cas_of c fs2)\<lparr>partials := (partials (cas_of c fs2))(h \<mapsto> fs_data fs2 i @ d)\<rparr>"
        using write_inv [OF i(2) h _ names _ own, of "fs_data fs2 i @ d"] d(1) by simp_all
      moreover have "same_env fs fs3"
        using sd(1) i(3) d(1) by (simp add: same_env_def)
      ultimately show ?thesis
        using i(5,6) fs' d(2) by (auto simp: inv1(2))
    qed
  qed
qed

lemma AppendPartial_spec:
  assumes inv: "store_inv c fs" and h: "hex_hash h" and op: "AppendPartial c fs h (ps, e) = (fs', res)"
  shows "store_inv c fs' \<and> same_env fs fs' \<and>
    (cas_of c fs' = cas_of c fs \<and> (\<exists>err. res = Inl err) \<or>
     (\<exists>d. cas_of c fs' = (cas_of c fs)\<lparr>partials := (partials (cas_of c fs))(h \<mapsto> old_partial c fs h @ d)\<rparr> \<and>
       (res = Inr () \<longrightarrow> d = concat ps \<and> e = None)))"
proof -
  obtain rest where "append_partial c fs h (ps, e) = (fs', res, rest)"
    using op by (auto simp: AppendPartial_def split: prod.splits)
  from append_partial_spec [OF inv h this] show ?thesis by blast
qed

lemma cas_of_delete_partial:
  assumes "hex_hash h" and "fs' = fs\<lparr>fs_files := AList.delete (partial_key c fs h) (fs_files fs)\<rparr>"
  shows "cas_of c fs' = (cas_of c fs)\<lparr>partials := (partials (cas_of c fs))(h := None)\<rparr>"
proof -
  have cwd: "fs_cwd fs' = fs_cwd fs" by (simp add: assms(2))
  show ?thesis
    using assms(1) by (auto simp: cas_of_def keys_cwd [OF cwd] fun_eq_iff contents_def)
      (auto simp: assms(2) partial_key_inj)
qed

lemma cas_of_delete_chunk:
  assumes "hex_hash h" and "fs' = fs\<lparr>fs_files := AList.delete (chunk_key c fs h) (fs_files fs)\<rparr>"
  shows "cas_of c fs' = (cas_of c fs)\<lparr>committed := (committed (cas_of c fs))(h := None)\<rparr>"
proof -
  have cwd: "fs_cwd fs' = fs_cwd fs" by (simp add: assms(2))
  show ?thesis
    using assms(1) by (auto simp: cas_of_def keys_cwd [OF cwd] fun_eq_iff contents_def)
      (auto simp: assms(2) chunk_key_inj)
qed

lemma remove_partial:
  assumes inv: "store_inv c fs" and h: "hex_hash h" and p: "key fs p = partial_key c fs h"
    and op: "os_Remove fs p = (fs', res)"
  shows "store_inv c fs' \<and> same_env fs fs' \<and>
    (cas_of c fs' = (cas_of c fs)\<lparr>partials := (partials (cas_of c fs))(h := None)\<rparr> \<or>
     cas_of c fs' = cas_of c fs \<and> (\<exists>e. res = Inl e) \<and> fs_fault fs OpRemove (partial_key c fs h))"
  using op
proof (cases rule: os_Remove_cases)
  case (1 e)
  moreover have "cas_of c fs = (cas_of c fs)\<lparr>partials := (partials (cas_of c fs))(h := None)\<rparr>"
    if "inode fs (partial_key c fs h) = None"
    using that h by (auto simp: cas_of_def contents_def fun_eq_iff)
  ultimately show ?thesis using inv p by auto
next
  case (2 i)
  then show ?thesis
    using delete_inv(1) [OF inv] cas_of_delete_partial [OF h] p by (simp add: same_env_def)
next
  case 3
  have "cas_of c fs = (cas_of c fs)\<lparr>partials := (partials (cas_of c fs))(h := None)\<rparr>"
    using 3(2) h p by (auto simp: cas_of_def contents_def fun_eq_iff)
  then show ?thesis
    using same_files_inv [OF 3(3), of c] inv same_filesD(1) [OF 3(3)] by simp
qed

lemma DiscardPartial_spec:
  assumes inv: "store_inv c fs" and h: "hex_hash h" and op: "DiscardPartial c fs h = (fs', res)"
  shows "store_inv c fs' \<and> same_env fs fs' \<and>
    (cas_of c fs' = (cas_of c fs)\<lparr>partials := (partials (cas_of c fs))(h := None)\<rparr> \<or>
     cas_of c fs' = cas_of c fs \<and> fs_fault fs OpRemove (partial_key c fs h) \<and> res \<noteq> Inr ())"
proof -
  obtain p where p: "partialPath c h = Inr p" "key fs p = partial_key c fs h"
    using partialPath_key store_invD(1,2) [OF inv] h by metis
  obtain r where r: "os_Remove fs p = (fs', r)"
    using op p by (auto simp: DiscardPartial_def split: prod.splits sum.splits)
  moreover have "res \<noteq> Inr ()" if "fs_fault fs OpRemove (partial_key c fs h)"
    using op r p that by (auto simp: DiscardPartial_def os_Remove_def Let_def)
  ultimately show ?thesis
    using remove_partial [OF inv h p(2) r] by blast
qed

lemma DeleteChunk_spec:
  assumes inv: "store_inv c fs" and h: "hex_hash h" and op: "DeleteChunk c fs h = (fs', res)"
  shows "store_inv c fs' \<and> same_env fs fs' \<and>
    (if res = Inr () then cas_of c fs' = (cas_of c fs)\<lparr>committed := (committed (cas_of c fs))(h := None)\<rparr>
     else cas_of c fs' = cas_of c fs)"
proof -
  obtain p where p: "chunkPath c h = Inr p" "key fs p = chunk_key c fs h"
    using chunkPath_key store_invD(1,2) [OF inv] h by metis
  then have "os_Remove fs p = (fs', res)"
    using op by (simp add: DeleteChunk_def)
  then show ?thesis
  proof (cases rule: os_Remove_cases)
    case (2 i)
    then show ?thesis
      using delete_inv(1) [OF inv] cas_of_delete_chunk [OF h] p by (simp add: same_env_def)
  next
    case 3
    have "cas_of c fs = (cas_of c fs)\<lparr>committed := (committed (cas_of c fs))(h := None)\<rparr>"
      using 3(2) h p by (auto simp: cas_of_def contents_def fun_eq_iff)
    then show ?thesis
      using 3 same_files_inv [OF 3(3), of c] inv same_filesD(1) [OF 3(3)] by simp
  qed (use inv in auto)
qed

text \<open>
  \<open>CommitPartial\<close> either moves a partial download with the right hash into the store, or leaves the
  committed chunks alone; a partial with the wrong hash is dropped.
\<close>

lemma hash_file:
  assumes "os_Open fs p = Inr f" and "ComputeReaderHash (file_reader fs f) = Inr (a, n)"
  shows "\<exists>d. contents fs (key fs p) = Some d \<and> a = ComputeHash d"
  using assms
  by (auto simp: os_Open_def file_reader_def read_all_def ComputeReaderHash_def Let_def contents_def
      split: if_splits option.splits)

lemma CommitPartial_disj:
  assumes "parseHash h = Inr x" and "partialPath c h = Inr p" and "chunkPath c h = Inr q"
    and "os_MkdirAll fs (filepath_Dir q) = (fs1, r1)" and "os_Rename fs1 p q = (fs2, r2)"
    and "CommitPartial c fs h = (fs', res, call)"
  shows "(\<exists>e. res = Inl e \<and> fs' \<in> {fs, fs1, fst (os_Remove fs p)}) \<or>
    (res = Inr () \<and> r1 = Inr () \<and> r2 = Inr () \<and> fs' = fs2 \<and> call = run_onCommit c fs2 h q \<and>
     (\<exists>d. contents fs (key fs p) = Some d \<and> ComputeHash d = h))"
proof -
  have "fs2 = fs1" if "r2 = Inl e" for e
    using that by (cases rule: os_Rename_cases [OF assms(5)]) auto
  then show ?thesis
    using assms hash_file [of fs p]
    by (fastforce simp: CommitPartial_def split: sum.splits prod.splits if_splits)
qed

lemma CommitPartial_spec:
  assumes inv: "store_inv c fs" and h: "hex_hash h" and op: "CommitPartial c fs h = (fs', res, call)"
  shows "store_inv c fs' \<and> same_env fs fs' \<and>
    (if res = Inr ()
     then \<exists>d. partials (cas_of c fs) h = Some d \<and> ComputeHash d = h \<and>
       cas_of c fs' = \<lparr>committed = (committed (cas_of c fs))(h \<mapsto> d),
                       partials = (partials (cas_of c fs))(h := None)\<rparr>
     else cas_of c fs' = cas_of c fs \<or>
       cas_of c fs' = (cas_of c fs)\<lparr>partials := (partials (cas_of c fs))(h := None)\<rparr>)"
proof -
  obtain p where p: "partialPath c h = Inr p" "key fs p = partial_key c fs h"
    using partialPath_key store_invD(1,2) [OF inv] h by metis
  obtain q where q: "chunkPath c h = Inr q" "key fs q = chunk_key c fs h"
    using chunkPath_key store_invD(1,2) [OF inv] h by metis
  obtain fs1 r1 where mk: "os_MkdirAll fs (filepath_Dir q) = (fs1, r1)" by force
  then have same: "same_files fs fs1"
    using os_MkdirAll_frame [of fs "filepath_Dir q"] by simp
  note inv1 = same_files_inv [OF same, of c] and sd = same_filesD [OF same]
  obtain fs2 r2 where rn: "os_Rename fs1 p q = (fs2, r2)" by force
  from CommitPartial_disj [OF parseHash_hex [OF h] p(1) q(1) mk rn op]
  show ?thesis
  proof (elim disjE exE conjE)
    fix e assume "res = Inl e" "fs' \<in> {fs, fs1, fst (os_Remove fs p)}"
    then show ?thesis
      using inv inv1 sd(1) remove_partial [OF inv h p(2), of "fst (os_Remove fs p)"]
      by (auto simp: prod_eq_iff)
  next
    fix d assume *: "res = Inr ()" "r2 = Inr ()" "fs' = fs2" "contents fs (key fs p) = Some d"
      "ComputeHash d = h"
    have i: "inode fs1 (partial_key c fs1 h) = Some i \<Longrightarrow> fs_data fs1 i = d" for i
      using *(4) p(2) sd by (simp add: contents_def keys_cwd(2) [OF sd(2)])
    from rn show ?thesis
    proof (cases rule: os_Rename_cases)
      case (2 i)
      have keys: "key fs1 p = partial_key c fs1 h" "key fs1 q = chunk_key c fs1 h"
        using p(2) q(2) by (simp_all add: sd(2) keys_cwd [OF sd(2)])
      have "store_inv c fs2" "cas_of c fs2 = \<lparr>committed = (committed (cas_of c fs1))(h \<mapsto> d),
          partials = (partials (cas_of c fs1))(h := None)\<rparr>"
        using rename_inv [of c fs1 h i fs2] 2 i keys h inv inv1(1) *(5) by simp_all
      moreover have "same_env fs fs2"
        using sd(1) 2(3) by (simp add: same_env_def)
      moreover have "partials (cas_of c fs) h = Some d"
        using *(4) h p(2) by (simp add: cas_of_def)
      ultimately show ?thesis
        using * inv1(2) by simp
    qed (use * in simp)
  qed
qed

lemma PutChunkFromReader_spec:
  assumes inv: "store_inv c fs" and h: "hex_hash h"
    and op: "PutChunkFromReader c fs h (ps, e) = (fs', res, call)"
  shows "store_inv c fs' \<and> same_env fs fs' \<and>
    (\<forall>h'. h' \<noteq> h \<longrightarrow> partials (cas_of c fs') h' = partials (cas_of c fs) h') \<and>
    (if res = Inr ()
     then e = None \<and> ComputeHash (concat ps) = h \<and>
       committed (cas_of c fs') = (committed (cas_of c fs))(h \<mapsto> concat ps) \<and>
       partials (cas_of c fs') h = None
     else committed (cas_of c fs') = committed (cas_of c fs))"
proof -
  obtain fs1 r1 where d1: "DiscardPartial c fs h = (fs1, r1)" by force
  note s1 = DiscardPartial_spec [OF inv h d1]
  show ?thesis
  proof (cases r1)
    case (Inl x)
    with op d1 have "fs' = fs1" "res = Inl x" by (simp_all add: PutChunkFromReader_def)
    with s1 show ?thesis by auto
  next
    case (Inr u)
    have cas1: "cas_of c fs1 = (cas_of c fs)\<lparr>partials := (partials (cas_of c fs))(h := None)\<rparr>"
      using s1 Inr by auto
    obtain fs2 r2 where a2: "AppendPartial c fs1 h (ps, e) = (fs2, r2)" by force
    have "store_inv c fs1" using s1 by blast
    note s2 = AppendPartial_spec [OF this h a2]
    then have inv2: "store_inv c fs2" by blast
    have env2: "same_env fs fs2"
      using s1 s2 same_env_trans by blast
    show ?thesis
    proof (cases r2)
      case (Inl x)
      with op d1 Inr a2 have res: "fs' = fst (DiscardPartial c fs2 h)" "res = Inl x"
        by (simp_all add: PutChunkFromReader_def)
      obtain fs3 r3 where d3: "DiscardPartial c fs2 h = (fs3, r3)" by force
      from DiscardPartial_spec [OF inv2 h d3] res d3 s2 cas1 env2 same_env_trans show ?thesis
        by auto
    next
      case (Inr v)
      with op d1 \<open>r1 = Inr u\<close> a2 have cm: "CommitPartial c fs2 h = (fs', res, call)"
        by (simp add: PutChunkFromReader_def)
      have cas2: "e = None" "cas_of c fs2 =
          (cas_of c fs)\<lparr>partials := (partials (cas_of c fs))(h \<mapsto> concat ps)\<rparr>"
        using s2 Inr cas1 by auto
      from CommitPartial_spec [OF inv2 h cm] cas2 env2 same_env_trans show ?thesis
        by (auto split: if_splits)
    qed
  qed
qed

section \<open>The contract of a content-addressed store\<close>

text \<open>
  What the users of the store rely on: \<open>put\<close> stores bytes under their hash or changes nothing, \<open>get\<close>
  returns what was stored, and what is stored under a hash has that hash.
\<close>

locale blob_store =
  fixes inv :: "'s \<Rightarrow> bool"
    and get :: "'s \<Rightarrow> string \<Rightarrow> bytes option"
    and put :: "'s \<Rightarrow> string \<Rightarrow> bytes \<Rightarrow> 's \<times> bool"
  assumes put_inv: "inv s \<Longrightarrow> hex_hash h \<Longrightarrow> inv (fst (put s h d))"
    and put_ok: "inv s \<Longrightarrow> hex_hash h \<Longrightarrow> put s h d = (s', True) \<Longrightarrow> get s' = (get s)(h \<mapsto> d)"
    and put_fail: "inv s \<Longrightarrow> hex_hash h \<Longrightarrow> put s h d = (s', False) \<Longrightarrow> get s' = get s"
    and integrity: "inv s \<Longrightarrow> get s h = Some d \<Longrightarrow> ComputeHash d = h"
begin

lemma put_keeps:
  assumes "inv s" and "hex_hash h" and "get s h' = Some d'"
  shows "\<exists>d''. get (fst (put s h d)) h' = Some d'' \<and> ComputeHash d'' = h'"
proof -
  obtain s' ok where p: "put s h d = (s', ok)" by force
  have "inv s'" using put_inv [OF assms(1,2), of d] p by simp
  moreover have "\<exists>d''. get s' h' = Some d''"
    using put_ok [OF assms(1,2)] put_fail [OF assms(1,2)] p assms(3) by (cases ok) auto
  ultimately show ?thesis
    using integrity p by fastforce
qed

lemma get_unique: "inv s \<Longrightarrow> inv s' \<Longrightarrow> get s h = Some d \<Longrightarrow> get s' h = Some d' \<Longrightarrow> ComputeHash d = ComputeHash d'"
  using integrity by metis

end

definition put_bytes :: "chunk_store \<Rightarrow> fsys \<Rightarrow> string \<Rightarrow> bytes \<Rightarrow> fsys \<times> bool" where
  "put_bytes c fs h d = (case PutChunk c fs h d of (fs', res, _) \<Rightarrow> (fs', res = Inr ()))"

lemma concat_bytes_reader [simp]: "concat (fst (bytes_reader d)) = d" "snd (bytes_reader d) = None"
  by (simp_all add: bytes_reader_def)

lemma PutChunk_spec:
  assumes "store_inv c fs" and "hex_hash h" and "PutChunk c fs h d = (fs', res, call)"
  shows "store_inv c fs' \<and> same_env fs fs' \<and>
    (\<forall>h'. h' \<noteq> h \<longrightarrow> partials (cas_of c fs') h' = partials (cas_of c fs) h') \<and>
    (if res = Inr ()
     then ComputeHash d = h \<and> committed (cas_of c fs') = (committed (cas_of c fs))(h \<mapsto> d) \<and>
       partials (cas_of c fs') h = None
     else committed (cas_of c fs') = committed (cas_of c fs))"
proof -
  have "bytes_reader d = (fst (bytes_reader d), None)"
    by (simp add: prod_eq_iff)
  then have "PutChunkFromReader c fs h (fst (bytes_reader d), None) = (fs', res, call)"
    using assms(3) by (simp add: PutChunk_def)
  from PutChunkFromReader_spec [OF assms(1,2) this] show ?thesis
    unfolding concat_bytes_reader simp_thms .
qed

interpretation cs: blob_store "store_inv c" "\<lambda>fs. committed (cas_of c fs)" "put_bytes c" for c
proof (unfold_locales, goal_cases)
  case (1 fs h d)
  then show ?case
    using PutChunk_spec [of c fs h d] by (cases "PutChunk c fs h d") (auto simp: put_bytes_def)
next
  case (2 fs h d fs')
  then show ?case
    using PutChunk_spec [of c fs h d]
    by (cases "PutChunk c fs h d") (auto simp: put_bytes_def)
next
  case (3 fs h d fs')
  then show ?case
    using PutChunk_spec [of c fs h d] by (cases "PutChunk c fs h d") (auto simp: put_bytes_def)
next
  case (4 fs h d)
  then show ?case by (rule store_invD(4))
qed

section \<open>Without device failures the operations succeed\<close>

text \<open>
  \<open>healthy\<close> says that no operation fails for an outside reason; \<open>room\<close> that no file stands where the
  store needs a directory for \<open>h\<close>, and no directory where it needs a file.
\<close>

definition healthy :: "fsys \<Rightarrow> bool" where
  "healthy fs = ((\<forall>x k. \<not> fs_fault fs x k) \<and> (\<forall>k. fs_limit fs k = None))"

definition room :: "chunk_store \<Rightarrow> fsys \<Rightarrow> string \<Rightarrow> bool" where
  "room c fs h =
     (\<not> is_dir fs (chunk_key c fs h) \<and> \<not> is_dir fs (partial_key c fs h) \<and>
      (\<forall>q \<in> set (prefixes_of (butlast (chunk_key c fs h))) \<union> set (prefixes_of (butlast (partial_key c fs h))).
         inode fs q = None))"

lemma healthyD [simp]: "healthy fs \<Longrightarrow> \<not> fs_fault fs x k" "healthy fs \<Longrightarrow> fs_limit fs k = None"
  by (simp_all add: healthy_def)

lemma healthy_env: "same_env fs fs' \<Longrightarrow> healthy fs' = healthy fs"
  by (simp only: healthy_def same_env_def)

lemma in_prefixes_of: "q \<in> set (prefixes_of k) \<longleftrightarrow> (\<exists>r. k = q @ r)"
proof
  assume "q \<in> set (prefixes_of k)"
  then obtain n where "q = take n k" unfolding prefixes_of_def set_map by blast
  then show "\<exists>r. k = q @ r" by (metis append_take_drop_id)
next
  assume "\<exists>r. k = q @ r"
  then obtain r where "k = q @ r" ..
  then have "q = take (length q) k" "length q \<in> set [0..<Suc (length k)]" by auto
  then show "q \<in> set (prefixes_of k)"
    unfolding prefixes_of_def set_map by (rule image_eqI)
qed

lemma keys_not_prefix:
  "partial_key c fs h \<notin> set (prefixes_of (butlast (partial_key c fs h)))"
  "chunk_key c fs h \<notin> set (prefixes_of (butlast (chunk_key c fs h)))"
  "partial_key c fs h \<notin> set (prefixes_of (butlast (chunk_key c fs h)))"
  "chunk_key c fs h \<notin> set (prefixes_of (butlast (partial_key c fs h)))"
  by (auto simp: in_prefixes_of partial_key_def chunk_key_def butlast_append)

lemma DiscardPartial_healthy:
  assumes "store_inv c fs" and "hex_hash h" and "healthy fs" and "room c fs h"
  obtains fs' where "DiscardPartial c fs h = (fs', Inr ())" "fs_cwd fs' = fs_cwd fs" "fs_dirs fs' = fs_dirs fs"
    "\<And>q. q \<noteq> partial_key c fs h \<Longrightarrow> inode fs' q = inode fs q" "inode fs' (partial_key c fs h) = None"
proof -
  obtain p where p: "partialPath c h = Inr p" "key fs p = partial_key c fs h"
    using partialPath_key store_invD(1,2) [OF assms(1)] assms(2) by metis
  have "missing fs (partial_key c fs h) = ErrNotExist"
    using assms(4) by (auto simp: missing_def room_def list_ex_iff)
  then show thesis
    using assms p that
    by (cases "inode fs (partial_key c fs h)")
      (auto simp: DiscardPartial_def os_Remove_def Let_def room_def)
qed

lemma AppendPartial_healthy:
  assumes "store_inv c fs" and "hex_hash h" and "healthy fs" and "room c fs h"
  obtains fs' where "AppendPartial c fs h (ps, None) = (fs', Inr ())" "fs_cwd fs' = fs_cwd fs"
    "\<And>q. q \<noteq> partial_key c fs h \<Longrightarrow> inode fs' q = inode fs q"
    "\<And>q. is_dir fs' q \<Longrightarrow> is_dir fs q \<or> q \<in> set (prefixes_of (butlast (partial_key c fs h)))"
proof -
  let ?k = "partial_key c fs h"
  obtain p where p: "partialPath c h = Inr p" "key fs p = ?k" "key fs (filepath_Dir p) = butlast ?k"
    using partialPath_key store_invD(1,2) [OF assms(1)] assms(2) by metis
  define fs1 where "fs1 = fs\<lparr>fs_dirs := prefixes_of (butlast ?k) @ fs_dirs fs\<rparr>"
  have mk: "os_MkdirAll fs (filepath_Dir p) = (fs1, Inr ())"
    using assms(3,4) p(3) by (auto simp: os_MkdirAll_def fs1_def Let_def room_def list_ex_iff)
  have dirs: "is_dir fs1 q = (is_dir fs q \<or> q \<in> set (prefixes_of (butlast ?k)))" for q
    by (auto simp: fs1_def is_dir_def)
  then have "is_dir fs1 (butlast ?k)" "\<not> is_dir fs1 ?k"
    using assms(4) keys_not_prefix(1) by (auto simp: room_def)
  then obtain fs2 i where cr: "os_create fs1 p = (fs2, Inr (?k, Some i))" "fs_dirs fs2 = fs_dirs fs1"
    "fs_cwd fs2 = fs_cwd fs1" "fs_fault fs2 = fs_fault fs" "fs_limit fs2 = fs_limit fs"
    "\<And>q. q \<noteq> ?k \<Longrightarrow> inode fs2 q = inode fs1 q"
    using assms(3) p(2)
    by (cases "inode fs1 ?k") (auto simp: os_create_def fs1_def Let_def)
  have "AppendPartial c fs h (ps, None) = (set_data fs2 i (fs_data fs2 i @ concat ps), Inr ())"
    using assms(2,3) p(1) mk cr
    by (simp add: AppendPartial_def append_partial_def io_Copy_unlimited handle_Sync_def)
  then show thesis
    using cr by (intro that [of "set_data fs2 i (fs_data fs2 i @ concat ps)"]) (auto simp: fs1_def is_dir_def)
qed

lemma CommitPartial_healthy:
  assumes inv: "store_inv c fs" and h: "hex_hash h" and healthy: "healthy fs" and room: "room c fs h"
    and d: "partials (cas_of c fs) h = Some d" and hash: "ComputeHash d = h"
  obtains fs' where
    "CommitPartial c fs h = (fs', Inr (), if onCommit c then Some (h, int (length d)) else None)"
proof -
  obtain p where p: "partialPath c h = Inr p" "key fs p = partial_key c fs h"
    using partialPath_key store_invD(1,2) [OF inv] h by metis
  obtain q where q: "chunkPath c h = Inr q" "key fs q = chunk_key c fs h"
    "key fs (filepath_Dir q) = butlast (chunk_key c fs h)"
    using chunkPath_key store_invD(1,2) [OF inv] h by metis
  define fs1 where "fs1 = fs\<lparr>fs_dirs := prefixes_of (butlast (chunk_key c fs h)) @ fs_dirs fs\<rparr>"
  have mk: "os_MkdirAll fs (filepath_Dir q) = (fs1, Inr ())"
    using healthy room q(3) by (auto simp: os_MkdirAll_def fs1_def Let_def room_def list_ex_iff)
  obtain i where i: "inode fs (partial_key c fs h) = Some i" "fs_data fs i = d"
    using d h by (auto simp: cas_of_def contents_def)
  have dirs: "is_dir fs1 (butlast (chunk_key c fs h))" "\<not> is_dir fs1 (chunk_key c fs h)"
    using room keys_not_prefix(2) by (auto simp: room_def fs1_def is_dir_def)
  define fs2 where "fs2 = fs1\<lparr>fs_files := AList.update (chunk_key c fs h) i
    (AList.delete (partial_key c fs h) (fs_files fs1))\<rparr>"
  have rn: "os_Rename fs1 p q = (fs2, Inr ())"
    using dirs i healthy p(2) q(2) by (simp add: os_Rename_def Let_def fs1_def fs2_def)
  have st: "os_Stat fs2 q = Inr \<lparr>fi_IsDir = False, fi_Size = int (length d), fi_Perm = fs_mode fs i\<rparr>"
    using healthy i(2) q(2) by (simp add: os_Stat_def fs2_def fs1_def Let_def)
  have op: "os_Open fs p = Inr (partial_key c fs h, Some i)"
    "ComputeReaderHash (file_reader fs (partial_key c fs h, Some i)) = Inr (h, int (length d))"
    using healthy p(2) i hash
    by (simp_all add: os_Open_def Let_def ComputeReaderHash_def file_reader_def read_all_def)
  show thesis
    using h p(1) q(1) op mk rn st
    by (intro that [of fs2]) (simp add: CommitPartial_def run_onCommit_def)
qed

lemma PutChunk_healthy:
  assumes inv: "store_inv c fs" and h: "h = ComputeHash d" and healthy: "healthy fs" and room: "room c fs h"
  obtains fs' where
    "PutChunk c fs h d = (fs', Inr (), if onCommit c then Some (h, int (length d)) else None)"
proof -
  have hex: "hex_hash h" using h by simp
  obtain fs1 where d1: "DiscardPartial c fs h = (fs1, Inr ())" "fs_cwd fs1 = fs_cwd fs" "fs_dirs fs1 = fs_dirs fs"
    "\<And>q. q \<noteq> partial_key c fs h \<Longrightarrow> inode fs1 q = inode fs q" "inode fs1 (partial_key c fs h) = None"
    using DiscardPartial_healthy [OF inv hex healthy room] by metis
  note s1 = DiscardPartial_spec [OF inv hex d1(1)]
  have inv1: "store_inv c fs1" "healthy fs1" using s1 healthy healthy_env by auto
  have room1: "room c fs1 h"
    using room d1(3-5) unfolding room_def keys_cwd [OF d1(2)] is_dir_def by metis
  obtain fs2 where a2: "AppendPartial c fs1 h (fst (bytes_reader d), None) = (fs2, Inr ())"
    "fs_cwd fs2 = fs_cwd fs1" "\<And>q. q \<noteq> partial_key c fs1 h \<Longrightarrow> inode fs2 q = inode fs1 q"
    "\<And>q. is_dir fs2 q \<Longrightarrow> is_dir fs1 q \<or> q \<in> set (prefixes_of (butlast (partial_key c fs1 h)))"
    using AppendPartial_healthy [OF inv1(1) hex inv1(2) room1] by metis
  note s2 = AppendPartial_spec [OF inv1(1) hex a2(1)]
  have inv2: "store_inv c fs2" "healthy fs2" using s2 inv1 healthy_env by auto
  have room2: "room c fs2 h"
    using room1 a2(3,4) keys_not_prefix [of c fs1 h] unfolding room_def keys_cwd [OF a2(2)]
    by (metis Un_iff)
  have "partials (cas_of c fs1) h = None"
    using d1(5) hex by (simp add: cas_of_def contents_def keys_cwd [OF d1(2)])
  then have "partials (cas_of c fs2) h = Some d" using s2 by auto
  then obtain fs3 where "CommitPartial c fs2 h = (fs3, Inr (), if onCommit c then Some (h, int (length d)) else None)"
    using CommitPartial_healthy [OF inv2(1) hex inv2(2) room2] h by metis
  moreover have "(fst (bytes_reader d), None) = bytes_reader d" by (simp add: prod_eq_iff)
  ultimately show thesis
    using d1(1) a2(1) by (intro that) (simp add: PutChunk_def PutChunkFromReader_def)
qed

section \<open>Runs of the store\<close>

text \<open>
  A run interleaves, in any order, the operations of the store on hexadecimal hashes with any
  outcome, changes of what the device refuses, and changes of files that are not the store's.
\<close>

inductive store_step :: "chunk_store \<Rightarrow> fsys \<Rightarrow> fsys \<Rightarrow> bool" for c where
  put: "hex_hash h \<Longrightarrow> PutChunkFromReader c fs h r = (fs', res, call) \<Longrightarrow> store_step c fs fs'"
| append: "hex_hash h \<Longrightarrow> AppendPartial c fs h r = (fs', res) \<Longrightarrow> store_step c fs fs'"
| commit: "hex_hash h \<Longrightarrow> CommitPartial c fs h = (fs', res, call) \<Longrightarrow> store_step c fs fs'"
| discard: "hex_hash h \<Longrightarrow> DiscardPartial c fs h = (fs', res) \<Longrightarrow> store_step c fs fs'"
| delete: "hex_hash h \<Longrightarrow> DeleteChunk c fs h = (fs', res) \<Longrightarrow> store_step c fs fs'"
| device: "store_step c fs (fs\<lparr>fs_fault := f, fs_limit := l\<rparr>)"
| other: "fs_ok fs' \<Longrightarrow> fs_cwd fs' = fs_cwd fs \<Longrightarrow>
    (\<And>k. k \<in> store_keys c fs \<Longrightarrow> inode fs' k = inode fs k \<and> contents fs' k = contents fs k) \<Longrightarrow>
    store_step c fs fs'"

lemma store_step_inv: "store_step c fs fs' \<Longrightarrow> store_inv c fs \<Longrightarrow> store_inv c fs'"
proof (induction rule: store_step.induct)
  case (put h fs r fs' res call)
  then show ?case using PutChunkFromReader_spec [of c fs h "fst r" "snd r"] by (simp add: prod_eq_iff)
next
  case (append h fs r fs' res)
  then show ?case using AppendPartial_spec [of c fs h "fst r" "snd r"] by (simp add: prod_eq_iff)
next
  case (commit h fs fs' res call)
  then show ?case using CommitPartial_spec by blast
next
  case (discard h fs fs' res)
  then show ?case using DiscardPartial_spec by blast
next
  case (delete h fs fs' res)
  then show ?case using DeleteChunk_spec by blast
next
  case (device fs f l)
  then show ?case
    by (simp add: store_inv_def fs_ok_def unshared_def cas_of_def store_keys_def chunk_key_def
        partial_key_def contents_def)
next
  case (other fs' fs)
  then show ?case by (rule elsewhere_inv(1) [rotated])
qed

lemma store_run_inv: "(store_step c)\<^sup>*\<^sup>* fs fs' \<Longrightarrow> store_inv c fs \<Longrightarrow> store_inv c fs'"
  by (induction rule: rtranclp_induct) (auto intro: store_step_inv)

lemma mkdirs_frame: "mkdirs fs ds = (fs', res) \<Longrightarrow> same_files fs fs'"
proof (induction ds arbitrary: fs)
  case (Cons d ds)
  obtain fs1 r where mk: "os_MkdirAll fs d = (fs1, r)" by force
  then have "same_files fs fs1" using os_MkdirAll_frame [of fs d] by simp
  moreover have "same_files fs1 fs'"
    using Cons mk by (cases r) auto
  ultimately show ?case by (simp add: same_files_def same_env_def)
qed simp

lemma wf_store_at [simp]:
  "dir \<noteq> [] \<Longrightarrow> wf_store (store_at dir)" "wf_store (SetOnCommit c) = wf_store c"
  by (simp_all add: wf_store_def store_at_def SetOnCommit_def del: filepath_Join.simps)

lemma SetOnCommit_inv [simp]:
  "store_inv (SetOnCommit c) fs = store_inv c fs" "cas_of (SetOnCommit c) fs = cas_of c fs"
proof -
  have keys: "chunk_key (SetOnCommit c) = chunk_key c" "partial_key (SetOnCommit c) = partial_key c"
    by (simp_all add: fun_eq_iff chunk_key_def partial_key_def SetOnCommit_def)
  show "cas_of (SetOnCommit c) fs = cas_of c fs"
    unfolding cas_of_def keys ..
  then show "store_inv (SetOnCommit c) fs = store_inv c fs"
    by (simp add: store_inv_def unshared_def store_keys_def keys)
qed

lemma NewChunkStore_inv:
  assumes "NewChunkStore fs dir = (fs', Inr c)" and "fs_ok fs" and "\<forall>k \<in> store_keys c fs. inode fs k = None"
  shows "store_inv c fs'"
proof -
  have same: "same_files fs fs'"
    using assms(1) by (auto simp: NewChunkStore_def Let_def simp del: mkdirs.simps
        dest: mkdirs_frame split: prod.splits sum.splits)
  have "wf_store c"
    using assms(1) by (auto simp: NewChunkStore_def Let_def split: prod.splits sum.splits if_splits)
  moreover have "unshared c fs"
    using assms(3) by (auto simp: unshared_def)
  moreover have "committed (cas_of c fs) h = None" for h
    using assms(3) by (simp add: cas_of_def contents_def)
  ultimately show ?thesis
    using assms(2) unfolding same_files_inv(1) [OF same] by (simp add: store_inv_def)
qed

lemma GetChunkReader_committed:
  assumes "store_inv c fs" and "hex_hash h" and "GetChunkReader c fs h = Inr (f, n)"
    and "read_all fs f = Inr d"
  shows "committed (cas_of c fs) h = Some d \<and> n = int (length d)"
proof -
  obtain q where "chunkPath c h = Inr q" "key fs q = chunk_key c fs h"
    using chunkPath_key store_invD(1,2) [OF assms(1)] assms(2) by metis
  then show ?thesis
    using assms
    by (auto simp: GetChunkReader_def os_Open_def handle_Stat_def read_all_def cas_of_def contents_def
        Let_def split: if_splits option.splits sum.splits)
qed

lemma GetChunkReader_healthy:
  assumes "store_inv c fs" and "hex_hash h" and "healthy fs" and "committed (cas_of c fs) h = Some d"
  obtains f where "GetChunkReader c fs h = Inr (f, int (length d))" "read_all fs f = Inr d"
    "HasChunk c fs h" "CommittedChunkSize c fs h = Some (int (length d))"
proof -
  obtain q where q: "chunkPath c h = Inr q" "key fs q = chunk_key c fs h"
    using chunkPath_key store_invD(1,2) [OF assms(1)] assms(2) by metis
  obtain i where i: "inode fs (chunk_key c fs h) = Some i" "fs_data fs i = d"
    using assms(2,4) by (auto simp: cas_of_def contents_def)
  show thesis
    using assms(3) q i
    by (intro that [of "(chunk_key c fs h, Some i)"])
      (simp_all add: GetChunkReader_def os_Open_def handle_Stat_def read_all_def os_Stat_def
        HasChunk_def CommittedChunkSize_def Let_def)
qed

lemma HasChunk_committed:
  assumes "store_inv c fs" and "hex_hash h" and "HasChunk c fs h"
  shows "\<exists>d. committed (cas_of c fs) h = Some d"
proof -
  obtain q where "chunkPath c h = Inr q" "key fs q = chunk_key c fs h"
    using chunkPath_key store_invD(1,2) [OF assms(1)] assms(2) by metis
  then show ?thesis
    using assms(2,3) by (auto simp: HasChunk_def os_Stat_def cas_of_def contents_def Let_def
        split: if_splits option.splits)
qed

section \<open>A file system for the witnesses\<close>

definition blank_fs :: fsys where
  "blank_fs =
     \<lparr>fs_files = [], fs_dirs = [], fs_data = (\<lambda>_. []), fs_mode = (\<lambda>_. 0), fs_next = 0,
      fs_cwd = [], fs_fault = (\<lambda>_ _. False), fs_limit = (\<lambda>_. None)\<rparr>"

lemma blank_fs_ok [simp]: "fs_ok blank_fs" "healthy blank_fs" "inode blank_fs k = None"
  "same_env blank_fs fs \<Longrightarrow> healthy fs"
  by (auto simp: fs_ok_def healthy_def blank_fs_def same_env_def)

lemma blank_store [simp]: "store_inv (store_at ''/s'') blank_fs"
  by (simp add: store_inv_def unshared_def cas_of_def contents_def)

lemma store_at_hook [simp]: "\<not> onCommit (store_at dir)"
  by (simp add: store_at_def del: filepath_Join.simps)

lemma blank_room [simp]: "room (store_at ''/s'') blank_fs h"
  by (simp add: room_def is_dir_def chunk_key_def partial_key_def)
    (simp add: blank_fs_def)

lemma blank_new: "NewChunkStore blank_fs ''/s'' = (fs', res) \<Longrightarrow> res = Inr (store_at ''/s'') \<and> same_files blank_fs fs'"
proof -
  assume a: "NewChunkStore blank_fs ''/s'' = (fs', res)"
  have mk: "os_MkdirAll fs p = (fst (os_MkdirAll fs p), Inr ())" if "same_files blank_fs fs" for fs p
    using that by (auto simp: os_MkdirAll_def Let_def same_files_def same_env_def blank_fs_def list_ex_iff)
  have ok: "\<exists>fs'. mkdirs fs ds = (fs', Inr ()) \<and> same_files blank_fs fs'" if "same_files blank_fs fs" for fs ds
    using that
  proof (induction ds arbitrary: fs)
    case (Cons d ds)
    obtain fs1 where fs1: "os_MkdirAll fs d = (fs1, Inr ())"
      using mk [OF Cons.prems, of d] by blast
    then have "same_files blank_fs fs1"
      using os_MkdirAll_frame [of fs d] Cons.prems by (simp add: same_files_def same_env_def)
    with Cons.IH fs1 show ?case by simp
  qed simp
  from a ok [of blank_fs] show ?thesis
    by (auto simp: NewChunkStore_def Let_def simp del: mkdirs.simps split: prod.splits sum.splits)
      (metis Inl_Inr_False Pair_inject same_files_refl)+
qed

text \<open>The same with one committed chunk.\<close>

definition stock_fs :: "bytes \<Rightarrow> fsys" where
  "stock_fs d =
     blank_fs\<lparr>fs_files := [(chunk_key (store_at ''/s'') blank_fs (ComputeHash d), 0)],
              fs_data := (\<lambda>_. d), fs_next := 1\<rparr>"

lemma stock_key: "chunk_key (store_at ''/s'') (stock_fs d) = chunk_key (store_at ''/s'') blank_fs"
  by (simp add: chunk_key_def stock_fs_def fun_eq_iff)

lemma stock_inode:
  "inode (stock_fs d) k = (if k = chunk_key (store_at ''/s'') blank_fs (ComputeHash d) then Some 0 else None)"
  by (simp add: stock_fs_def)

lemma stock_committed:
  "committed (cas_of (store_at ''/s'') (stock_fs d)) h = (if h = ComputeHash d then Some d else None)"
proof -
  have "fs_data (stock_fs d) = (\<lambda>_. d)" by (simp add: stock_fs_def)
  then show ?thesis by (auto simp: cas_of_def contents_def stock_key stock_inode chunk_key_inj)
qed

lemma stock_fs_ok [simp]:
  "fs_ok (stock_fs d)" "healthy (stock_fs d)" "store_inv (store_at ''/s'') (stock_fs d)"
proof -
  show ok: "fs_ok (stock_fs d)" by (auto simp: fs_ok_def stock_fs_def blank_fs_def)
  show "healthy (stock_fs d)" by (simp add: healthy_def stock_fs_def blank_fs_def)
  have "unshared (store_at ''/s'') (stock_fs d)"
    unfolding unshared_def stock_inode by (simp add: chunk_key_def partial_key_def)
  with ok show "store_inv (store_at ''/s'') (stock_fs d)"
    by (auto simp: store_inv_def stock_committed split: if_splits)
qed

section \<open>Properties\<close>

text \<open>
  C7. Content addressing is never violated: start with a new store and interleave puts, appends,
  commits, discards and deletions on any hexadecimal hashes, with any device failures and any changes of files
  outside the store; what \<open>GetChunkReader\<close> then delivers for a hash has that hash, and
  the size it announces.
\<close>
theorem chunk_store_integrity:
  assumes "NewChunkStore fs0 dir = (fs1, Inr c0)" and "fs_ok fs0"
    and "\<forall>k \<in> store_keys c0 fs0. inode fs0 k = None"
    and "c = c0 \<or> c = SetOnCommit c0" and "(store_step c)\<^sup>*\<^sup>* fs1 fs"
    and "hex_hash h" and "GetChunkReader c fs h = Inr (f, n)" and "read_all fs f = Inr d"
  shows "ComputeHash d = h \<and> n = int (length d)"
proof -
  have "store_inv c0 fs1" by (rule NewChunkStore_inv [OF assms(1-3)])
  then have "store_inv c fs"
    using assms(4,5) by (auto intro: store_run_inv)
  then show ?thesis
    using GetChunkReader_committed assms(6-8) by (blast intro: cs.integrity)
qed

theorem chunk_store_integrity_witness:
  "\<exists>fs1 fs f n d. NewChunkStore blank_fs ''/s'' = (fs1, Inr (store_at ''/s'')) \<and>
     (store_step (store_at ''/s''))\<^sup>*\<^sup>* fs1 fs \<and>
     GetChunkReader (store_at ''/s'') fs (ComputeHash [7]) = Inr (f, n) \<and> read_all fs f = Inr d \<and>
     ComputeHash d = ComputeHash [7] \<and> n = int (length d)"
proof -
  let ?c = "store_at ''/s''"
  obtain fs1 where new: "NewChunkStore blank_fs ''/s'' = (fs1, Inr ?c)"
    using blank_new by (metis prod.exhaust_sel)
  then have "same_files blank_fs fs1" using blank_new by blast
  have "store_step ?c fs1 blank_fs"
    by (rule store_step.other) (use same_filesD [OF \<open>same_files blank_fs fs1\<close>] in simp_all)
  moreover obtain fs where put: "PutChunk ?c blank_fs (ComputeHash [7]) [7] =
      (fs, Inr (), if onCommit ?c then Some (ComputeHash [7], int (length [7 :: byte])) else None)"
    using PutChunk_healthy [OF blank_store refl blank_fs_ok(2) blank_room] .
  then have "store_step ?c blank_fs fs"
    unfolding PutChunk_def by (rule store_step.put [OF hex_hash_ComputeHash])
  ultimately have run: "(store_step ?c)\<^sup>*\<^sup>* fs1 fs" by auto
  note spec = PutChunk_spec [OF blank_store hex_hash_ComputeHash put]
  have "healthy fs" "store_inv ?c fs" "committed (cas_of ?c fs) (ComputeHash [7]) = Some [7]"
    using spec blank_fs_ok(4) by auto
  then obtain f where f: "GetChunkReader ?c fs (ComputeHash [7]) = Inr (f, int (length [7 :: byte]))"
    "read_all fs f = Inr [7]"
    using GetChunkReader_healthy [of ?c fs "ComputeHash [7]" "[7]"] hex_hash_ComputeHash by blast
  have "\<forall>k \<in> store_keys ?c blank_fs. inode blank_fs k = None" "?c = ?c \<or> ?c = SetOnCommit ?c"
    by simp_all
  note chunk_store_integrity [OF new blank_fs_ok(1) this run hex_hash_ComputeHash f]
  with new run f show ?thesis by blast
qed

text \<open>
  C8. Round trip: on a device without failures \<open>PutChunk\<close> of bytes under their hash succeeds, reports the
  chunk and its size to the commit hook, and \<open>GetChunkReader\<close> then delivers exactly these bytes.
\<close>
theorem put_get_round_trip:
  assumes "store_inv c fs" and "healthy fs" and "room c fs (ComputeHash d)"
  shows "\<exists>fs' f. PutChunk c fs (ComputeHash d) d =
      (fs', Inr (), if onCommit c then Some (ComputeHash d, int (length d)) else None) \<and>
    GetChunkReader c fs' (ComputeHash d) = Inr (f, int (length d)) \<and> read_all fs' f = Inr d \<and>
    HasValidCommittedChunk c fs' (ComputeHash d) (int (length d))"
proof -
  obtain fs' where put: "PutChunk c fs (ComputeHash d) d =
      (fs', Inr (), if onCommit c then Some (ComputeHash d, int (length d)) else None)"
    using PutChunk_healthy [OF assms(1) refl assms(2,3)] .
  note spec = PutChunk_spec [OF assms(1) hex_hash_ComputeHash put]
  then have inv: "store_inv c fs'" "healthy fs'" "committed (cas_of c fs') (ComputeHash d) = Some d"
    using assms(2) healthy_env by auto
  obtain f where "GetChunkReader c fs' (ComputeHash d) = Inr (f, int (length d))" "read_all fs' f = Inr d"
    "HasChunk c fs' (ComputeHash d)" "CommittedChunkSize c fs' (ComputeHash d) = Some (int (length d))"
    using GetChunkReader_healthy [OF inv(1) hex_hash_ComputeHash inv(2,3)] .
  then show ?thesis
    using put by (intro exI [of _ fs'] exI [of _ f]) (simp add: HasValidCommittedChunk_def)
qed

theorem put_get_round_trip_witness:
  "\<exists>fs' f. PutChunk (store_at ''/s'') blank_fs (ComputeHash [7]) [7] = (fs', Inr (), None) \<and>
     GetChunkReader (store_at ''/s'') fs' (ComputeHash [7]) = Inr (f, 1) \<and> read_all fs' f = Inr [7]"
  using put_get_round_trip [of "store_at ''/s''" blank_fs "[7]"] store_at_hook [of "''/s''"]
  by (simp only: blank_store blank_fs_ok blank_room if_False simp_thms length_Cons list.size) fastforce

text \<open>
  C9. Bytes with the wrong hash are refused: \<open>PutChunkFromReader\<close> does not succeed unless the whole
  stream arrived and has the hash it is stored under, and when it does not succeed the committed
  chunks are what they were.
\<close>
theorem put_refuses_wrong_bytes:
  assumes "store_inv c fs" and "hex_hash h" and "ComputeHash (concat ps) \<noteq> h \<or> e \<noteq> None"
    and "PutChunkFromReader c fs h (ps, e) = (fs', res, call)"
  shows "(\<exists>err. res = Inl err) \<and> committed (cas_of c fs') = committed (cas_of c fs)"
  using PutChunkFromReader_spec [OF assms(1,2,4)] assms(3) by (cases res) auto

theorem put_refuses_wrong_bytes_witness:
  "\<exists>fs' err call. PutChunkFromReader (store_at ''/s'') blank_fs (ComputeHash []) ([], Some ErrCanceled) =
     (fs', Inl err, call)"
  using put_refuses_wrong_bytes [of "store_at ''/s''" blank_fs "ComputeHash []" "[]" "Some ErrCanceled"]
  by (metis blank_store hex_hash_ComputeHash option.distinct(1) prod_cases3)

text \<open>
  C10. The name check is on length and prefix only: a hash that passes it, and that \<open>Validate\<close> passes in a
  manifest, can name a file outside the store. In a store under \<open>/var/lib/spider\<close> the hash below makes
  \<open>GetChunkReader\<close> deliver \<open>/etc/passwd\<close> and \<open>DiscardPartial\<close> remove it.
\<close>
theorem chunk_hash_escapes_store:
  assumes "h = ''sha256:'' @ concat (replicate 18 ''../'') @ ''etc/passwd''"
    and "c = store_at ''/var/lib/spider''" and "healthy fs" and "inode fs [''etc'', ''passwd''] = Some i"
  shows "chunk_hash_ok h \<and>
    GetChunkReader c fs h = Inr (([''etc'', ''passwd''], Some i), int (length (fs_data fs i))) \<and>
    snd (DiscardPartial c fs h) = Inr () \<and>
    inode (fst (DiscardPartial c fs h)) [''etc'', ''passwd''] = None"
proof -
  have "chunkPath c h = Inr ''/etc/passwd''" "partialPath c h = Inr ''/etc/passwd''"
    unfolding assms(1,2) by code_simp+
  moreover have "chunk_hash_ok h" unfolding assms(1) by code_simp
  moreover have "resolve cwd ''/etc/passwd'' = [''etc'', ''passwd'']" for cwd
    by (simp add: resolve_def rooted_def has_prefix_def clean_step.simps)
  ultimately show ?thesis
    using assms(3,4)
    by (simp add: GetChunkReader_def DiscardPartial_def os_Open_def os_Remove_def handle_Stat_def Let_def)
qed

theorem chunk_hash_escapes_store_witness:
  "\<exists>fs. inode fs [''etc'', ''passwd''] = Some 0 \<and>
     snd (DiscardPartial (store_at ''/var/lib/spider'') fs
       (''sha256:'' @ concat (replicate 18 ''../'') @ ''etc/passwd'')) = Inr ()"
proof -
  let ?fs = "blank_fs\<lparr>fs_files := [([''etc'', ''passwd''], 0)]\<rparr>"
  have "healthy ?fs" "inode ?fs [''etc'', ''passwd''] = Some 0"
    by (simp_all add: healthy_def blank_fs_def)
  with chunk_hash_escapes_store [OF refl refl this] show ?thesis by blast
qed

end
