(* ===== verification/Float64.thy ===== *)
theory Float64
  imports Prelude "HOL-Library.Log_Nat"
begin

text \<open>
  The \<open>float64\<close> arithmetic of the quota manager and of the scheduler, on rationals: every operation is
  the exact one followed by \<open>fl64\<close>, rounding to a 53-bit significand, ties to even. Exponent range, infinities
  and NaN are left out: the values of the source are watermarks, rates and failure ratios.
\<close>

definition round_even :: "rat \<Rightarrow> int" where
  "round_even x =
     (let f = \<lfloor>x\<rfloor>; r = x - of_int f
      in if r < 1 / 2 then f else if r > 1 / 2 then f + 1 else if even f then f else f + 1)"

definition pow2 :: "int \<Rightarrow> rat" where
  "pow2 e = (if 0 \<le> e then 2 ^ nat e else 1 / 2 ^ nat (- e))"

text \<open>The exponent of the leading bit of a positive rational.\<close>

definition exponent :: "rat \<Rightarrow> int" where
  "exponent x =
     (case quotient_of x of
        (n, d) \<Rightarrow>
          let e = int (floorlog 2 (nat n)) - int (floorlog 2 (nat d))
          in if pow2 e \<le> x then e else e - 1)"

definition fl64 :: "rat \<Rightarrow> rat" where
  "fl64 x =
     (if x = 0 then 0
      else let u = pow2 (exponent \<bar>x\<bar> - 52) in of_int (round_even (x / u)) * u)"

text \<open>Conversion to \<open>int64\<close> truncates; out of range it yields the least integer, as on amd64.\<close>

definition int64_of :: "rat \<Rightarrow> int" where
  "int64_of x =
     (let t = (if 0 \<le> x then \<lfloor>x\<rfloor> else - \<lfloor>- x\<rfloor>)
      in if - (2 ^ 63) \<le> t \<and> t < 2 ^ 63 then t else - (2 ^ 63))"

lemma pow2_pos [simp]: "0 < pow2 e"
  by (simp add: pow2_def)

lemma fl64_0 [simp]: "fl64 0 = 0"
  by (simp add: fl64_def)

lemma round_even_nonneg: "0 \<le> x \<Longrightarrow> 0 \<le> round_even x"
  by (auto simp: round_even_def Let_def)

lemma round_even_of_int [simp]: "round_even (of_int n) = n"
  by (simp add: round_even_def)

lemma fl64_nonneg: "0 \<le> x \<Longrightarrow> 0 \<le> fl64 x"
proof (cases "x = 0")
  case False
  assume "0 \<le> x"
  then have "0 \<le> x / pow2 (exponent \<bar>x\<bar> - 52)"
    by (intro divide_nonneg_pos) auto
  then show ?thesis
    using False round_even_nonneg by (simp add: fl64_def Let_def less_imp_le)
qed simp

lemma int64_of_range: "- (2 ^ 63) \<le> int64_of x \<and> int64_of x < 2 ^ 63"
  by (simp add: int64_of_def Let_def)

end
