(* ===== verification/QuotaManager.thy ===== *)
theory QuotaManager
  imports ChunkStore Float64
begin

text \<open>
  \<open>pkg/cache/manager.go\<close>: the disk quota of the chunk store. The index is two Go maps, here association
  lists: metadata of the chunks and the chunk lists of the pinned artifacts. The mutex makes every
  operation atomic. Operations that touch the disk also return the new file system; the clock
  (\<open>time.Now().Unix()\<close>) is an argument.

  The invariant \<open>quota_ok\<close> says that the reference count of a chunk is the number of pinned artifacts that
  contain it. Reading the index back from disk (\<open>load\<close>) is not modelled.
\<close>

section \<open>The index\<close>

record chunk_meta =
  me_Hash :: string
  me_Size :: int
  me_LastAccess :: int
  me_RefCount :: int

abbreviation zero_meta :: chunk_meta where
  "zero_meta \<equiv> \<lparr>me_Hash = [], me_Size = 0, me_LastAccess = 0, me_RefCount = 0\<rparr>"

record quota_manager =
  qm_cache :: chunk_store
  qm_maxBytes :: int
  qm_lowWatermark :: rat
  qm_highWatermark :: rat
  qm_Chunks :: "(string \<times> chunk_meta) list"
  qm_Pins :: "(string \<times> string list) list"
  qm_path :: string
  qm_dirty :: bool

definition chunk_of :: "quota_manager \<Rightarrow> string \<Rightarrow> chunk_meta" where
  "chunk_of m h = (case map_of (qm_Chunks m) h of Some meta \<Rightarrow> meta | None \<Rightarrow> zero_meta)"

section \<open>Saving\<close>

definition json_of_meta :: "chunk_meta \<Rightarrow> json" where
  "json_of_meta meta =
     JObj [(''hash'', JStr (me_Hash meta)), (''size'', JNum (show_int (me_Size meta))),
           (''lastAccess'', JNum (show_int (me_LastAccess meta))),
           (''refCount'', JNum (show_int (me_RefCount meta)))]"

text \<open>\<open>encoding/json\<close> writes a map as an object with its keys in order.\<close>

definition json_of_map :: "('a \<Rightarrow> json) \<Rightarrow> (string \<times> 'a) list \<Rightarrow> json" where
  "json_of_map f m =
     JObj (map (\<lambda>kv. (fst kv, f (snd kv))) (insertion_sort (\<lambda>a b. str_less (fst a) (fst b)) m))"

definition json_of_index :: "quota_manager \<Rightarrow> json" where
  "json_of_index m =
     JObj [(''chunks'', json_of_map json_of_meta (qm_Chunks m)),
           (''pins'', json_of_map (\<lambda>hs. if hs = [] then JNull else JArr (map JStr hs)) (qm_Pins m))]"

definition save :: "quota_manager \<Rightarrow> fsys \<Rightarrow> quota_manager \<times> fsys \<times> unit result" where
  "save m fs =
     (let tmp = qm_path m @ ''.tmp''
      in case os_WriteFile fs tmp (json_MarshalIndent (json_of_index m)) of
           (fs1, Inl e) \<Rightarrow> (m, fs1, Inl e)
         | (fs1, Inr _) \<Rightarrow>
             (case os_Rename fs1 tmp (qm_path m) of
                (fs2, Inl e) \<Rightarrow> (m, fs2, Inl e)
              | (fs2, Inr _) \<Rightarrow> (m\<lparr>qm_dirty := False\<rparr>, fs2, Inr ())))"

definition Flush :: "quota_manager \<Rightarrow> fsys \<Rightarrow> quota_manager \<times> fsys \<times> unit result" where
  "Flush m fs = (if \<not> qm_dirty m then (m, fs, Inr ()) else save m fs)"

section \<open>Start\<close>

definition init_manager :: "chunk_store \<Rightarrow> int \<Rightarrow> rat \<Rightarrow> rat \<Rightarrow> quota_manager" where
  "init_manager c maxBytes low high =
     \<lparr>qm_cache = c,
      qm_maxBytes = (if maxBytes \<le> 0 then 500 * 1024 * 1024 * 1024 else maxBytes),
      qm_lowWatermark = (if low \<le> 0 then fl64 (80 / 100) else low),
      qm_highWatermark = (if high \<le> 0 then fl64 (90 / 100) else high),
      qm_Chunks = [], qm_Pins = [],
      qm_path = filepath_Join [rootDir c, ''index.json''], qm_dirty = False\<rparr>"

fun reconcile_chunks ::
    "chunk_store \<Rightarrow> fsys \<Rightarrow> int \<Rightarrow> string list \<Rightarrow> (string \<times> chunk_meta) list \<Rightarrow> (string \<times> chunk_meta) list" where
  "reconcile_chunks c fs now [] chunks = chunks"
| "reconcile_chunks c fs now (h # hs) chunks =
     (if map_of chunks h \<noteq> None then reconcile_chunks c fs now hs chunks
      else case GetChunkPath c fs h of
          Inl e \<Rightarrow> reconcile_chunks c fs now hs chunks
        | Inr p \<Rightarrow>
            (case os_Stat fs p of
               Inl e \<Rightarrow> reconcile_chunks c fs now hs chunks
             | Inr st \<Rightarrow>
                 reconcile_chunks c fs now hs
                   (AList.update h \<lparr>me_Hash = h, me_Size = fi_Size st, me_LastAccess = now, me_RefCount = 0\<rparr>
                      chunks)))"

definition reconcileFromDisk :: "quota_manager \<Rightarrow> fsys \<Rightarrow> int \<Rightarrow> quota_manager \<times> fsys \<times> unit result" where
  "reconcileFromDisk m fs now =
     (case ListChunks (qm_cache m) fs of
        Inl e \<Rightarrow> (m, fs, Inl e)
      | Inr hashes \<Rightarrow>
          save (m\<lparr>qm_Chunks := reconcile_chunks (qm_cache m) fs now hashes (qm_Chunks m)\<rparr>) fs)"

section \<open>Use\<close>

definition Touch :: "quota_manager \<Rightarrow> int \<Rightarrow> string \<Rightarrow> int \<Rightarrow> quota_manager" where
  "Touch m now hash sz =
     (let meta = (chunk_of m hash)\<lparr>me_Hash := hash\<rparr>;
          meta = (if sz > 0 then meta\<lparr>me_Size := sz\<rparr> else meta);
          meta = meta\<lparr>me_LastAccess := now\<rparr>
      in m\<lparr>qm_Chunks := AList.update hash meta (qm_Chunks m), qm_dirty := True\<rparr>)"

definition fillSizeLocked :: "quota_manager \<Rightarrow> fsys \<Rightarrow> string \<Rightarrow> chunk_meta \<Rightarrow> chunk_meta" where
  "fillSizeLocked m fs hash meta =
     (if me_Size meta > 0 then meta
      else case CommittedChunkSize (qm_cache m) fs hash of
          Some sz \<Rightarrow> meta\<lparr>me_Size := sz\<rparr>
        | None \<Rightarrow> meta)"

fun pin_chunks :: "fsys \<Rightarrow> string list \<Rightarrow> quota_manager \<Rightarrow> quota_manager" where
  "pin_chunks fs [] m = m"
| "pin_chunks fs (h # hs) m =
     (let meta = fillSizeLocked m fs h ((chunk_of m h)\<lparr>me_Hash := h\<rparr>);
          meta = meta\<lparr>me_RefCount := wrap64 (me_RefCount meta + 1)\<rparr>
      in pin_chunks fs hs (m\<lparr>qm_Chunks := AList.update h meta (qm_Chunks m)\<rparr>))"

definition Pin :: "quota_manager \<Rightarrow> fsys \<Rightarrow> Manifest.manifest option \<Rightarrow> quota_manager \<times> fsys \<times> unit result" where
  "Pin m fs manifest =
     (case manifest of
        None \<Rightarrow> (m, fs, Inr ())
      | Some mf \<Rightarrow>
          if map_of (qm_Pins m) (m_ArtifactID mf) \<noteq> None then save m fs
          else let hashes = AllChunkHashes mf;
                   m1 = m\<lparr>qm_Pins := AList.update (m_ArtifactID mf) hashes (qm_Pins m)\<rparr>
               in save (pin_chunks fs hashes m1) fs)"

fun unpin_chunks :: "string list \<Rightarrow> quota_manager \<Rightarrow> quota_manager" where
  "unpin_chunks [] m = m"
| "unpin_chunks (h # hs) m =
     (let meta = chunk_of m h;
          meta = (if me_RefCount meta > 0 then meta\<lparr>me_RefCount := me_RefCount meta - 1\<rparr> else meta)
      in unpin_chunks hs (m\<lparr>qm_Chunks := AList.update h meta (qm_Chunks m)\<rparr>))"

definition Unpin :: "quota_manager \<Rightarrow> fsys \<Rightarrow> string \<Rightarrow> quota_manager \<times> fsys \<times> unit result" where
  "Unpin m fs artifactID =
     (let hashes = (case map_of (qm_Pins m) artifactID of Some hs \<Rightarrow> hs | None \<Rightarrow> []);
          m1 = m\<lparr>qm_Pins := AList.delete artifactID (qm_Pins m)\<rparr>
      in save (unpin_chunks hashes m1) fs)"

definition Pinned :: "quota_manager \<Rightarrow> string list" where
  "Pinned m = insertion_sort str_less (map fst (qm_Pins m))"

definition RefCount :: "quota_manager \<Rightarrow> string \<Rightarrow> int" where
  "RefCount m hash = me_RefCount (chunk_of m hash)"

definition sum_used :: "(string \<times> chunk_meta) list \<Rightarrow> int" where
  "sum_used chunks = foldl (\<lambda>n kv. wrap64 (n + me_Size (snd kv))) 0 chunks"


section \<open>Eviction\<close>

definition high_mark :: "quota_manager \<Rightarrow> int" where
  "high_mark m = int64_of (fl64 (fl64 (of_int (qm_maxBytes m)) * qm_highWatermark m))"

definition low_mark :: "quota_manager \<Rightarrow> int" where
  "low_mark m = int64_of (fl64 (fl64 (of_int (qm_maxBytes m)) * qm_lowWatermark m))"

definition older :: "string \<times> chunk_meta \<Rightarrow> string \<times> chunk_meta \<Rightarrow> bool" where
  "older a b = (me_LastAccess (snd a) < me_LastAccess (snd b))"

definition candidates :: "(string \<times> chunk_meta) list \<Rightarrow> (string \<times> chunk_meta) list" where
  "candidates chunks = insertion_sort older (filter (\<lambda>kv. \<not> me_RefCount (snd kv) > 0) chunks)"

fun evict_loop ::
    "chunk_store \<Rightarrow> int \<Rightarrow> (string \<times> chunk_meta) list \<Rightarrow> int \<Rightarrow> fsys \<Rightarrow> (string \<times> chunk_meta) list \<Rightarrow> nat \<Rightarrow>
     int \<times> fsys \<times> (string \<times> chunk_meta) list \<times> nat" where
  "evict_loop c target [] used fs chunks evicted = (used, fs, chunks, evicted)"
| "evict_loop c target ((h, meta) # rest) used fs chunks evicted =
     (if used \<le> target then (used, fs, chunks, evicted)
      else case DeleteChunk c fs h of
          (fs', res) \<Rightarrow>
            if (case res of Inl err \<Rightarrow> err \<noteq> ErrNotExist | Inr _ \<Rightarrow> False)
            then evict_loop c target rest used fs' chunks evicted
            else evict_loop c target rest (wrap64 (used - me_Size meta)) fs' (AList.delete h chunks)
                   (Suc evicted))"

definition MaybeEvict :: "quota_manager \<Rightarrow> fsys \<Rightarrow> quota_manager \<times> fsys \<times> nat" where
  "MaybeEvict m fs =
     (let used = sum_used (qm_Chunks m)
      in if used < high_mark m then (m, fs, 0)
         else case evict_loop (qm_cache m) (low_mark m) (candidates (qm_Chunks m)) used fs (qm_Chunks m) 0 of
             (_, fs1, chunks, evicted) \<Rightarrow>
               (case save (m\<lparr>qm_Chunks := chunks\<rparr>) fs1 of (m', fs2, _) \<Rightarrow> (m', fs2, evicted)))"

section \<open>Reference counts\<close>

definition pin_count :: "quota_manager \<Rightarrow> string \<Rightarrow> nat" where
  "pin_count m h = length (filter (\<lambda>p. h \<in> set (snd p)) (qm_Pins m))"

definition quota_ok :: "quota_manager \<Rightarrow> bool" where
  "quota_ok m =
     (wf_alist (qm_Chunks m) \<and> wf_alist (qm_Pins m) \<and> (\<forall>p \<in> set (qm_Pins m). distinct (snd p)) \<and>
      (\<forall>h. RefCount m h = int (pin_count m h)))"

lemma chunk_of_update [simp]:
  "chunk_of (m\<lparr>qm_Chunks := AList.update h meta (qm_Chunks m)\<rparr>) h' = (if h' = h then meta else chunk_of m h')"
  by (simp add: chunk_of_def)

lemma chunk_of_other [simp]:
  "chunk_of (m\<lparr>qm_Pins := p\<rparr>) h = chunk_of m h" "chunk_of (m\<lparr>qm_dirty := b\<rparr>) h = chunk_of m h"
  by (simp_all add: chunk_of_def)

lemma pin_count_other [simp]:
  "pin_count (m\<lparr>qm_Chunks := x\<rparr>) h = pin_count m h" "pin_count (m\<lparr>qm_dirty := b\<rparr>) h = pin_count m h"
  by (simp_all add: pin_count_def)

lemma fillSizeLocked_RefCount [simp]: "me_RefCount (fillSizeLocked m fs h meta) = me_RefCount meta"
  by (simp add: fillSizeLocked_def split: option.splits)

lemma AllChunkHashes_distinct [simp]: "distinct (AllChunkHashes mf)"
  by (simp add: AllChunkHashes_eq distinct_firsts)

lemma pin_chunks_frame [simp]:
  "qm_Pins (pin_chunks fs hs m) = qm_Pins m" "qm_cache (pin_chunks fs hs m) = qm_cache m"
  "qm_path (pin_chunks fs hs m) = qm_path m"
  by (induction hs arbitrary: m) (simp_all add: Let_def)

lemma pin_chunks_wf: "wf_alist (qm_Chunks m) \<Longrightarrow> wf_alist (qm_Chunks (pin_chunks fs hs m))"
  by (induction hs arbitrary: m) (simp_all add: Let_def)

lemma pin_chunks_RefCount:
  "distinct hs \<Longrightarrow> RefCount (pin_chunks fs hs m) h =
     (if h \<in> set hs then wrap64 (RefCount m h + 1) else RefCount m h)"
  by (induction hs arbitrary: m) (auto simp: Let_def RefCount_def)

lemma unpin_chunks_frame [simp]:
  "qm_Pins (unpin_chunks hs m) = qm_Pins m" "qm_cache (unpin_chunks hs m) = qm_cache m"
  "qm_path (unpin_chunks hs m) = qm_path m"
  by (induction hs arbitrary: m) (simp_all add: Let_def)

lemma unpin_chunks_wf: "wf_alist (qm_Chunks m) \<Longrightarrow> wf_alist (qm_Chunks (unpin_chunks hs m))"
  by (induction hs arbitrary: m) (simp_all add: Let_def)

lemma unpin_chunks_RefCount:
  "distinct hs \<Longrightarrow> RefCount (unpin_chunks hs m) h =
     (if h \<in> set hs \<and> RefCount m h > 0 then RefCount m h - 1 else RefCount m h)"
  by (induction hs arbitrary: m) (auto simp: Let_def RefCount_def)

lemma pin_count_le: "pin_count m h \<le> length (qm_Pins m)"
  by (simp add: pin_count_def)

lemma pin_count_update:
  assumes "map_of (qm_Pins m) a = None"
  shows "pin_count (m\<lparr>qm_Pins := AList.update a hs (qm_Pins m)\<rparr>) h =
    pin_count m h + (if h \<in> set hs then 1 else 0)"
proof -
  have "AList.update a hs (qm_Pins m) = qm_Pins m @ [(a, hs)]"
    using assms by (rule update_new)
  then show ?thesis by (simp add: pin_count_def)
qed

lemma pin_count_delete:
  assumes "wf_alist (qm_Pins m)" and "map_of (qm_Pins m) a = Some hs"
  shows "pin_count m h =
    pin_count (m\<lparr>qm_Pins := AList.delete a (qm_Pins m)\<rparr>) h + (if h \<in> set hs then 1 else 0)"
  using filter_delete [OF assms, of "\<lambda>p. h \<in> set (snd p)"] by (simp add: pin_count_def)

lemma save_frame:
  assumes "save m fs = (m', fs', res)"
  shows "m' = m \<or> m' = m\<lparr>qm_dirty := False\<rparr>"
  using assms by (auto simp: save_def Let_def split: prod.splits sum.splits)

lemma quota_ok_dirty [simp]: "quota_ok (m\<lparr>qm_dirty := b\<rparr>) = quota_ok m"
  by (simp add: quota_ok_def RefCount_def)

lemma save_quota_ok: "save m fs = (m', fs', res) \<Longrightarrow> quota_ok m' = quota_ok m"
  by (drule save_frame) auto

lemma Touch_quota_ok:
  assumes "quota_ok m"
  shows "quota_ok (Touch m now h sz)" "qm_Pins (Touch m now h sz) = qm_Pins m"
proof -
  have "RefCount (Touch m now h sz) h' = RefCount m h'" for h'
    by (simp add: RefCount_def Touch_def Let_def)
  moreover show pins: "qm_Pins (Touch m now h sz) = qm_Pins m"
    by (simp add: Touch_def Let_def)
  moreover have "wf_alist (qm_Chunks (Touch m now h sz))"
    using assms by (simp add: Touch_def Let_def quota_ok_def)
  ultimately show "quota_ok (Touch m now h sz)"
    using assms by (simp add: quota_ok_def pin_count_def)
qed

lemma Pin_quota_ok:
  assumes "quota_ok m" and "Pin m fs (Some mf) = (m', fs', res)" and "length (qm_Pins m) + 1 < 2 ^ 63"
  shows "quota_ok m'" "length (qm_Pins m') \<le> length (qm_Pins m) + 1"
    "map_of (qm_Pins m') (m_ArtifactID mf) \<noteq> None"
proof -
  let ?a = "m_ArtifactID mf" and ?hs = "AllChunkHashes mf"
  have "quota_ok m' \<and> length (qm_Pins m') \<le> length (qm_Pins m) + 1 \<and> map_of (qm_Pins m') ?a \<noteq> None"
  proof (cases "map_of (qm_Pins m) ?a")
    case (Some hs)
    then have "save m fs = (m', fs', res)" using assms(2) by (simp add: Pin_def)
    with assms(1) Some show ?thesis by (auto simp: save_quota_ok dest: save_frame)
  next
    case None
    define m1 where "m1 = m\<lparr>qm_Pins := AList.update ?a ?hs (qm_Pins m)\<rparr>"
    have sv: "save (pin_chunks fs ?hs m1) fs = (m', fs', res)"
      using assms(2) None by (simp add: Pin_def Let_def m1_def)
    have count: "pin_count m1 h = pin_count m h + (if h \<in> set ?hs then 1 else 0)" for h
      unfolding m1_def by (rule pin_count_update [OF None])
    have "RefCount (pin_chunks fs ?hs m1) h = int (pin_count m1 h)" for h
    proof -
      have "RefCount m1 h = int (pin_count m h)"
        using assms(1) by (simp add: m1_def RefCount_def quota_ok_def)
      moreover have "int (pin_count m h) + 1 < 2 ^ 63"
        using assms(3) pin_count_le [of m h] by simp
      ultimately show ?thesis
        by (simp add: pin_chunks_RefCount count)
    qed
    moreover have "pin_count (pin_chunks fs ?hs m1) = pin_count m1"
      by (simp add: fun_eq_iff pin_count_def)
    moreover have "wf_alist (qm_Chunks (pin_chunks fs ?hs m1))"
      using assms(1) by (intro pin_chunks_wf) (simp add: m1_def quota_ok_def)
    moreover have "qm_Pins m1 = qm_Pins m @ [(?a, ?hs)]"
      by (simp add: m1_def update_new [OF None])
    moreover from this have "\<forall>p \<in> set (qm_Pins m1). distinct (snd p)" "wf_alist (qm_Pins m1)"
      using assms(1) None by (auto simp: quota_ok_def map_of_eq_None_iff)
    ultimately have "quota_ok (pin_chunks fs ?hs m1)" "length (qm_Pins (pin_chunks fs ?hs m1)) \<le> length (qm_Pins m) + 1"
      "map_of (qm_Pins (pin_chunks fs ?hs m1)) ?a \<noteq> None"
      by (simp_all add: quota_ok_def m1_def)
    with sv show ?thesis by (auto simp: save_quota_ok dest: save_frame)
  qed
  then show "quota_ok m'" "length (qm_Pins m') \<le> length (qm_Pins m) + 1"
    "map_of (qm_Pins m') ?a \<noteq> None" by auto
qed

lemma Unpin_quota_ok:
  assumes "quota_ok m" and "Unpin m fs a = (m', fs', res)"
  shows "quota_ok m'" "qm_Pins m' = AList.delete a (qm_Pins m)"
proof -
  define hs where "hs = (case map_of (qm_Pins m) a of Some hs \<Rightarrow> hs | None \<Rightarrow> [])"
  define m1 where "m1 = m\<lparr>qm_Pins := AList.delete a (qm_Pins m)\<rparr>"
  have sv: "save (unpin_chunks hs m1) fs = (m', fs', res)"
    using assms(2) by (simp add: Unpin_def hs_def m1_def)
  have count: "pin_count m h = pin_count m1 h + (if h \<in> set hs then 1 else 0)" for h
    using assms(1) pin_count_delete [of m a _ h]
    by (cases "map_of (qm_Pins m) a")
      (auto simp: hs_def m1_def quota_ok_def pin_count_def delete_absent)
  have "distinct hs"
    using assms(1) by (auto simp: hs_def quota_ok_def split: option.splits dest!: map_of_SomeD)
  then have "RefCount (unpin_chunks hs m1) h = int (pin_count m1 h)" for h
  proof -
    have "RefCount m1 h = int (pin_count m h)"
      using assms(1) by (simp add: m1_def RefCount_def quota_ok_def)
    with \<open>distinct hs\<close> show ?thesis
      by (simp add: unpin_chunks_RefCount count)
  qed
  moreover have "pin_count (unpin_chunks hs m1) = pin_count m1"
    by (simp add: fun_eq_iff pin_count_def)
  moreover have "wf_alist (qm_Chunks (unpin_chunks hs m1))"
    using assms(1) by (intro unpin_chunks_wf) (simp add: m1_def quota_ok_def)
  moreover have "\<forall>p \<in> set (qm_Pins m1). distinct (snd p)" "wf_alist (qm_Pins m1)"
    using assms(1) set_delete_subset [of a "qm_Pins m"] by (auto simp: quota_ok_def m1_def)
  ultimately have "quota_ok (unpin_chunks hs m1)" by (simp add: quota_ok_def)
  then show "quota_ok m'" "qm_Pins m' = AList.delete a (qm_Pins m)"
    using sv by (auto simp: save_quota_ok m1_def dest: save_frame)
qed

section \<open>Runs\<close>

text \<open>
  A run starts from a manager that found no index file, and applies its operations in any order, each
  with any file system and clock; the number counts the steps.
\<close>

inductive quota_reach :: "nat \<Rightarrow> quota_manager \<Rightarrow> bool" where
  start: "reconcileFromDisk (init_manager c maxBytes low high) fs now = (m, fs', res) \<Longrightarrow> quota_reach 0 m"
| touch: "quota_reach n m \<Longrightarrow> quota_reach (Suc n) (Touch m now h sz)"
| pin: "quota_reach n m \<Longrightarrow> Pin m fs mf = (m', fs', res) \<Longrightarrow> quota_reach (Suc n) m'"
| unpin: "quota_reach n m \<Longrightarrow> Unpin m fs a = (m', fs', res) \<Longrightarrow> quota_reach (Suc n) m'"
| evict: "quota_reach n m \<Longrightarrow> MaybeEvict m fs = (m', fs', k) \<Longrightarrow> quota_reach (Suc n) m'"
| flush: "quota_reach n m \<Longrightarrow> Flush m fs = (m', fs', res) \<Longrightarrow> quota_reach (Suc n) m'"

lemma reconcile_chunks_new:
  assumes "wf_alist cs" and "\<forall>kv \<in> set cs. me_RefCount (snd kv) = 0"
  shows "wf_alist (reconcile_chunks c fs now hs cs) \<and>
    (\<forall>kv \<in> set (reconcile_chunks c fs now hs cs). me_RefCount (snd kv) = 0)"
  using assms
proof (induction hs arbitrary: cs)
  case (Cons h hs)
  let ?new = "\<lambda>st. AList.update h \<lparr>me_Hash = h, me_Size = st, me_LastAccess = now, me_RefCount = 0\<rparr> cs"
  have new: "wf_alist (?new st) \<and> (\<forall>kv \<in> set (?new st). me_RefCount (snd kv) = 0)" if "map_of cs h = None" for st
    using that Cons.prems by (simp add: update_new map_of_eq_None_iff)
  have "reconcile_chunks c fs now (h # hs) cs = reconcile_chunks c fs now hs cs \<or>
      map_of cs h = None \<and> (\<exists>st. reconcile_chunks c fs now (h # hs) cs = reconcile_chunks c fs now hs (?new st))"
    by (simp split: sum.splits) blast
  then show ?case
  proof (elim disjE conjE exE)
    fix st assume "map_of cs h = None" and eq: "reconcile_chunks c fs now (h # hs) cs = reconcile_chunks c fs now hs (?new st)"
    with new [of st] Cons.IH [of "?new st"] show ?thesis unfolding eq by blast
  next
    assume eq: "reconcile_chunks c fs now (h # hs) cs = reconcile_chunks c fs now hs cs"
    show ?thesis unfolding eq by (rule Cons.IH [OF Cons.prems])
  qed
qed simp

lemma evict_loop_chunks:
  assumes "evict_loop c t cands used fs chunks ev = (used', fs', chunks', ev')"
  shows "\<exists>D. D \<subseteq> fst ` set cands \<and> chunks' = filter (\<lambda>kv. fst kv \<notin> D) chunks"
  using assms
proof (induction cands arbitrary: used fs chunks ev)
  case (Cons x cands)
  obtain h meta where x: "x = (h, meta)" by force
  obtain fs1 r where del: "DeleteChunk c fs h = (fs1, r)" by force
  consider "used \<le> t" | "\<not> used \<le> t" "evict_loop c t cands used fs1 chunks ev = (used', fs', chunks', ev')"
    | "\<not> used \<le> t" "evict_loop c t cands (wrap64 (used - me_Size meta)) fs1 (AList.delete h chunks) (Suc ev) =
        (used', fs', chunks', ev')"
    using Cons.prems x del by (auto split: if_splits)
  then show ?case
  proof cases
    case 1
    with Cons.prems x have "chunks' = filter (\<lambda>kv. fst kv \<notin> {}) chunks" by simp
    then show ?thesis by blast
  next
    case 2
    from Cons.IH [OF 2(2)] show ?thesis by auto
  next
    case 3
    from Cons.IH [OF 3(2)] obtain D where
      D: "D \<subseteq> fst ` set cands" "chunks' = filter (\<lambda>kv. fst kv \<notin> D) (AList.delete h chunks)" by blast
    then have "chunks' = filter (\<lambda>kv. fst kv \<notin> insert h D) chunks"
      by (auto simp: AList.delete_eq intro!: filter_cong)
    with D x show ?thesis by (intro exI [of _ "insert h D"]) auto
  qed
qed (auto intro: exI [of _ "{}"])

lemma candidates_unpinned: "kv \<in> set (candidates cs) \<longleftrightarrow> kv \<in> set cs \<and> me_RefCount (snd kv) \<le> 0"
  by (auto simp: candidates_def)

lemma map_of_filter_key: "map_of (filter (\<lambda>kv. fst kv \<notin> D) cs) h = (if h \<in> D then None else map_of cs h)"
  by (induction cs) auto

lemma evict_quota_ok:
  assumes ok: "quota_ok m" and D: "D \<subseteq> fst ` set (candidates (qm_Chunks m))"
  shows "quota_ok (m\<lparr>qm_Chunks := filter (\<lambda>kv. fst kv \<notin> D) (qm_Chunks m)\<rparr>)"
    "RefCount (m\<lparr>qm_Chunks := filter (\<lambda>kv. fst kv \<notin> D) (qm_Chunks m)\<rparr>) h = RefCount m h"
    "h \<in> D \<Longrightarrow> pin_count m h = 0"
proof -
  have zero: "RefCount m h = 0 \<and> pin_count m h = 0" if h: "h \<in> D" for h
  proof -
    obtain meta where "(h, meta) \<in> set (qm_Chunks m)" "me_RefCount meta \<le> 0"
    proof -
      from h D obtain kv where "kv \<in> set (candidates (qm_Chunks m))" "fst kv = h" by blast
      then show thesis
        using that [of "snd kv"] by (auto simp: candidates_unpinned)
    qed
    moreover from this have "map_of (qm_Chunks m) h = Some meta"
      using ok by (simp add: quota_ok_def)
    then have "chunk_of m h = meta"
      by (simp only: chunk_of_def option.case)
    moreover have "RefCount m h = int (pin_count m h)"
      using ok by (simp add: quota_ok_def)
    ultimately show ?thesis by (simp add: RefCount_def)
  qed
  then show "h \<in> D \<Longrightarrow> pin_count m h = 0" by blast
  show ref: "RefCount (m\<lparr>qm_Chunks := filter (\<lambda>kv. fst kv \<notin> D) (qm_Chunks m)\<rparr>) h = RefCount m h" for h
    using zero [of h] by (cases "h \<in> D") (simp_all add: RefCount_def chunk_of_def map_of_filter_key)
  show "quota_ok (m\<lparr>qm_Chunks := filter (\<lambda>kv. fst kv \<notin> D) (qm_Chunks m)\<rparr>)"
    using ok by (simp add: quota_ok_def ref) (simp add: distinct_map_filter)
qed

lemma MaybeEvict_cases:
  assumes "MaybeEvict m fs = (m', fs', k)"
  obtains "m' = m" "fs' = fs" "k = 0" "sum_used (qm_Chunks m) < high_mark m"
  | used' fs1 cs res where "\<not> sum_used (qm_Chunks m) < high_mark m"
    "evict_loop (qm_cache m) (low_mark m) (candidates (qm_Chunks m)) (sum_used (qm_Chunks m)) fs
       (qm_Chunks m) 0 = (used', fs1, cs, k)"
    "save (m\<lparr>qm_Chunks := cs\<rparr>) fs1 = (m', fs', res)"
  using assms by (auto simp: MaybeEvict_def Let_def split: if_splits prod.splits)

lemma MaybeEvict_quota_ok:
  assumes "quota_ok m" and "MaybeEvict m fs = (m', fs', k)"
  shows "quota_ok m' \<and> qm_Pins m' = qm_Pins m"
  using assms(2)
proof (cases rule: MaybeEvict_cases)
  case (2 used' fs1 cs res)
  obtain D where "D \<subseteq> fst ` set (candidates (qm_Chunks m))" "cs = filter (\<lambda>kv. fst kv \<notin> D) (qm_Chunks m)"
    using evict_loop_chunks [OF 2(2)] by blast
  then have "quota_ok (m\<lparr>qm_Chunks := cs\<rparr>)"
    using evict_quota_ok(1) [OF assms(1)] by simp
  with 2(3) show ?thesis by (auto simp: save_quota_ok dest: save_frame)
qed (use assms(1) in simp)

lemma start_quota_ok:
  assumes "reconcileFromDisk (init_manager c maxBytes low high) fs now = (m, fs', res)"
  shows "quota_ok m \<and> qm_Pins m = []"
proof -
  let ?m = "init_manager c maxBytes low high"
  have base: "quota_ok (?m\<lparr>qm_Chunks := cs\<rparr>)" if "wf_alist cs" "\<forall>kv \<in> set cs. me_RefCount (snd kv) = 0" for cs
    using that by (auto simp: quota_ok_def init_manager_def RefCount_def pin_count_def chunk_of_def
        split: option.splits dest!: map_of_SomeD)
  have "quota_ok (?m\<lparr>qm_Chunks := reconcile_chunks c fs now hs []\<rparr>)" for hs
    using reconcile_chunks_new [of "[]"] by (intro base) auto
  moreover have "quota_ok ?m" using base [of "[]"] by (simp add: init_manager_def)
  ultimately show ?thesis
    using assms
    by (auto simp: reconcileFromDisk_def init_manager_def save_quota_ok split: sum.splits dest: save_frame)
qed

lemma quota_reach_ok: "quota_reach n m \<Longrightarrow> n < 2 ^ 63 \<Longrightarrow> quota_ok m \<and> length (qm_Pins m) \<le> n"
proof (induction rule: quota_reach.induct)
  case (start c maxBytes low high fs now m fs' res)
  then show ?case using start_quota_ok by simp
next
  case (touch n m now h sz)
  then show ?case using Touch_quota_ok by simp
next
  case (pin n m fs mf m' fs' res)
  show ?case
  proof (cases mf)
    case None
    with pin show ?thesis by (simp add: Pin_def)
  next
    case (Some x)
    with pin have "Pin m fs (Some x) = (m', fs', res)" "quota_ok m" "length (qm_Pins m) + 1 < 2 ^ 63"
      by simp_all
    from Pin_quota_ok [OF this(2,1,3)] pin show ?thesis by simp
  qed
next
  case (unpin n m fs a m' fs' res)
  then show ?case
    using Unpin_quota_ok [of m fs a m' fs' res] length_delete_le [of a "qm_Pins m"] by simp
next
  case (evict n m fs m' fs' k)
  then show ?case using MaybeEvict_quota_ok [of m fs m' fs' k] by simp
next
  case (flush n m fs m' fs' res)
  then show ?case by (auto simp: Flush_def save_quota_ok split: if_splits dest: save_frame)
qed

section \<open>The index file and the store\<close>

text \<open>
  The index is written next to the store and never through it: \<open>index_private\<close> says that the temporary
  file of \<open>save\<close> shares no inode with a file of the store.
\<close>

definition tmp_key :: "chunk_store \<Rightarrow> fsys \<Rightarrow> path" where
  "tmp_key c fs = key fs (rootDir c) @ [''index.json.tmp'']"

definition index_private :: "chunk_store \<Rightarrow> fsys \<Rightarrow> bool" where
  "index_private c fs = (\<forall>k \<in> store_keys c fs. inode fs (tmp_key c fs) \<noteq> None \<longrightarrow> inode fs k \<noteq> inode fs (tmp_key c fs))"

definition quota_inv :: "quota_manager \<Rightarrow> fsys \<Rightarrow> bool" where
  "quota_inv m fs =
     (store_inv (qm_cache m) fs \<and> quota_ok m \<and> index_private (qm_cache m) fs \<and>
      qm_path m = filepath_Join (rootDir (qm_cache m) # [''index.json'']) \<and>
      (\<forall>h \<in> fst ` set (qm_Chunks m). hex_hash h))"

lemma split_append_word:
  "CHR ''/'' \<notin> set w \<Longrightarrow> split_slash (p @ w) = butlast (split_slash p) @ [last (split_slash p) @ w]"
proof (induction p)
  case (Cons x p)
  then show ?case by (cases "split_slash p") (auto simp: butlast_append)
qed (simp add: split_slash_word)

lemma index_keys:
  assumes "wf_store c" and "fs_ok fs" and "p = filepath_Join (rootDir c # [''index.json''])"
  shows "key fs p = key fs (rootDir c) @ [''index.json'']" "key fs (p @ ''.tmp'') = tmp_key c fs"
proof -
  have root: "rootDir c \<noteq> []" using wf_store_dirs(1) [OF assms(1)] .
  have plain: "plain ''index.json''" "plain ''index.json.tmp''" by (simp_all add: plain_def)
  show k: "key fs p = key fs (rootDir c) @ [''index.json'']"
    unfolding assms(3) using assms(2) root plain by (intro resolve_Join_plain) auto
  have last: "last (split_slash p) = ''index.json''"
    using last_split_Join [of "''index.json''" "rootDir c" "[]"] root plain unfolding assms(3) by simp
  have split: "split_slash p = butlast (split_slash p) @ [''index.json'']"
    using split_butlast_last [of p] unfolding last .
  have tmp: "split_slash (p @ ''.tmp'') = butlast (split_slash p) @ [''index.json.tmp'']"
    using split_append_word [of "''.tmp''" p] last by simp
  have "p \<noteq> []" unfolding assms(3) using root by (simp del: filepath_Join.simps)
  then have "rooted (p @ ''.tmp'') = rooted p" by (rule rooted_append)
  let ?st = "clean_comps True (if rooted p then [] else rev (fs_cwd fs)) (butlast (split_slash p))"
  have "key fs p = rev ?st @ [''index.json'']"
    unfolding resolve_def by (subst split) (simp add: clean_comps_append plain)
  moreover have "key fs (p @ ''.tmp'') = rev ?st @ [''index.json.tmp'']"
    unfolding resolve_def tmp \<open>rooted (p @ ''.tmp'') = rooted p\<close> by (simp add: clean_comps_append plain)
  ultimately show "key fs (p @ ''.tmp'') = tmp_key c fs"
    using k by (simp add: tmp_key_def)
qed

lemma index_not_store:
  "k \<in> store_keys c fs \<Longrightarrow> k \<noteq> tmp_key c fs \<and> k \<noteq> key fs (rootDir c) @ [''index.json'']"
  by (auto simp: store_keys_def tmp_key_def chunk_key_def partial_key_def)

lemma tmp_key_cwd: "fs_cwd fs' = fs_cwd fs \<Longrightarrow> tmp_key c fs' = tmp_key c fs"
  by (simp only: tmp_key_def)

lemma save_store:
  assumes inv: "store_inv c fs" and priv: "index_private c fs" and c: "qm_cache m = c"
    and path: "qm_path m = filepath_Join (rootDir c # [''index.json''])"
    and op: "save m fs = (m', fs', res)"
  shows "store_inv c fs' \<and> cas_of c fs' = cas_of c fs \<and> index_private c fs' \<and> same_env fs fs'"
proof -
  note ok = store_invD(2) [OF inv]
  note keys = index_keys [OF store_invD(1) [OF inv] ok path]
  let ?d = "json_MarshalIndent (json_of_index m)"
  obtain fs1 r1 where w: "os_WriteFile fs (qm_path m @ ''.tmp'') ?d = (fs1, r1)" by force
  from os_WriteFile_frame [OF w ok] consider "fs1 = fs"
    | i x where "inode fs1 = (inode fs)(tmp_key c fs \<mapsto> i)" "fs_data fs1 = (fs_data fs)(i := x)"
      "same_env fs fs1" "fs_ok fs1" "inode fs (tmp_key c fs) = Some i \<or> i = fs_next fs"
    unfolding keys(2) by blast
  then have one: "store_inv c fs1 \<and> cas_of c fs1 = cas_of c fs \<and> index_private c fs1 \<and> same_env fs fs1"
  proof cases
    case (2 i x)
    have cwd: "fs_cwd fs1 = fs_cwd fs" using 2(3) by (simp add: same_env_def)
    have other: "inode fs k \<noteq> Some i" "inode fs1 k = inode fs k" if k: "k \<in> store_keys c fs" for k
    proof -
      show "inode fs k \<noteq> Some i"
        using 2(5) priv k fs_ok_inode [OF ok, of k i] unfolding index_private_def by fastforce
      show "inode fs1 k = inode fs k"
        using 2(1) index_not_store [OF k] by simp
    qed
    have "contents fs1 k = contents fs k" if "k \<in> store_keys c fs" for k
      using other [OF that] 2(2) by (cases "inode fs k") (auto simp: contents_def)
    with other(2) have "store_inv c fs1" "cas_of c fs1 = cas_of c fs"
      using elsewhere_inv [OF inv 2(4) cwd] by blast+
    moreover have "index_private c fs1"
      using other 2(1) unfolding index_private_def store_keys_cwd [OF cwd] tmp_key_cwd [OF cwd] by simp
    ultimately show ?thesis using 2(3) by blast
  qed (use inv priv in simp)
  obtain fs2 r2 where rn: "os_Rename fs1 (qm_path m @ ''.tmp'') (qm_path m) = (fs2, r2)" by force
  have cwd1: "fs_cwd fs1 = fs_cwd fs" using one by (simp add: same_env_def)
  from rn have two: "store_inv c fs2 \<and> cas_of c fs2 = cas_of c fs \<and> index_private c fs2 \<and> same_env fs fs2"
  proof (cases rule: os_Rename_cases)
    case (2 i)
    have ok2: "fs_ok fs2"
      using store_invD(2) [of c fs1] one 2(2) by (auto simp: 2(3) fs_ok_def)
    have names: "inode fs2 = (inode fs1)(tmp_key c fs := None, key fs (rootDir c) @ [''index.json''] := Some i)"
      by (simp add: 2(3) cwd1 keys fun_eq_iff)
    then have "inode fs2 k = inode fs1 k \<and> contents fs2 k = contents fs1 k" if "k \<in> store_keys c fs1" for k
      using that index_not_store [of k c fs] by (simp add: contents_def store_keys_cwd [OF cwd1]) (simp add: 2(3))
    then have "store_inv c fs2" "cas_of c fs2 = cas_of c fs1"
      using elsewhere_inv [of c fs1 fs2] one ok2 by (simp_all add: 2(3))
    note st = this
    have "inode fs2 (tmp_key c fs) = None"
      by (simp add: names tmp_key_def)
    moreover have "tmp_key c fs2 = tmp_key c fs"
      by (rule tmp_key_cwd) (simp add: 2(3) cwd1)
    ultimately have "index_private c fs2"
      unfolding index_private_def by metis
    with st show ?thesis using one 2(3) by (simp add: same_env_def)
  qed (use one in simp)
  have "fs' = fs1 \<or> fs' = fs2"
    using op w rn by (auto simp: save_def Let_def split: prod.splits sum.splits)
  with one two show ?thesis by blast
qed

section \<open>Eviction and the store\<close>

lemma DeleteChunk_names:
  assumes "store_inv c fs" and "hex_hash h" and "DeleteChunk c fs h = (fs', res)"
  shows "inode fs' = inode fs \<or> inode fs' = (inode fs)(chunk_key c fs h := None)"
proof -
  obtain p where p: "chunkPath c h = Inr p" "key fs p = chunk_key c fs h"
    using chunkPath_key store_invD(1,2) [OF assms(1)] assms(2) by metis
  then have "os_Remove fs p = (fs', res)" using assms(3) by (simp add: DeleteChunk_def)
  then show ?thesis
    using p(2) by (cases rule: os_Remove_cases) (auto simp: same_filesD fun_eq_iff)
qed

lemma DeleteChunk_store:
  assumes "store_inv c fs" and "index_private c fs" and "hex_hash h" and "DeleteChunk c fs h = (fs', res)"
  shows "store_inv c fs'" "index_private c fs'" "same_env fs fs'"
    "h' \<noteq> h \<Longrightarrow> committed (cas_of c fs') h' = committed (cas_of c fs) h'"
proof -
  note spec = DeleteChunk_spec [OF assms(1,3,4)]
  then show "store_inv c fs'" "same_env fs fs'"
    "h' \<noteq> h \<Longrightarrow> committed (cas_of c fs') h' = committed (cas_of c fs) h'"
    by (auto split: if_splits)
  have cwd: "fs_cwd fs' = fs_cwd fs" using spec by (simp add: same_env_def)
  have "tmp_key c fs \<noteq> chunk_key c fs h" by (simp add: tmp_key_def chunk_key_def)
  then show "index_private c fs'"
    using assms(2) DeleteChunk_names [OF assms(1,3,4)]
    unfolding index_private_def store_keys_cwd [OF cwd] tmp_key_cwd [OF cwd]
    by (auto split: if_splits)
qed

lemma evict_loop_store:
  assumes "evict_loop c t cands used fs chunks ev = (used', fs', chunks', ev')"
    and "store_inv c fs" and "index_private c fs" and "\<forall>kv \<in> set cands. hex_hash (fst kv)"
  shows "store_inv c fs' \<and> index_private c fs' \<and> same_env fs fs' \<and>
    (\<forall>h. h \<notin> fst ` set cands \<longrightarrow> committed (cas_of c fs') h = committed (cas_of c fs) h)"
  using assms
proof (induction cands arbitrary: used fs chunks ev)
  case (Cons x cands)
  obtain h meta where x: "x = (h, meta)" by force
  obtain fs1 r where del: "DeleteChunk c fs h = (fs1, r)" by force
  have hex: "hex_hash h" using Cons.prems(4) x by simp
  note one = DeleteChunk_store [OF Cons.prems(2,3) hex del]
  show ?case
  proof (cases "used \<le> t")
    case True
    with Cons.prems x show ?thesis by simp
  next
    case False
    then obtain used1 chunks1 ev1 where "evict_loop c t cands used1 fs1 chunks1 ev1 = (used', fs', chunks', ev')"
      using Cons.prems(1) x del by (auto split: if_splits)
    from Cons.IH [OF this one(1,2)] Cons.prems(4) x one(3,4) show ?thesis
      by (auto intro: same_env_trans)
  qed
qed simp







definition without :: "(string \<times> chunk_meta) list \<Rightarrow> string list \<Rightarrow> (string \<times> chunk_meta) list" where
  "without cs hs = filter (\<lambda>kv. fst kv \<notin> set hs) cs"

lemma without_Nil [simp]: "without cs [] = cs"
  by (simp add: without_def)





lemma pinned_not_candidate:
  assumes "quota_ok m" and "(a, hs) \<in> set (qm_Pins m)" and "h \<in> set hs"
  shows "h \<notin> fst ` set (candidates (qm_Chunks m))"
proof
  assume "h \<in> fst ` set (candidates (qm_Chunks m))"
  then have "pin_count m h = 0"
    by (rule evict_quota_ok(3) [OF assms(1) order_refl])
  with assms(2,3) show False by (auto simp: pin_count_def filter_empty_conv)
qed

lemma quota_invD:
  assumes "quota_inv m fs"
  shows "store_inv (qm_cache m) fs" "quota_ok m" "index_private (qm_cache m) fs"
    "qm_path m = filepath_Join (rootDir (qm_cache m) # [''index.json''])"
    "kv \<in> set (candidates (qm_Chunks m)) \<Longrightarrow> hex_hash (fst kv) \<and> map_of (qm_Chunks m) (fst kv) = Some (snd kv)"
proof -
  show "store_inv (qm_cache m) fs" "quota_ok m" "index_private (qm_cache m) fs"
    "qm_path m = filepath_Join (rootDir (qm_cache m) # [''index.json''])"
    using assms by (simp_all add: quota_inv_def del: filepath_Join.simps)
  assume "kv \<in> set (candidates (qm_Chunks m))"
  then have "kv \<in> set (qm_Chunks m)" by (simp add: candidates_unpinned)
  then show "hex_hash (fst kv) \<and> map_of (qm_Chunks m) (fst kv) = Some (snd kv)"
    using assms by (cases kv) (auto simp: quota_inv_def quota_ok_def)
qed

section \<open>A manager for the witnesses\<close>

definition demo_meta :: "int \<Rightarrow> int \<Rightarrow> int \<Rightarrow> chunk_meta" where
  "demo_meta sz t n = \<lparr>me_Hash = [], me_Size = sz, me_LastAccess = t, me_RefCount = n\<rparr>"

definition demo_hash :: "char \<Rightarrow> string" where
  "demo_hash x = ''sha256:'' @ replicate 64 x"

definition demo_quota :: quota_manager where
  "demo_quota = (init_manager (store_at ''/s'') 10 (1 / 2) 1)
     \<lparr>qm_Chunks := [(demo_hash CHR ''a'', demo_meta 6 1 1), (demo_hash CHR ''b'', demo_meta 5 2 0)],
      qm_Pins := [(''id'', [demo_hash CHR ''a''])]\<rparr>"

lemma demo_hex: "hex_hash (demo_hash CHR ''a'')" "hex_hash (demo_hash CHR ''b'')"
  "demo_hash CHR ''a'' \<noteq> demo_hash CHR ''b''"
  by code_simp+

lemma demo_quota_inv: "quota_inv demo_quota blank_fs"
proof -
  have "index_private (store_at ''/s'') blank_fs" by (simp add: index_private_def)
  moreover have "RefCount demo_quota h = int (pin_count demo_quota h)" for h
    using demo_hex by (auto simp: demo_quota_def RefCount_def chunk_of_def pin_count_def init_manager_def
        demo_meta_def)
  ultimately show ?thesis
    using demo_hex by (simp add: quota_inv_def quota_ok_def demo_quota_def init_manager_def)
qed





section \<open>Properties\<close>

text \<open>
  C11. Reference counts are exact: after any sequence of touches, pins, unpins, evictions and flushes, from a
  manager that started without an index, the reference count of a chunk is the number of pinned
  artifacts that contain it, whatever the disk did in between.
\<close>
theorem refcount_counts_pins:
  assumes "quota_reach n m" and "n < 2 ^ 63"
  shows "RefCount m h = int (length (filter (\<lambda>p. h \<in> set (snd p)) (qm_Pins m)))"
  using quota_reach_ok [OF assms] by (simp add: quota_ok_def pin_count_def)

theorem refcount_counts_pins_witness:
  "\<exists>m. quota_reach 1 m \<and> RefCount m ''x'' = int (length (filter (\<lambda>p. ''x'' \<in> set (snd p)) (qm_Pins m)))"
proof -
  obtain m0 fs0 r0 where "reconcileFromDisk (init_manager (store_at ''/s'') 10 0 0) blank_fs 0 = (m0, fs0, r0)"
    using prod_cases3 by blast
  then have "quota_reach 0 m0" by (rule quota_reach.start)
  then have r: "quota_reach 1 (Touch m0 5 ''x'' 7)" using quota_reach.touch [of 0] by simp
  have "(1 :: nat) < 2 ^ 63" by simp
  from refcount_counts_pins [OF r this, of "''x''"] r show ?thesis by blast
qed

text \<open>
  C12. Eviction spares what is pinned: \<open>MaybeEvict\<close> does not remove a chunk of a pinned artifact from
  the store, and keeps its reference count and the pins.
\<close>
theorem evict_spares_pinned:
  assumes "quota_inv m fs" and "MaybeEvict m fs = (m', fs', k)"
    and "(a, hs) \<in> set (qm_Pins m)" and "h \<in> set hs"
  shows "committed (cas_of (qm_cache m) fs') h = committed (cas_of (qm_cache m) fs) h \<and>
    RefCount m' h = RefCount m h \<and> qm_Pins m' = qm_Pins m"
  using assms(2)
proof (cases rule: MaybeEvict_cases)
  case (2 used' fs1 cs res)
  note inv = quota_invD [OF assms(1)]
  have hex: "\<forall>kv \<in> set (candidates (qm_Chunks m)). hex_hash (fst kv)" using inv(5) by blast
  note one = evict_loop_store [OF 2(2) inv(1,3) hex]
  have "committed (cas_of (qm_cache m) fs1) h = committed (cas_of (qm_cache m) fs) h"
    using one pinned_not_candidate [OF inv(2) assms(3,4)] by blast
  moreover have "cas_of (qm_cache m) fs' = cas_of (qm_cache m) fs1"
    using save_store [OF _ _ _ _ 2(3), of "qm_cache m"] one inv(4) by simp
  moreover have "RefCount m' h = RefCount m h"
    using assms MaybeEvict_quota_ok [OF inv(2) assms(2)] inv(2) by (simp add: quota_ok_def pin_count_def)
  ultimately show ?thesis
    using MaybeEvict_quota_ok [OF inv(2) assms(2)] by simp
qed simp

theorem evict_spares_pinned_witness:
  "\<exists>m' fs' k. MaybeEvict demo_quota blank_fs = (m', fs', k) \<and> RefCount m' (demo_hash CHR ''a'') = 1"
proof -
  obtain m' fs' k where ev: "MaybeEvict demo_quota blank_fs = (m', fs', k)" using prod_cases3 by blast
  have "(''id'', [demo_hash CHR ''a'']) \<in> set (qm_Pins demo_quota)" by (simp add: demo_quota_def)
  from evict_spares_pinned [OF demo_quota_inv ev this, of "demo_hash CHR ''a''"]
  have "RefCount m' (demo_hash CHR ''a'') = RefCount demo_quota (demo_hash CHR ''a'')" by simp
  then have "RefCount m' (demo_hash CHR ''a'') = 1"
    by (simp add: RefCount_def chunk_of_def demo_quota_def demo_meta_def)
  with ev show ?thesis by blast
qed



end
