(* ===== verification/Materializer.thy ===== *)
theory Materializer
  imports ChunkStore
begin

text \<open>
  \<open>pkg/materializer\<close>: joining manifest paths to the destination directory (\<open>path.go\<close>) and writing the
  files of an artifact from the chunk store (\<open>materializer.go\<close>). A context is the list of answers its polls
  get, one per file; what the source reads from an open chunk is what the file holds when the copy
  starts.
\<close>

section \<open>Joining paths\<close>

definition SafeJoin :: "string \<Rightarrow> string \<Rightarrow> string result" where
  "SafeJoin baseDir rel =
     (let cleanRel = filepath_Clean rel
      in if filepath_IsAbs cleanRel then Inl (Err ''security violation: absolute path rejected'')
         else if cleanRel = ''..'' \<or> has_prefix cleanRel ''../''
         then Inl (Err ''security violation: path escape detected'')
         else let base = filepath_Clean baseDir; joined = filepath_Join [base, cleanRel]
           in if joined \<noteq> base \<and> \<not> has_prefix joined (base @ ''/'')
              then Inl (Err ''security violation: path escape detected'')
              else Inr joined)"

section \<open>Writing the files\<close>

datatype strategy = StrategyCopy | StrategyHardLink

record options =
  op_Strategy :: strategy
  op_Overwrite :: bool
  op_PreservePerms :: bool

definition DefaultOptions :: options where
  "DefaultOptions = \<lparr>op_Strategy = StrategyCopy, op_Overwrite = True, op_PreservePerms = True\<rparr>"

definition verifyCachedChunk :: "chunk_store \<Rightarrow> fsys \<Rightarrow> string \<Rightarrow> unit result" where
  "verifyCachedChunk c fs h =
     (case GetChunkReader c fs h of
        Inl e \<Rightarrow> Inl e
      | Inr (r, _) \<Rightarrow> (case VerifyHash (file_reader fs r) h of Some e \<Rightarrow> Inl e | None \<Rightarrow> Inr ()))"

text \<open>\<open>strconv.ParseUint(s, 8, 32)\<close>.\<close>

fun octal :: "nat \<Rightarrow> string \<Rightarrow> nat option" where
  "octal acc [] = Some acc"
| "octal acc (x # s) =
     (let d = of_char x - 48
      in if 48 \<le> (of_char x :: nat) \<and> (of_char x :: nat) \<le> 55 \<and> acc * 8 + d < 2 ^ 32
         then octal (acc * 8 + d) s else None)"

definition ParseUint8 :: "string \<Rightarrow> nat option" where
  "ParseUint8 s = (if s = [] then None else octal 0 s)"

text \<open>The copy of one chunk: at most \<open>size\<close> bytes of it go to the file and through the hash.\<close>

definition copy_chunk :: "chunk_store \<Rightarrow> fsys \<Rightarrow> handle \<Rightarrow> chunk_ref \<Rightarrow> fsys \<times> bytes result" where
  "copy_chunk c fs out ref =
     (case GetChunkReader c fs (cr_Hash ref) of
        Inl e \<Rightarrow> (fs, Inl (Wrapf ''missing chunk'' e))
      | Inr (r, _) \<Rightarrow>
          (case (if cr_Size ref \<le> 0 then Inr [] else read_all fs r) of
             Inl e \<Rightarrow> (fs, Inl (Wrapf ''failed writing chunk'' e))
           | Inr data \<Rightarrow>
               (let part = take (nat (cr_Size ref)) data
                in case (if part = [] then (fs, Inr ()) else write_end fs out part) of
                     (fs', Inl e) \<Rightarrow> (fs', Inl (Wrapf ''failed writing chunk'' e))
                   | (fs', Inr _) \<Rightarrow>
                       (fs', if int (length part) \<noteq> cr_Size ref then Inl (Err ''short write for chunk'')
                             else Inr part))))"

fun copy_chunks ::
    "chunk_store \<Rightarrow> fsys \<Rightarrow> handle \<Rightarrow> string \<Rightarrow> chunk_ref list \<Rightarrow> int \<Rightarrow> fsys \<times> int result" where
  "copy_chunks c fs out target [] written = (fs, Inr written)"
| "copy_chunks c fs out target (ref # refs) written =
     (case copy_chunk c fs out ref of
        (fs', Inl e) \<Rightarrow> (fs', Inl e)
      | (fs', Inr part) \<Rightarrow>
          if ComputeHash part \<noteq> cr_Hash ref
          then (fst (os_Remove fs' target), Inl (Err ''integrity check failed for chunk''))
          else copy_chunks c fs' out target refs (wrap64 (written + int (length part))))"

definition materializeFile ::
    "options \<Rightarrow> fsys \<Rightarrow> file_entry \<Rightarrow> chunk_store \<Rightarrow> string \<Rightarrow> fsys \<times> unit result" where
  "materializeFile opts fs entry c target =
     (let fs = (if op_Overwrite opts then fst (os_Remove fs target) else fs)
      in case os_create_trunc fs target of
           (fs1, Inl e) \<Rightarrow> (fs1, Inl (Wrapf ''failed to open target file'' e))
         | (fs1, Inr out) \<Rightarrow>
             (case copy_chunks c fs1 out target (slice (fe_Chunks entry)) 0 of
                (fs2, Inl e) \<Rightarrow> (fs2, Inl e)
              | (fs2, Inr written) \<Rightarrow>
                  if written \<noteq> fe_Size entry then (fs2, Inl (Err ''total file size mismatch''))
                  else (fs2, Inr ())))"

text \<open>The hard link of a file that is one chunk; \<open>Inr False\<close> when the code falls back to copying.\<close>

definition try_link ::
    "options \<Rightarrow> fsys \<Rightarrow> file_entry \<Rightarrow> chunk_store \<Rightarrow> string \<Rightarrow> fsys \<times> bool result" where
  "try_link opts fs entry c target =
     (case slice (fe_Chunks entry) of
        [ref] \<Rightarrow>
          if op_Strategy opts = StrategyHardLink \<and> cr_Size ref = fe_Size entry then
            (case verifyCachedChunk c fs (cr_Hash ref) of
               Inl e \<Rightarrow> (fs, Inl (Wrapf ''refusing to hardlink unverified chunk'' e))
             | Inr _ \<Rightarrow>
                 (case GetChunkPath c fs (cr_Hash ref) of
                    Inl e \<Rightarrow> (fs, Inr False)
                  | Inr p \<Rightarrow>
                      let fs1 = (if op_Overwrite opts then fst (os_Remove fs target) else fs)
                      in (case os_Link fs1 p target of
                            (fs2, Inr _) \<Rightarrow> (fs2, Inr True)
                          | (fs2, Inl e) \<Rightarrow> (fs2, Inr False))))
          else (fs, Inr False)
      | _ \<Rightarrow> (fs, Inr False))"

definition materialize_entry ::
    "options \<Rightarrow> fsys \<Rightarrow> file_entry \<Rightarrow> chunk_store \<Rightarrow> string \<Rightarrow> fsys \<times> unit result" where
  "materialize_entry opts fs entry c destDir =
     (case SafeJoin destDir (fe_Path entry) of
        Inl e \<Rightarrow> (fs, Inl e)
      | Inr target \<Rightarrow>
          (case os_MkdirAll fs (filepath_Dir target) of
             (fs1, Inl e) \<Rightarrow> (fs1, Inl (Wrapf ''failed to create directory'' e))
           | (fs1, Inr _) \<Rightarrow>
               (case try_link opts fs1 entry c target of
                  (fs2, Inl e) \<Rightarrow> (fs2, Inl e)
                | (fs2, Inr True) \<Rightarrow> (fs2, Inr ())
                | (fs2, Inr False) \<Rightarrow>
                    (case materializeFile opts fs2 entry c target of
                       (fs3, Inl e) \<Rightarrow> (fs3, Inl (Wrapf ''failed to materialize file'' e))
                     | (fs3, Inr _) \<Rightarrow>
                         (if op_PreservePerms opts \<and> fe_Mode entry \<noteq> [] then
                            (case ParseUint8 (fe_Mode entry) of
                               Some perm \<Rightarrow> fst (os_Chmod fs3 target perm)
                             | None \<Rightarrow> fs3)
                          else fs3, Inr ())))))"

fun materialize_files ::
    "options \<Rightarrow> fsys \<Rightarrow> file_entry list \<Rightarrow> chunk_store \<Rightarrow> string \<Rightarrow> go_error option list \<Rightarrow> fsys \<times> unit result" where
  "materialize_files opts fs [] c destDir ctx = (fs, Inr ())"
| "materialize_files opts fs (entry # entries) c destDir ctx =
     (case ctx of
        Some e # _ \<Rightarrow> (fs, Inl e)
      | _ \<Rightarrow>
          (case materialize_entry opts fs entry c destDir of
             (fs', Inl e) \<Rightarrow> (fs', Inl e)
           | (fs', Inr _) \<Rightarrow> materialize_files opts fs' entries c destDir (tl ctx)))"

definition Materialize ::
    "options \<Rightarrow> fsys \<Rightarrow> Manifest.manifest \<Rightarrow> chunk_store \<Rightarrow> string \<Rightarrow> go_error option list \<Rightarrow> fsys \<times> unit result" where
  "Materialize opts fs m c destDir ctx =
     (case Validate m of
        Some e \<Rightarrow> (fs, Inl (Err ''invalid manifest''))
      | None \<Rightarrow>
          (case os_MkdirAll fs destDir of
             (fs1, Inl e) \<Rightarrow> (fs1, Inl (Wrapf ''failed to create destination directory'' e))
           | (fs1, Inr _) \<Rightarrow> materialize_files opts fs1 (m_Files m) c destDir ctx))"

section \<open>Where SafeJoin leads\<close>

lemma clean_rel_plain:
  assumes "\<not> rooted (filepath_Clean rel)" and "filepath_Clean rel \<noteq> ''..''"
    and "\<not> has_prefix (filepath_Clean rel) ''../''"
  obtains "filepath_Clean rel = ''.''"
  | ws where "ws \<noteq> []" "plain_path ws" "split_slash (filepath_Clean rel) = ws"
proof -
  let ?st = "clean_comps (rooted rel) [] (split_slash rel)"
  have rs: "rel_stack ?st" by (intro rel_stack_clean split_no_slash) simp
  consider "filepath_Clean rel = ''.''" | "filepath_Clean rel = join_slash (rev ?st)" "?st \<noteq> []"
    using assms(1)
    by (cases "?st = []") (auto simp: filepath_Clean_def Let_def rooted_Cons split: if_splits)
  then show thesis
  proof cases
    case 2
    have sp: "split_slash (filepath_Clean rel) = rev ?st"
      using relative_join [OF rs 2(2)] 2(1) by simp
    have "last ?st \<noteq> ''..''"
    proof
      assume "last ?st = ''..''"
      then have hd: "rev ?st = ''..'' # tl (rev ?st)"
        using 2(2) by (metis hd_rev list.exhaust_sel rev_is_Nil_conv)
      have "filepath_Clean rel = ''..'' \<or> has_prefix (filepath_Clean rel) ''../''"
        unfolding 2(1) by (subst (1 2) hd) (cases "tl (rev ?st)", auto)
      with assms(2,3) show False by blast
    qed
    then have "plain_path (rev ?st)"
      using rel_stack_no_dots [OF rs] by simp
    then show thesis using that(2) sp 2(2) by (metis rev_is_Nil_conv)
  qed (rule that(1))
qed

lemma SafeJoin_key:
  assumes "SafeJoin base rel = Inr p" and "plain_path cwd"
  shows "\<exists>rest. plain_path rest \<and> resolve cwd p = resolve cwd base @ rest"
proof -
  let ?r = "filepath_Clean rel" and ?b = "filepath_Clean base"
  have rel: "\<not> rooted ?r" "?r \<noteq> ''..''" "\<not> has_prefix ?r ''../''"
    using assms(1) by (auto simp: SafeJoin_def Let_def split: if_splits)
  have p: "p = filepath_Join (?b # [?r])"
    using assms(1) by (auto simp: SafeJoin_def Let_def split: if_splits)
  have "resolve cwd p = rev (clean_comps True (rev (resolve cwd ?b)) (split_slash ?r))"
    unfolding p using resolve_Join [OF assms(2), of ?b "[?r]"] by simp
  then have key: "resolve cwd p = rev (clean_comps True (rev (resolve cwd base)) (split_slash ?r))"
    using resolve_Clean [OF assms(2), of base] by simp
  from rel show ?thesis
  proof (cases rule: clean_rel_plain)
    case 1
    then show ?thesis using key by (intro exI [of _ "[]"]) simp
  next
    case (2 ws)
    then show ?thesis using key by (intro exI [of _ ws]) (simp add: clean_comps_plain)
  qed
qed

section \<open>What materializeFile writes\<close>

lemma copy_chunk_ok:
  assumes "copy_chunk c fs (k, Some i) ref = (fs', Inr part)"
  shows "fs' = set_data fs i (fs_data fs i @ part) \<and> int (length part) = cr_Size ref"
proof -
  have "(if part = [] then (fs, Inr ()) else write_end fs (k, Some i) part) = (fs', Inr ())"
    and part: "int (length part) = cr_Size ref"
    using assms by (auto simp: copy_chunk_def Let_def split: sum.splits prod.splits if_splits)
  then show ?thesis
  proof (cases "part = []")
    case False
    then have "write_end fs (k, Some i) part = (fs', Inr ())"
      using \<open>(if part = [] then _ else _) = _\<close> by simp
    then show ?thesis using part by (cases rule: write_end_cases) simp
  qed (use part in auto)
qed

lemma copy_chunk_data:
  assumes "copy_chunk c fs (k, Some i) ref = (fs', res)"
  shows "\<exists>d. fs' = set_data fs i d"
proof -
  have same: "\<exists>d. fs = set_data fs i d" by (rule exI [of _ "fs_data fs i"]) simp
  have wr: "\<exists>d. fs' = set_data fs i d" if "write_end fs (k, Some i) x = (fs', r)" for x r
    using that by (cases rule: write_end_cases) auto
  show ?thesis
    using assms same wr by (auto simp: copy_chunk_def Let_def split: sum.splits prod.splits if_splits)
qed

definition holds_chunks :: "chunk_ref list \<Rightarrow> bytes list \<Rightarrow> bool" where
  "holds_chunks refs ds =
     (map ComputeHash ds = map cr_Hash refs \<and> map (int o length) ds = map cr_Size refs)"

lemma copy_chunks_ok:
  assumes "copy_chunks c fs (k, Some i) target refs n = (fs', Inr m)" and "n = wrap64 n"
  shows "\<exists>ds. holds_chunks refs ds \<and> fs' = set_data fs i (fs_data fs i @ concat ds) \<and>
    m = wrap64 (n + int (length (concat ds)))"
  using assms
proof (induction refs arbitrary: fs n)
  case Nil
  then show ?case by (intro exI [of _ "[]"]) (simp add: holds_chunks_def)
next
  case (Cons ref refs)
  obtain fs1 part where one: "copy_chunk c fs (k, Some i) ref = (fs1, Inr part)"
    and hash: "ComputeHash part = cr_Hash ref"
    and rest: "copy_chunks c fs1 (k, Some i) target refs (wrap64 (n + int (length part))) = (fs', Inr m)"
    using Cons.prems by (auto split: prod.splits sum.splits if_splits)
  note ok = copy_chunk_ok [OF one]
  from Cons.IH [OF rest] obtain ds where ds: "holds_chunks refs ds"
    "fs' = set_data fs1 i (fs_data fs1 i @ concat ds)"
    "m = wrap64 (wrap64 (n + int (length part)) + int (length (concat ds)))"
    by (auto simp: wrap64_def)
  then have "holds_chunks (ref # refs) (part # ds)"
    using ok hash by (simp add: holds_chunks_def)
  with ds ok show ?case
    by (intro exI [of _ "part # ds"]) (simp add: wrap64_add_left add.assoc)
qed

lemma os_create_trunc_cases:
  assumes "os_create_trunc fs p = (fs', res)"
  obtains e where "res = Inl e" "fs' = fs"
  | i where "res = Inr (key fs p, Some i)" "inode fs' = (inode fs)(key fs p \<mapsto> i)"
    "fs_data fs' = (fs_data fs)(i := [])" "same_env fs fs'"
    "inode fs (key fs p) = Some i \<or> inode fs (key fs p) = None \<and> i = fs_next fs" "fs_ok fs \<Longrightarrow> fs_ok fs'"
proof -
  obtain fs1 r1 where cr: "os_create fs p = (fs1, r1)" by force
  then show thesis
  proof (cases rule: os_create_cases)
    case (1 e)
    with assms cr show thesis by (intro that(1)) (auto simp: os_create_trunc_def)
  next
    case (2 i)
    then have "fs' = set_data fs i []" "res = Inr (key fs p, Some i)"
      using assms cr by (auto simp: os_create_trunc_def)
    then show thesis using 2(3) by (intro that(2) [of i]) (auto simp: fun_eq_iff)
  next
    case 3
    then have "fs' = set_data fs1 (fs_next fs) []" "res = Inr (key fs p, Some (fs_next fs))"
      using assms cr by (auto simp: os_create_trunc_def)
    then show thesis
      using 3 by (intro that(2) [of "fs_next fs"]) (auto simp: fun_eq_iff same_env_def fs_ok_def less_Suc_eq)
  qed
qed

lemma materializeFile_ok:
  assumes "materializeFile opts fs entry c target = (fs', Inr ())"
  shows "\<exists>ds. holds_chunks (slice (fe_Chunks entry)) ds \<and> contents fs' (key fs target) = Some (concat ds) \<and>
    fe_Size entry = wrap64 (int (length (concat ds)))"
proof -
  define fs0 where "fs0 = (if op_Overwrite opts then fst (os_Remove fs target) else fs)"
  obtain r where rm: "os_Remove fs target = (fst (os_Remove fs target), r)" by (metis prod.collapse)
  have cwd: "fs_cwd fs0 = fs_cwd fs"
    by (cases rule: os_Remove_cases [OF rm]) (auto simp: fs0_def same_filesD)
  obtain fs1 r1 where cr: "os_create_trunc fs0 target = (fs1, r1)" by force
  then show ?thesis
  proof (cases rule: os_create_trunc_cases)
    case (1 e)
    with assms cr show ?thesis by (simp add: materializeFile_def fs0_def)
  next
    case (2 i)
    then have "copy_chunks c fs1 (key fs0 target, Some i) target (slice (fe_Chunks entry)) 0 = (fs', Inr (fe_Size entry))"
      using assms cr by (auto simp: materializeFile_def Let_def fs0_def split: prod.splits sum.splits if_splits)
    from copy_chunks_ok [OF this] 2 cwd show ?thesis
      by (auto simp: contents_def)
  qed
qed

section \<open>What it leaves alone\<close>

text \<open>\<open>only_at k\<close>: the step changes at most the file with the name \<open>k\<close>.\<close>

definition only_at :: "path \<Rightarrow> fsys \<Rightarrow> fsys \<Rightarrow> bool" where
  "only_at k fs fs' =
     (fs_ok fs' \<and> same_env fs fs' \<and>
      (\<forall>q. q \<noteq> k \<longrightarrow> inode fs' q = inode fs q \<and> contents fs' q = contents fs q))"

lemma only_at_refl: "fs_ok fs \<Longrightarrow> only_at k fs fs"
  by (simp add: only_at_def)

lemma only_at_trans: "only_at k a b \<Longrightarrow> only_at k b c \<Longrightarrow> only_at k a c"
  by (auto simp: only_at_def intro: same_env_trans)

lemma only_atD: "only_at k fs fs' \<Longrightarrow> fs_ok fs'" "only_at k fs fs' \<Longrightarrow> same_env fs fs'"
  "only_at k fs fs' \<Longrightarrow> fs_cwd fs' = fs_cwd fs"
  "only_at k fs fs' \<Longrightarrow> q \<noteq> k \<Longrightarrow> contents fs' q = contents fs q"
  "only_at k fs fs' \<Longrightarrow> q \<noteq> k \<Longrightarrow> inode fs' q = inode fs q"
  by (auto simp: only_at_def same_env_def)

lemma only_at_same_files: "fs_ok fs \<Longrightarrow> same_files fs fs' \<Longrightarrow> only_at k fs fs'"
  by (simp add: only_at_def same_filesD)

lemma only_at_set_data:
  "fs_ok fs \<Longrightarrow> (\<And>q. q \<noteq> k \<Longrightarrow> inode fs q \<noteq> Some i) \<Longrightarrow> only_at k fs (set_data fs i d)"
  by (auto simp: only_at_def contents_def option.map_sel split: option.splits)
    (metis (mono_tags, lifting) fun_upd_other map_option_cong)

lemma only_at_Remove: "fs_ok fs \<Longrightarrow> only_at (key fs p) fs (fst (os_Remove fs p))"
proof -
  assume ok: "fs_ok fs"
  obtain r where rm: "os_Remove fs p = (fst (os_Remove fs p), r)" by (metis prod.collapse)
  then show ?thesis
  proof (cases rule: os_Remove_cases)
    case (1 e)
    then show ?thesis using only_at_refl [OF ok] by simp
  next
    case (2 i)
    have "fs_ok (fs\<lparr>fs_files := AList.delete (key fs p) (fs_files fs)\<rparr>)"
      using ok by (auto simp: fs_ok_def)
    then show ?thesis unfolding 2(3) by (simp add: only_at_def same_env_def contents_def)
  qed (use only_at_same_files [OF ok] in blast)
qed

lemma Remove_gone: "healthy fs \<Longrightarrow> inode (fst (os_Remove fs p)) (key fs p) = None"
proof -
  assume "healthy fs"
  obtain r where rm: "os_Remove fs p = (fst (os_Remove fs p), r)" by (metis prod.collapse)
  then show ?thesis
    using \<open>healthy fs\<close> by (cases rule: os_Remove_cases) (auto simp: same_filesD)
qed

lemma only_at_copy_chunks:
  assumes "copy_chunks c fs (key fs target, Some i) target refs n = (fs', res)"
    and "fs_ok fs" and "\<And>q. q \<noteq> key fs target \<Longrightarrow> inode fs q \<noteq> Some i"
  shows "only_at (key fs target) fs fs'"
  using assms
proof (induction refs arbitrary: fs n)
  case Nil
  then show ?case by (simp add: only_at_refl)
next
  case (Cons ref refs)
  obtain fs1 r1 where one: "copy_chunk c fs (key fs target, Some i) ref = (fs1, r1)" by force
  then obtain d where fs1: "fs1 = set_data fs i d" using copy_chunk_data by blast
  have o1: "only_at (key fs target) fs fs1"
    unfolding fs1 using Cons.prems(2,3) by (rule only_at_set_data)
  have ok1: "fs_ok fs1" and key1: "key fs1 target = key fs target"
    using o1 by (simp_all add: only_atD)
  consider "fs' = fs1" | "fs' = fst (os_Remove fs1 target)"
    | n' where "copy_chunks c fs1 (key fs target, Some i) target refs n' = (fs', res)"
    using Cons.prems(1) one by (auto split: sum.splits if_splits)
  then show ?case
  proof cases
    case 2
    then show ?thesis using only_at_Remove [OF ok1, of target] o1 key1 only_at_trans by simp
  next
    case (3 n')
    have "only_at (key fs1 target) fs1 fs'"
      by (rule Cons.IH) (use 3 key1 ok1 Cons.prems(3) fs1 in auto)
    then show ?thesis using o1 key1 only_at_trans by simp
  qed (use o1 in simp)
qed

lemma only_at_materializeFile:
  assumes "materializeFile opts fs entry c target = (fs', res)" and "op_Overwrite opts"
    and ok: "fs_ok fs" and "healthy fs"
  shows "only_at (key fs target) fs fs'"
proof -
  let ?k = "key fs target"
  define fs0 where "fs0 = fst (os_Remove fs target)"
  have o0: "only_at ?k fs fs0" unfolding fs0_def by (rule only_at_Remove [OF ok])
  have gone: "inode fs0 ?k = None" unfolding fs0_def by (rule Remove_gone [OF assms(4)])
  have ok0: "fs_ok fs0" and key0: "key fs0 target = ?k" using o0 by (simp_all add: only_atD)
  obtain fs1 r1 where cr: "os_create_trunc fs0 target = (fs1, r1)" by force
  then show ?thesis
  proof (cases rule: os_create_trunc_cases)
    case (1 e)
    with assms(1,2) cr have "fs' = fs0" by (simp add: materializeFile_def fs0_def)
    with o0 show ?thesis by simp
  next
    case (2 i)
    have i: "i = fs_next fs0" using 2(5) gone key0 by simp
    have ok1: "fs_ok fs1" using 2(6) ok0 by blast
    have names: "inode fs1 = (inode fs0)(?k \<mapsto> i)" using 2(2) by (simp only: key0)
    have fresh: "inode fs0 q \<noteq> Some i" for q
      using fs_ok_inode [OF ok0, of q i] i by blast
    have "contents fs1 q = contents fs0 q" if "q \<noteq> ?k" for q
      using that names 2(3) fresh [of q] by (cases "inode fs0 q") (auto simp: contents_def)
    then have o1: "only_at ?k fs0 fs1"
      using ok1 2(4) names by (auto simp: only_at_def)
    have key1: "key fs1 target = ?k" using o1 key0 by (simp add: only_atD)
    obtain r2 fs2 where cp: "copy_chunks c fs1 (key fs1 target, Some i) target (slice (fe_Chunks entry)) 0 = (fs2, r2)"
      by force
    have "fs' = fs2"
      using assms(1,2) cr 2(1) cp key0 key1
      by (auto simp: materializeFile_def Let_def fs0_def split: sum.splits if_splits)
    moreover have "only_at (key fs1 target) fs1 fs2"
      using cp ok1 by (rule only_at_copy_chunks) (use names fresh key1 in auto)
    ultimately show ?thesis
      using o0 o1 key1 only_at_trans by metis
  qed
qed

lemma only_at_Link: "fs_ok fs \<Longrightarrow> only_at (key fs q) fs (fst (os_Link fs p q))"
proof -
  assume ok: "fs_ok fs"
  obtain r where ln: "os_Link fs p q = (fst (os_Link fs p q), r)" by (metis prod.collapse)
  then show ?thesis
  proof (cases rule: os_Link_cases)
    case (2 i)
    have "fs_ok (fs\<lparr>fs_files := AList.update (key fs q) i (fs_files fs)\<rparr>)"
      using ok 2(2) by (auto simp: fs_ok_def)
    then show ?thesis unfolding 2(4) by (simp add: only_at_def same_env_def contents_def)
  qed (use only_at_refl [OF ok] in simp)
qed

lemma only_at_Chmod: "fs_ok fs \<Longrightarrow> only_at k fs (fst (os_Chmod fs p m))"
  by (auto simp: os_Chmod_def Let_def only_at_def fs_ok_def same_env_def contents_def split: option.splits)

lemma only_at_try_link:
  assumes "try_link opts fs entry c target = (fs', res)" and ok: "fs_ok fs"
  shows "only_at (key fs target) fs fs'"
proof -
  define fs1 where "fs1 = (if op_Overwrite opts then fst (os_Remove fs target) else fs)"
  have o1: "only_at (key fs target) fs fs1"
    unfolding fs1_def using ok by (simp add: only_at_Remove only_at_refl)
  have o2: "only_at (key fs target) fs (fst (os_Link fs1 p target))" for p
    using only_at_Link [of fs1 target p] o1 only_at_trans by (metis only_atD(1,3))
  have "fs' = fs \<or> (\<exists>p. fs' = fst (os_Link fs1 p target))"
    using assms(1) unfolding try_link_def fs1_def [symmetric]
    by (auto simp: Let_def split: list.splits sum.splits prod.splits if_splits) (metis fst_conv)+
  then show ?thesis using o2 only_at_refl [OF ok] by auto
qed

lemma only_at_entry:
  assumes "materialize_entry opts fs entry c destDir = (fs', res)" and "op_Overwrite opts"
    and ok: "fs_ok fs" and "healthy fs" and "SafeJoin destDir (fe_Path entry) = Inr target"
  shows "only_at (key fs target) fs fs'"
proof -
  let ?k = "key fs target"
  obtain fs1 r1 where mk: "os_MkdirAll fs (filepath_Dir target) = (fs1, r1)" by force
  have o1: "only_at ?k fs fs1"
    using os_MkdirAll_frame [of fs "filepath_Dir target"] mk only_at_same_files [OF ok] by simp
  note d1 = only_atD(1-3) [OF o1]
  obtain fs2 r2 where tl: "try_link opts fs1 entry c target = (fs2, r2)" by force
  have o2: "only_at ?k fs fs2"
    using only_at_try_link [OF tl d1(1)] o1 only_at_trans d1(3) by metis
  note d2 = only_atD(1-3) [OF o2]
  have "healthy fs2" using d2(2) assms(4) healthy_env by blast
  obtain fs3 r3 where mf: "materializeFile opts fs2 entry c target = (fs3, r3)" by force
  have o3: "only_at ?k fs fs3"
    using only_at_materializeFile [OF mf assms(2) d2(1) \<open>healthy fs2\<close>] o2 only_at_trans d2(3) by metis
  have o4: "only_at ?k fs (fst (os_Chmod fs3 target x))" for x
    using only_at_Chmod [OF only_atD(1) [OF o3]] o3 only_at_trans by blast
  have "fs' \<in> {fs1, fs2, fs3} \<or> (\<exists>x. fs' = fst (os_Chmod fs3 target x))"
    using assms(1,5) mk tl mf
    by (auto simp: materialize_entry_def split: sum.splits bool.splits if_splits option.splits)
  then show ?thesis using o1 o2 o3 o4 by blast
qed

section \<open>What a run installs\<close>

lemma verifyCachedChunk_ok:
  assumes "verifyCachedChunk c fs h = Inr u" and "GetChunkPath c fs h = Inr p"
  shows "\<exists>d. contents fs (key fs p) = Some d \<and> ComputeHash d = h"
proof -
  have path: "chunkPath c h = Inr p"
    using assms(2) by (auto simp: GetChunkPath_def split: sum.splits if_splits)
  obtain f n where f: "GetChunkReader c fs h = Inr (f, n)" "VerifyHash (file_reader fs f) h = None"
    using assms(1) by (auto simp: verifyCachedChunk_def split: sum.splits option.splits)
  have "os_Open fs p = Inr f"
    using f(1) path by (auto simp: GetChunkReader_def split: sum.splits if_splits)
  moreover obtain n' where "ComputeReaderHash (file_reader fs f) = Inr (h, n')"
    using f(2) by (auto simp: VerifyHash_def split: sum.splits if_splits)
  ultimately show ?thesis using hash_file by blast
qed

lemma try_link_ok:
  assumes "try_link opts fs entry c target = (fs', Inr True)"
  shows "\<exists>ref d. slice (fe_Chunks entry) = [ref] \<and> cr_Size ref = fe_Size entry \<and> ComputeHash d = cr_Hash ref \<and>
    contents fs' (key fs target) = Some d \<and> op_Strategy opts = StrategyHardLink"
proof -
  define fs1 where "fs1 = (if op_Overwrite opts then fst (os_Remove fs target) else fs)"
  obtain ref p u where ref: "slice (fe_Chunks entry) = [ref]" "cr_Size ref = fe_Size entry"
      "op_Strategy opts = StrategyHardLink"
    and ver: "verifyCachedChunk c fs (cr_Hash ref) = Inr u" "GetChunkPath c fs (cr_Hash ref) = Inr p"
    and ln: "os_Link fs1 p target = (fs', Inr ())"
    using assms unfolding try_link_def fs1_def [symmetric]
    by (auto simp: Let_def split: list.splits sum.splits prod.splits if_splits)
  obtain d where d: "contents fs (key fs p) = Some d" "ComputeHash d = cr_Hash ref"
    using verifyCachedChunk_ok [OF ver] by blast
  have rm: "inode fs1 q = Some i \<Longrightarrow> inode fs q = Some i" "fs_data fs1 = fs_data fs" "fs_cwd fs1 = fs_cwd fs" for q i
  proof -
    obtain r where r: "os_Remove fs target = (fst (os_Remove fs target), r)" by (metis prod.collapse)
    show "inode fs1 q = Some i \<Longrightarrow> inode fs q = Some i" "fs_data fs1 = fs_data fs" "fs_cwd fs1 = fs_cwd fs"
      by (cases rule: os_Remove_cases [OF r];
          auto simp: fs1_def same_filesD split: if_splits)+
  qed
  from ln obtain i where "inode fs1 (key fs1 p) = Some i"
    "fs' = fs1\<lparr>fs_files := AList.update (key fs1 target) i (fs_files fs1)\<rparr>"
    by (cases rule: os_Link_cases) auto
  then have "contents fs' (key fs target) = Some d"
    using d(1) rm(1) [of "key fs p" i] rm(2,3) by (simp add: contents_def)
  then show ?thesis using ref d(2) by blast
qed

definition installed :: "options \<Rightarrow> file_entry \<Rightarrow> bytes \<Rightarrow> bool" where
  "installed opts entry d =
     (\<exists>ds. d = concat ds \<and> map ComputeHash ds = map cr_Hash (slice (fe_Chunks entry)) \<and>
        (op_Strategy opts = StrategyCopy \<longrightarrow>
           map (int o length) ds = map cr_Size (slice (fe_Chunks entry)) \<and>
           fe_Size entry = wrap64 (int (length d))))"

lemma Chmod_contents [simp]: "contents (fst (os_Chmod fs p m)) = contents fs"
  by (auto simp: os_Chmod_def Let_def contents_def fun_eq_iff split: option.splits)

lemma materialize_entry_ok:
  assumes "materialize_entry opts fs entry c destDir = (fs', Inr ())" and ok: "fs_ok fs"
    and "SafeJoin destDir (fe_Path entry) = Inr target"
  shows "\<exists>d. contents fs' (key fs target) = Some d \<and> installed opts entry d"
proof -
  obtain fs1 r1 where mk: "os_MkdirAll fs (filepath_Dir target) = (fs1, r1)" by force
  have sf: "same_files fs fs1" using os_MkdirAll_frame [of fs "filepath_Dir target"] mk by simp
  then have ok1: "fs_ok fs1" and k1: "key fs1 target = key fs target" using ok by (simp_all add: same_filesD)
  obtain fs2 r2 where tl: "try_link opts fs1 entry c target = (fs2, r2)" by force
  have k2: "key fs2 target = key fs target"
    using only_at_try_link [OF tl ok1] k1 by (simp add: only_atD)
  have "r1 = Inr ()" using assms(1,3) mk by (cases r1) (auto simp: materialize_entry_def)
  then consider "r2 = Inr True" "fs' = fs2"
    | fs3 where "materializeFile opts fs2 entry c target = (fs3, Inr ())" "contents fs' = contents fs3"
    using assms(1,3) mk tl
    by (auto simp: materialize_entry_def split: sum.splits prod.splits bool.splits if_splits option.splits)
  then show ?thesis
  proof cases
    case 1
    with try_link_ok [of opts fs1 entry c target fs2] tl k1 show ?thesis
      by (auto simp: installed_def) (metis concat.simps append_Nil2 list.simps(8,9))
  next
    case 2
    from materializeFile_ok [OF 2(1)] obtain ds where "holds_chunks (slice (fe_Chunks entry)) ds"
      "contents fs3 (key fs2 target) = Some (concat ds)" "fe_Size entry = wrap64 (int (length (concat ds)))"
      by blast
    then show ?thesis
      unfolding installed_def holds_chunks_def 2(2) k2 by auto
  qed
qed

definition target_key :: "fsys \<Rightarrow> string \<Rightarrow> file_entry \<Rightarrow> path" where
  "target_key fs destDir entry = (case SafeJoin destDir (fe_Path entry) of Inl _ \<Rightarrow> [] | Inr t \<Rightarrow> key fs t)"

lemma target_key_cwd: "fs_cwd fs' = fs_cwd fs \<Longrightarrow> target_key fs' destDir = target_key fs destDir"
  by (simp add: target_key_def fun_eq_iff split: sum.splits)

definition only_in :: "path set \<Rightarrow> fsys \<Rightarrow> fsys \<Rightarrow> bool" where
  "only_in K fs fs' =
     (fs_ok fs' \<and> same_env fs fs' \<and>
      (\<forall>q. q \<notin> K \<longrightarrow> inode fs' q = inode fs q \<and> contents fs' q = contents fs q))"

lemma materialize_files_only_in:
  assumes "materialize_files opts fs entries c destDir ctx = (fs', res)" and "op_Overwrite opts"
    and "fs_ok fs" and "healthy fs"
  shows "only_in (target_key fs destDir ` set entries) fs fs'"
  using assms
proof (induction entries arbitrary: fs ctx)
  case (Cons entry entries)
  obtain fs1 r1 where e: "materialize_entry opts fs entry c destDir = (fs1, r1)" by force
  have o1: "only_at (target_key fs destDir entry) fs fs1"
  proof (cases "SafeJoin destDir (fe_Path entry)")
    case (Inl x)
    then show ?thesis using e Cons.prems(3) by (auto simp: materialize_entry_def only_at_refl)
  next
    case (Inr t)
    then show ?thesis using only_at_entry [OF e Cons.prems(2-4)] by (simp add: target_key_def)
  qed
  note d1 = only_atD(1-3) [OF o1]
  consider "fs' = fs" | "fs' = fs1" | ctx' where "materialize_files opts fs1 entries c destDir ctx' = (fs', res)"
    using Cons.prems(1) e by (auto split: list.splits option.splits sum.splits)
  then show ?case
  proof cases
    case 1
    then show ?thesis using Cons.prems(3) by (simp add: only_in_def)
  next
    case 2
    then show ?thesis using o1 by (auto simp: only_in_def only_at_def)
  next
    case 3
    have "healthy fs1" using d1(2) Cons.prems(4) healthy_env by blast
    from Cons.IH [OF 3 Cons.prems(2) d1(1) this]
    have "only_in (target_key fs destDir ` set entries) fs1 fs'"
      by (simp only: target_key_cwd [OF d1(3)])
    then show ?thesis using o1 by (auto simp: only_in_def only_at_def intro: same_env_trans)
  qed
qed (simp add: only_in_def)

lemma materialize_files_ok:
  assumes "materialize_files opts fs entries c destDir ctx = (fs', Inr ())" and "op_Overwrite opts"
    and "fs_ok fs" and "healthy fs" and "distinct (map (target_key fs destDir) entries)" and "entry \<in> set entries"
  shows "\<exists>t d. SafeJoin destDir (fe_Path entry) = Inr t \<and> contents fs' (key fs t) = Some d \<and> installed opts entry d"
  using assms
proof (induction entries arbitrary: fs ctx)
  case (Cons x entries)
  obtain fs1 where e: "materialize_entry opts fs x c destDir = (fs1, Inr ())"
    and rest: "materialize_files opts fs1 entries c destDir (tl ctx) = (fs', Inr ())"
    using Cons.prems(1) by (auto split: list.splits option.splits sum.splits prod.splits)
  obtain t where t: "SafeJoin destDir (fe_Path x) = Inr t"
    using e by (auto simp: materialize_entry_def split: sum.splits)
  note o1 = only_at_entry [OF e Cons.prems(2-4) t]
  note d1 = only_atD(1-3) [OF o1] and cwd = target_key_cwd [OF only_atD(3) [OF o1], of destDir]
  have h1: "healthy fs1" using d1(2) Cons.prems(4) healthy_env by blast
  show ?case
  proof (cases "entry \<in> set entries")
    case True
    with Cons.IH [OF rest Cons.prems(2) d1(1) h1] Cons.prems(5) show ?thesis
      unfolding cwd d1(3) by simp
  next
    case False
    then have x: "entry = x" using Cons.prems(6) by simp
    obtain d where d: "contents fs1 (key fs t) = Some d" "installed opts entry d"
      using materialize_entry_ok [OF e Cons.prems(3) t] x by blast
    have "key fs t \<notin> target_key fs destDir ` set entries"
      using Cons.prems(5) t by (simp add: target_key_def)
    then have "contents fs' (key fs t) = contents fs1 (key fs t)"
      using materialize_files_only_in [OF rest Cons.prems(2) d1(1) h1] unfolding cwd by (simp add: only_in_def)
    then show ?thesis using d t x by auto
  qed
qed simp

lemma Materialize_spec:
  assumes "Materialize opts fs m c destDir ctx = (fs', res)" and "op_Overwrite opts" and "fs_ok fs" and "healthy fs"
  shows "only_in (target_key fs destDir ` set (m_Files m)) fs fs'"
    and "res = Inr () \<Longrightarrow> distinct (map (target_key fs destDir) (m_Files m)) \<Longrightarrow> e \<in> set (m_Files m) \<Longrightarrow>
      \<exists>t d. SafeJoin destDir (fe_Path e) = Inr t \<and> contents fs' (key fs t) = Some d \<and> installed opts e d"
proof -
  obtain fs1 r1 where mk: "os_MkdirAll fs destDir = (fs1, r1)" by force
  have sf: "same_files fs fs1" using os_MkdirAll_frame [of fs destDir] mk by simp
  note d1 = same_filesD [OF sf] and tk = target_key_cwd [OF same_filesD(2) [OF sf], of destDir]
  have h1: "healthy fs1" using assms(4) healthy_env [OF d1(1)] by simp
  have ok1: "fs_ok fs1" using assms(3) d1 by simp
  consider "fs' = fs" "res \<noteq> Inr ()" | "fs' = fs1" "res \<noteq> Inr ()"
    | "materialize_files opts fs1 (m_Files m) c destDir ctx = (fs', res)"
    using assms(1) mk by (auto simp: Materialize_def split: option.splits sum.splits)
  note cases = this
  from cases show "only_in (target_key fs destDir ` set (m_Files m)) fs fs'"
  proof cases
    case 3
    from materialize_files_only_in [OF this assms(2) ok1 h1] d1 show ?thesis
      unfolding tk by (simp add: only_in_def same_env_def)
  qed (use assms(3) d1 ok1 in \<open>simp_all add: only_in_def\<close>)
  show "\<exists>t d. SafeJoin destDir (fe_Path e) = Inr t \<and> contents fs' (key fs t) = Some d \<and> installed opts e d"
    if "res = Inr ()" "distinct (map (target_key fs destDir) (m_Files m))" "e \<in> set (m_Files m)"
    using cases
  proof cases
    case 3
    from materialize_files_ok [OF 3 [unfolded that(1)] assms(2) ok1 h1] that(2,3) show ?thesis
      unfolding tk d1(2) by blast
  qed (use that(1) in simp_all)
qed

lemma only_in_store:
  assumes "only_in K fs fs'" and "store_inv c fs" and "\<And>k. k \<in> K \<Longrightarrow> k \<notin> store_keys c fs"
  shows "store_inv c fs'" "cas_of c fs' = cas_of c fs"
proof -
  have "inode fs' k = inode fs k \<and> contents fs' k = contents fs k" if "k \<in> store_keys c fs" for k
    using assms(1,3) that by (auto simp: only_in_def)
  moreover have "fs_ok fs'" "fs_cwd fs' = fs_cwd fs" using assms(1) by (simp_all add: only_in_def same_env_def)
  ultimately show "store_inv c fs'" "cas_of c fs' = cas_of c fs"
    using elsewhere_inv [OF assms(2)] by blast+
qed

section \<open>A run that succeeds\<close>

lemma SafeJoin_Dir:
  assumes "SafeJoin base rel = Inr p" and "plain_path cwd" and "resolve cwd p \<noteq> resolve cwd base"
  shows "resolve cwd (filepath_Dir p) = butlast (resolve cwd p)" "resolve cwd p \<noteq> []"
    "\<exists>rest. rest \<noteq> [] \<and> resolve cwd p = resolve cwd base @ rest"
proof -
  let ?r = "filepath_Clean rel" and ?b = "filepath_Clean base"
  have rel: "\<not> rooted ?r" "?r \<noteq> ''..''" "\<not> has_prefix ?r ''../''" and p: "p = filepath_Join [?b, ?r]"
    using assms(1) by (auto simp: SafeJoin_def Let_def split: if_splits)
  have "?r \<noteq> ''.''"
  proof
    assume "?r = ''.''"
    then have "resolve cwd p = resolve cwd base"
      using p resolve_Join [OF assms(2), of ?b "[?r]"] resolve_Clean [OF assms(2), of base] by simp
    with assms(3) show False by simp
  qed
  with rel obtain ws where ws: "ws \<noteq> []" "plain_path ws" "split_slash ?r = ws"
    by (cases rule: clean_rel_plain) auto
  then have "?r = join_slash ws" by (metis join_split)
  then have "join_slash [?b, ?r] = join_slash (?b # ws)" using ws(1) by (cases ws) simp_all
  then have "p = filepath_Join (?b # butlast ws @ [last ws])"
    unfolding p using ws(1) by (simp add: append_butlast_last_id)
  then have "last (split_slash p) = last ws"
    using last_split_Join [of "last ws" ?b "butlast ws"] ws by simp
  then have dir: "resolve cwd p = resolve cwd (filepath_Dir p) @ [last ws]"
    using resolve_Dir [OF assms(2), of p] ws by simp
  then show "resolve cwd (filepath_Dir p) = butlast (resolve cwd p)" "resolve cwd p \<noteq> []" by simp_all
  show "\<exists>rest. rest \<noteq> [] \<and> resolve cwd p = resolve cwd base @ rest"
    using SafeJoin_key [OF assms(1,2)] assms(3) by (metis append_Nil2)
qed

definition stocked :: "chunk_store \<Rightarrow> fsys \<Rightarrow> chunk_ref list \<Rightarrow> bool" where
  "stocked c fs refs =
     list_all (\<lambda>ref. case committed (cas_of c fs) (cr_Hash ref) of
       None \<Rightarrow> False | Some d \<Rightarrow> int (length d) = cr_Size ref) refs"

lemma copy_chunk_progress:
  assumes "store_inv c fs" and "healthy fs" and "committed (cas_of c fs) (cr_Hash ref) = Some d"
    and "int (length d) = cr_Size ref"
  shows "copy_chunk c fs (k, Some i) ref = (set_data fs i (fs_data fs i @ d), Inr d) \<and> ComputeHash d = cr_Hash ref"
proof -
  have hex: "hex_hash (cr_Hash ref)" using assms(3) by (auto simp: cas_of_def split: if_splits)
  obtain f where f: "GetChunkReader c fs (cr_Hash ref) = Inr (f, int (length d))" "read_all fs f = Inr d"
    using GetChunkReader_healthy [OF assms(1) hex assms(2,3)] by metis
  have "write_end fs (k, Some i) d = (set_data fs i (fs_data fs i @ d), Inr ())"
    using assms(2) by (simp add: write_end_def)
  then show ?thesis
    using f store_invD(4) [OF assms(1,3)]
    by (cases "d = []") (simp_all add: copy_chunk_def Let_def assms(4) [symmetric])
qed

lemma copy_chunks_progress:
  assumes "store_inv c fs" and "healthy fs" and "stocked c fs refs"
    and "\<And>q. q \<in> store_keys c fs \<Longrightarrow> inode fs q \<noteq> Some i" and "n = wrap64 n"
  shows "\<exists>d. copy_chunks c fs (k, Some i) target refs n =
    (set_data fs i d, Inr (wrap64 (n + sum_list (map cr_Size refs))))"
  using assms
proof (induction refs arbitrary: fs n)
  case Nil
  then show ?case by (intro exI [of _ "fs_data fs i"]) simp
next
  case (Cons ref refs)
  obtain d where d: "committed (cas_of c fs) (cr_Hash ref) = Some d" "int (length d) = cr_Size ref"
    using Cons.prems(3) by (auto simp: stocked_def split: option.splits)
  let ?fs = "set_data fs i (fs_data fs i @ d)"
  note one = copy_chunk_progress [OF Cons.prems(1,2) d, of k i]
  have keep: "contents ?fs q = contents fs q" if "q \<in> store_keys c fs" for q
    using Cons.prems(4) [OF that] by (cases "inode fs q") (auto simp: contents_def)
  have "store_inv c ?fs" "cas_of c ?fs = cas_of c fs"
    using elsewhere_inv [OF Cons.prems(1), of ?fs] keep store_invD(2) [OF Cons.prems(1)] by auto
  moreover have "healthy ?fs" using Cons.prems(2) healthy_env [of fs ?fs] by (simp add: same_env_def)
  moreover have "store_keys c ?fs = store_keys c fs" by (rule store_keys_cwd) simp
  ultimately obtain d' where "copy_chunks c ?fs (k, Some i) target refs (wrap64 (n + cr_Size ref)) =
      (set_data ?fs i d', Inr (wrap64 (wrap64 (n + cr_Size ref) + sum_list (map cr_Size refs))))"
    using Cons.IH [of ?fs "wrap64 (n + cr_Size ref)"] Cons.prems(3,4) by (auto simp: stocked_def wrap64_def)
  then show ?case
    using one d(2) by (intro exI [of _ d']) (simp add: wrap64_add_left add.assoc)
qed

lemma Remove_no_dir:
  assumes "healthy fs" and "\<not> is_dir fs (key fs p)"
  shows "fs_dirs (fst (os_Remove fs p)) = fs_dirs fs"
  using assms by (auto simp: os_Remove_def Let_def split: option.splits)

lemma only_at_store:
  assumes "only_at k fs fs'" and "store_inv c fs" and "k \<notin> store_keys c fs"
  shows "store_inv c fs'" "cas_of c fs' = cas_of c fs"
  using assms elsewhere_inv [OF assms(2), of fs'] by (metis only_atD)+

lemma create_progress:
  assumes "healthy fs" and "\<not> is_dir fs (key fs p)" and "is_dir fs (butlast (key fs p))"
    and "inode fs (key fs p) = None"
  obtains fs' where "os_create_trunc fs p = (fs', Inr (key fs p, Some (fs_next fs)))" "fs_dirs fs' = fs_dirs fs"
    "only_at (key fs p) fs fs' \<or> \<not> fs_ok fs" "inode fs' = (inode fs)(key fs p \<mapsto> fs_next fs)"
proof -
  obtain fs' r where cr: "os_create_trunc fs p = (fs', r)" by force
  have r: "r = Inr (key fs p, Some (fs_next fs))" and dirs: "fs_dirs fs' = fs_dirs fs"
    using cr assms by (auto simp: os_create_trunc_def os_create_def Let_def)
  from cr have "inode fs' = (inode fs)(key fs p \<mapsto> fs_next fs) \<and> (fs_ok fs \<longrightarrow> only_at (key fs p) fs fs')"
  proof (cases rule: os_create_trunc_cases)
    case (2 i)
    have i: "i = fs_next fs" using 2(5) assms(4) by simp
    have "contents fs' q = contents fs q" if "fs_ok fs" "q \<noteq> key fs p" for q
      using that(2) 2(2,3) fs_ok_inode [OF that(1), of q] i
      by (cases "inode fs q") (auto simp: contents_def)
    with 2 i show ?thesis by (auto simp: only_at_def)
  qed (use r in simp)
  then show thesis using that cr r dirs by blast
qed

lemma materializeFile_progress:
  assumes inv: "store_inv c fs" and "healthy fs" and "op_Overwrite opts" and "k = key fs target"
    and "\<not> is_dir fs k" and "is_dir fs (butlast k)" and out: "k \<notin> store_keys c fs"
    and "stocked c fs (slice (fe_Chunks entry))"
    and "fe_Size entry = wrap64 (sum_list (map cr_Size (slice (fe_Chunks entry))))"
  obtains fs' where "materializeFile opts fs entry c target = (fs', Inr ())" "fs_dirs fs' = fs_dirs fs"
proof -
  note ok = store_invD(2) [OF inv]
  define fs0 where "fs0 = fst (os_Remove fs target)"
  have o0: "only_at k fs fs0" unfolding fs0_def assms(4) by (rule only_at_Remove [OF ok])
  have gone: "inode fs0 k = None" unfolding fs0_def assms(4) by (rule Remove_gone [OF assms(2)])
  have dirs0: "fs_dirs fs0 = fs_dirs fs" unfolding fs0_def using Remove_no_dir assms(2,4,5) by blast
  have h0: "healthy fs0" and ok0: "fs_ok fs0" and k0: "key fs0 target = k"
    using healthy_env [OF only_atD(2) [OF o0]] o0 assms(2,4) by (auto simp: only_atD)
  have d0: "\<not> is_dir fs0 (key fs0 target)" "is_dir fs0 (butlast (key fs0 target))" "inode fs0 (key fs0 target) = None"
    using assms(5,6) dirs0 k0 gone by (simp_all add: is_dir_def)
  obtain fs1 where fs1: "os_create_trunc fs0 target = (fs1, Inr (k, Some (fs_next fs0)))" "fs_dirs fs1 = fs_dirs fs0"
    "only_at k fs0 fs1" "inode fs1 = (inode fs0)(k \<mapsto> fs_next fs0)"
    using create_progress [OF h0 d0] ok0 k0 by metis
  have o1: "only_at k fs fs1" using o0 fs1(3) only_at_trans by blast
  note st = only_at_store [OF o1 inv out]
  have keys: "store_keys c fs1 = store_keys c fs" using o1 store_keys_cwd by (metis only_atD(3))
  have h1: "healthy fs1" using o1 assms(2) healthy_env by (metis only_atD(2))
  have "inode fs1 q \<noteq> Some (fs_next fs0)" if "q \<in> store_keys c fs1" for q
    using that out keys fs1(4) fs_ok_inode [OF ok0, of q] by auto
  moreover have "stocked c fs1 (slice (fe_Chunks entry))"
    using assms(8) st(2) by (simp add: stocked_def)
  ultimately obtain d where "copy_chunks c fs1 (k, Some (fs_next fs0)) target (slice (fe_Chunks entry)) 0 =
      (set_data fs1 (fs_next fs0) d, Inr (fe_Size entry))"
    using copy_chunks_progress [OF st(1) h1, of "slice (fe_Chunks entry)" "fs_next fs0" 0 k target] assms(9) by auto
  then show thesis
    using that fs1(1,2) dirs0 assms(3) by (simp add: materializeFile_def fs0_def [symmetric] set_data_def)
qed

lemma Chmod_dirs [simp]: "fs_dirs (fst (os_Chmod fs p m)) = fs_dirs fs"
  by (simp add: os_Chmod_def Let_def split: option.splits)

lemma entry_progress:
  assumes inv: "store_inv c fs" and "healthy fs" and opts: "op_Overwrite opts" "op_Strategy opts = StrategyCopy"
    and t: "SafeJoin destDir (fe_Path entry) = Inr t" and k: "k = key fs t" "k \<noteq> key fs destDir"
    and "\<not> is_dir fs k" and free: "\<forall>q \<in> set (prefixes_of (butlast k)). inode fs q = None"
    and out: "k \<notin> store_keys c fs" and "stocked c fs (slice (fe_Chunks entry))"
    and "fe_Size entry = wrap64 (sum_list (map cr_Size (slice (fe_Chunks entry))))"
  obtains fs' where "materialize_entry opts fs entry c destDir = (fs', Inr ())"
    "fs_dirs fs' = prefixes_of (butlast k) @ fs_dirs fs"
proof -
  note ok = store_invD(2) [OF inv]
  note dir = SafeJoin_Dir [OF t fs_ok_cwd [OF ok], folded k(1), OF k(2)]
  let ?fs1 = "fs\<lparr>fs_dirs := prefixes_of (butlast k) @ fs_dirs fs\<rparr>"
  have mk: "os_MkdirAll fs (filepath_Dir t) = (?fs1, Inr ())"
    using assms(2) free dir(1) by (auto simp: os_MkdirAll_def Let_def list_ex_iff)
  have sf: "same_files fs ?fs1" by (simp add: same_files_def same_env_def)
  have link: "try_link opts ?fs1 entry c t = (?fs1, Inr False)"
    using opts(2) by (simp add: try_link_def split: list.splits)
  have "k \<notin> set (prefixes_of (butlast k))"
    using dir(2) by (auto simp: in_prefixes_of) (metis append_butlast_last_id append_self_conv append.assoc list.distinct(1) Nil_is_append_conv)
  then have "\<not> is_dir ?fs1 k" "is_dir ?fs1 (butlast k)"
    using assms(8) by (simp_all add: is_dir_def)
  moreover have "store_inv c ?fs1" "cas_of c ?fs1 = cas_of c fs" "healthy ?fs1" "store_keys c ?fs1 = store_keys c fs"
    using same_files_inv [OF sf] inv assms(2) healthy_env [OF same_filesD(1) [OF sf]] store_keys_cwd [OF same_filesD(2) [OF sf]]
    by auto
  ultimately obtain fs2 where "materializeFile opts ?fs1 entry c t = (fs2, Inr ())" "fs_dirs fs2 = fs_dirs ?fs1"
    using materializeFile_progress [of c ?fs1 opts k t entry] opts(1) k(1) out assms(11,12)
    by (auto simp: stocked_def)
  then show thesis
    using mk link t
    by (cases "ParseUint8 (fe_Mode entry)"; intro that) (simp add: materialize_entry_def; fail)+
qed

text \<open>
  \<open>clear_way\<close>: the targets of the entries are distinct and not directories, no file and no other target is
  where a directory has to be.
\<close>

definition clear_way :: "fsys \<Rightarrow> string \<Rightarrow> file_entry list \<Rightarrow> bool" where
  "clear_way fs destDir es =
     (distinct (map (target_key fs destDir) es) \<and>
      (\<forall>e \<in> set es. (\<exists>t. SafeJoin destDir (fe_Path e) = Inr t) \<and>
         target_key fs destDir e \<noteq> key fs destDir \<and> \<not> is_dir fs (target_key fs destDir e) \<and>
         (\<forall>q \<in> set (prefixes_of (butlast (target_key fs destDir e))).
            inode fs q = None \<and> q \<notin> target_key fs destDir ` set es)))"

definition supplied :: "chunk_store \<Rightarrow> fsys \<Rightarrow> string \<Rightarrow> file_entry list \<Rightarrow> bool" where
  "supplied c fs destDir es =
     (\<forall>e \<in> set es. target_key fs destDir e \<notin> store_keys c fs \<and> stocked c fs (slice (fe_Chunks e)) \<and>
        fe_Size e = wrap64 (sum_list (map cr_Size (slice (fe_Chunks e)))))"

lemma files_progress:
  assumes "store_inv c fs" and "healthy fs" and opts: "op_Overwrite opts" "op_Strategy opts = StrategyCopy"
    and "clear_way fs destDir es" and "supplied c fs destDir es" and "set ctx \<subseteq> {None}"
  shows "\<exists>fs'. materialize_files opts fs es c destDir ctx = (fs', Inr ())"
  using assms(1,2,5-7)
proof (induction es arbitrary: fs ctx)
  case (Cons e es)
  let ?k = "target_key fs destDir e"
  have way: "?k \<noteq> key fs destDir" "\<not> is_dir fs ?k" "\<forall>q \<in> set (prefixes_of (butlast ?k)). inode fs q = None"
    and sup: "?k \<notin> store_keys c fs" "stocked c fs (slice (fe_Chunks e))"
      "fe_Size e = wrap64 (sum_list (map cr_Size (slice (fe_Chunks e))))"
    using Cons.prems(3,4) by (auto simp: clear_way_def supplied_def)
  obtain t where t: "SafeJoin destDir (fe_Path e) = Inr t" and k: "?k = key fs t"
    using Cons.prems(3) by (auto simp: clear_way_def target_key_def)
  obtain fs1 where e: "materialize_entry opts fs e c destDir = (fs1, Inr ())"
    and dirs: "fs_dirs fs1 = prefixes_of (butlast ?k) @ fs_dirs fs"
    using entry_progress [OF Cons.prems(1,2) opts t k way sup] by metis
  have o1: "only_at ?k fs fs1"
    using only_at_entry [OF e opts(1) store_invD(2) [OF Cons.prems(1)] Cons.prems(2) t] k by simp
  note cwd = only_atD(3) [OF o1]
  note st = only_at_store [OF o1 Cons.prems(1) sup(1)] and tk = target_key_cwd [OF cwd, of destDir]
  have "healthy fs1" using Cons.prems(2) healthy_env [OF only_atD(2) [OF o1]] by simp
  moreover have "supplied c fs1 destDir es"
    using Cons.prems(4) st(2) unfolding supplied_def tk stocked_def store_keys_cwd [OF cwd] by simp
  moreover have "clear_way fs1 destDir es"
    unfolding clear_way_def tk cwd
    using Cons.prems(3) dirs only_atD(5) [OF o1] by (auto simp: clear_way_def is_dir_def)
  ultimately obtain fs' where "materialize_files opts fs1 es c destDir (tl ctx) = (fs', Inr ())"
    using Cons.IH [OF st(1), of "tl ctx"] Cons.prems(5) by (cases ctx) auto
  then show ?case using e Cons.prems(5) by (cases ctx) auto
qed simp

lemma Materialize_progress:
  assumes "store_inv c fs" and "healthy fs" and "op_Overwrite opts" "op_Strategy opts = StrategyCopy"
    and "Validate m = None" and "clear_way fs destDir (m_Files m)" and "supplied c fs destDir (m_Files m)"
    and "set ctx \<subseteq> {None}"
  shows "\<exists>fs'. Materialize opts fs m c destDir ctx = (fs', Inr ())"
proof -
  let ?fs1 = "fs\<lparr>fs_dirs := prefixes_of (key fs destDir) @ fs_dirs fs\<rparr>" and ?k = "target_key fs destDir"
  note ok = store_invD(2) [OF assms(1)]
  have pre: "set (prefixes_of (key fs destDir)) \<subseteq> set (prefixes_of (butlast (?k e)))"
    if e: "e \<in> set (m_Files m)" for e
  proof -
    obtain t where t: "SafeJoin destDir (fe_Path e) = Inr t" "?k e = key fs t" "?k e \<noteq> key fs destDir"
      using assms(6) e by (auto simp: clear_way_def target_key_def)
    then obtain rest where "rest \<noteq> []" "?k e = key fs destDir @ rest"
      using SafeJoin_Dir(3) [OF t(1) fs_ok_cwd [OF ok]] by auto
    then have "butlast (?k e) = key fs destDir @ butlast rest" by (simp add: butlast_append)
    then show ?thesis by (auto simp: in_prefixes_of)
  qed
  obtain e where "e \<in> set (m_Files m)"
    using assms(5) Validate_iff [of m] by (cases "m_Files m") (auto simp: manifest_ok_def)
  then have "\<forall>q \<in> set (prefixes_of (key fs destDir)). inode fs q = None"
    using pre assms(6) unfolding clear_way_def by blast
  then have mk: "os_MkdirAll fs destDir = (?fs1, Inr ())"
    using assms(2) by (auto simp: os_MkdirAll_def Let_def list_ex_iff)
  have sf: "same_files fs ?fs1" by (simp add: same_files_def same_env_def)
  note st = same_files_inv [OF sf] and cwd = same_filesD(2) [OF sf]
  have "healthy ?fs1" using assms(2) healthy_env [OF same_filesD(1) [OF sf]] by simp
  moreover have "supplied c ?fs1 destDir (m_Files m)"
    using assms(7) st(2) unfolding supplied_def target_key_cwd [OF cwd] stocked_def store_keys_cwd [OF cwd] by simp
  moreover have "?k e \<notin> set (prefixes_of (key fs destDir))" if "e \<in> set (m_Files m)" for e
    using pre [OF that] assms(6) that unfolding clear_way_def by blast
  then have "clear_way ?fs1 destDir (m_Files m)"
    using assms(6) unfolding clear_way_def target_key_cwd [OF cwd] is_dir_def by simp
  ultimately show ?thesis
    using files_progress [of c ?fs1 opts destDir "m_Files m" ctx] st(1) assms mk by (simp add: Materialize_def)
qed

section \<open>A sample artifact\<close>

text \<open>One file \<open>a\<close> with one chunk, which the store \<open>/s\<close> holds.\<close>

definition one_file :: "bytes \<Rightarrow> file_entry" where
  "one_file d =
     \<lparr>fe_Path = ''a'', fe_Size = int (length d), fe_Mode = ''0644'',
      fe_Chunks = Some [\<lparr>cr_Hash = ComputeHash d, cr_Offset = 0, cr_Size = int (length d)\<rparr>]\<rparr>"

definition one_manifest :: "bytes \<Rightarrow> manifest" where
  "one_manifest d =
     Finalize \<lparr>m_SchemaVersion = 0, m_ArtifactID = [], m_Name = ''model'', m_Version = ''1'',
               m_ChunkSize = 0, m_TotalSize = 0, m_Files = [one_file d]\<rparr>"

lemma one_manifest_files [simp]: "m_Files (one_manifest d) = [one_file d]"
  by (simp add: one_manifest_def Finalize_def Let_def one_file_def sample_names insertion_sort_def)

lemma one_manifest_valid: "int (length d) < 2 ^ 63 \<Longrightarrow> Validate (one_manifest d) = None"
  unfolding one_manifest_def
  by (rule finalize_validates_aux)
    (auto simp: sample_names one_file_def file_ok_def chunks_ok_Cons)

lemma target_d [simp]: "SafeJoin ''/d'' ''a'' = Inr ''/d/a''"
  by code_simp

lemma keys_d [simp]:
  "resolve cwd ''/d'' = [''d'']" "resolve cwd ''/d/a'' = [''d'', ''a'']" "resolve cwd ''/s'' = [''s'']"
  by (simp_all add: resolve_def rooted_def has_prefix_def clean_step.simps)

lemma store_at_root [simp]: "rootDir (store_at dir) = dir"
  by (simp add: store_at_def)

lemma one_target: "target_key fs ''/d'' (one_file d) = [''d'', ''a'']"
  by (simp add: target_key_def one_file_def)

lemma target_not_stored: "[''d'', ''a''] \<notin> store_keys (store_at ''/s'') fs"
  by (auto simp: store_keys_def chunk_key_def partial_key_def)

lemma one_clear: "clear_way (stock_fs d) ''/d'' [one_file d]"
  by (auto simp: clear_way_def one_target is_dir_def stock_inode chunk_key_def in_prefixes_of append_eq_Cons_conv)
    (auto simp: one_file_def stock_fs_def blank_fs_def)

lemma one_supplied: "int (length d) < 2 ^ 63 \<Longrightarrow> supplied (store_at ''/s'') (stock_fs d) ''/d'' [one_file d]"
  by (simp add: supplied_def one_target target_not_stored stocked_def) (simp add: one_file_def stock_committed)

section \<open>Properties\<close>

text \<open>
  C16. No path leaves the destination: what \<open>SafeJoin\<close> returns names, from any working directory, the destination
  itself or a path below it with no \<open>..\<close>; an absolute path and one that cleans to a path out of its
  directory are refused.
\<close>
theorem safe_join_contained:
  assumes "plain_path cwd"
  shows "(\<forall>p. SafeJoin base rel = Inr p \<longrightarrow>
      (\<exists>rest. plain_path rest \<and> resolve cwd p = resolve cwd base @ rest)) \<and>
    (rooted rel \<or> filepath_Clean rel = ''..'' \<or> has_prefix (filepath_Clean rel) ''../'' \<longrightarrow>
      (\<exists>e. SafeJoin base rel = Inl e))"
proof -
  have "rooted rel \<Longrightarrow> rooted (filepath_Clean rel)"
    by (simp add: filepath_Clean_def Let_def rooted_Cons) (auto simp: rooted_def has_prefix_def)
  then show ?thesis
    using SafeJoin_key [OF _ assms] by (auto simp: SafeJoin_def Let_def)
qed

theorem safe_join_contained_witness:
  "SafeJoin ''out'' ''a/../b'' = Inr ''out/b'' \<and>
   (\<exists>rest. resolve [''srv''] ''out/b'' = resolve [''srv''] ''out'' @ rest) \<and>
   (\<exists>e. SafeJoin ''out'' ''a/../../b'' = Inl e)"
proof -
  have cwd: "plain_path [''srv'']" by (simp add: plain_def)
  have ok: "SafeJoin ''out'' ''a/../b'' = Inr ''out/b''" by code_simp
  have up: "has_prefix (filepath_Clean ''a/../../b'') ''../''" by code_simp
  from safe_join_contained [OF cwd, of "''out''" "''a/../b''"] ok
  have "\<exists>rest. plain_path rest \<and> resolve [''srv''] ''out/b'' = resolve [''srv''] ''out'' @ rest" by blast
  moreover from safe_join_contained [OF cwd, of "''out''" "''a/../../b''"] up
  have "\<exists>e. SafeJoin ''out'' ''a/../../b'' = Inl e" by blast
  ultimately show ?thesis using cwd ok by blast
qed

text \<open>
  C37. \<open>SafeJoin\<close> refuses every plain name when the destination is the root directory or the current directory, although
  neither leaves it: its last test compares with the cleaned destination followed by a slash, and that is
  \<open>//\<close> for \<open>/\<close> and \<open>./\<close> for \<open>.\<close>.
\<close>
theorem safe_join_refuses_root_and_dot:
  assumes "plain x"
  shows "(\<exists>e. SafeJoin ''/'' x = Inl e) \<and> (\<exists>e. SafeJoin ''.'' x = Inl e) \<and> (\<exists>e. SafeJoin [] x = Inl e)"
proof -
  have x: "filepath_Clean x = x" "\<not> rooted x" "CHR ''/'' \<notin> set x" "x \<noteq> []" "x \<noteq> ''.''" "x \<noteq> ''..''"
    using assms by (cases x; auto simp: filepath_Clean_def Let_def plain_def split_slash_word rooted_Cons)+
  have base: "filepath_Clean ''/'' = ''/''" "filepath_Clean ''.'' = ''.''" "filepath_Clean [] = ''.''" by code_simp+
  have join: "filepath_Join [''/'', x] = ''/'' @ x" "filepath_Join [''.'', x] = x"
    using assms x by (auto simp: filepath_Clean_def Let_def plain_def split_slash_word rooted_def has_prefix_def clean_step.simps)
  have "\<not> has_prefix (''/'' @ x) ''//''" "\<not> has_prefix x ''./''"
    using x by (auto simp: has_prefix_def) (metis in_set_takeD list.set_intros)+
  then show ?thesis
    using x base join by (auto simp: SafeJoin_def Let_def)
qed

theorem safe_join_refuses_root_and_dot_witness:
  "plain ''model.bin'' \<and> (\<exists>e. SafeJoin ''/'' ''model.bin'' = Inl e)"
  using safe_join_refuses_root_and_dot [of "''model.bin''"] by (simp add: plain_def)

text \<open>
  C14. \<open>Materialize\<close> installs the artifact: from a store that holds every chunk of a valid manifest, on a device without
  failures, copying with overwrite into a destination where no file is in the way of a directory, the run
  succeeds; each file then holds the concatenation of pieces with the hashes and the sizes of its chunks, no
  other file has changed, and the store is what it was.
\<close>
theorem materialize_installs_artifact:
  assumes "store_inv c fs" and "healthy fs" and "op_Overwrite opts" "op_Strategy opts = StrategyCopy"
    and "Validate m = None" and "clear_way fs destDir (m_Files m)" and "supplied c fs destDir (m_Files m)"
    and "set ctx \<subseteq> {None}"
  shows "\<exists>fs'. Materialize opts fs m c destDir ctx = (fs', Inr ()) \<and>
    (\<forall>e \<in> set (m_Files m). \<exists>t ds. SafeJoin destDir (fe_Path e) = Inr t \<and>
       contents fs' (key fs t) = Some (concat ds) \<and>
       map ComputeHash ds = map cr_Hash (slice (fe_Chunks e)) \<and>
       map (int o length) ds = map cr_Size (slice (fe_Chunks e))) \<and>
    (\<forall>q. q \<notin> target_key fs destDir ` set (m_Files m) \<longrightarrow> contents fs' q = contents fs q) \<and>
    store_inv c fs' \<and> cas_of c fs' = cas_of c fs"
proof -
  obtain fs' where run: "Materialize opts fs m c destDir ctx = (fs', Inr ())"
    using Materialize_progress [OF assms] by blast
  have out: "target_key fs destDir e \<notin> store_keys c fs" if "e \<in> set (m_Files m)" for e
    using assms(7) that by (simp add: supplied_def)
  note spec = Materialize_spec [OF run assms(3) store_invD(2) [OF assms(1)] assms(2)]
  have "distinct (map (target_key fs destDir) (m_Files m))" using assms(6) by (simp add: clear_way_def)
  note spec2 = spec(2) [OF refl this]
  have "\<exists>t ds. SafeJoin destDir (fe_Path e) = Inr t \<and> contents fs' (key fs t) = Some (concat ds) \<and>
      map ComputeHash ds = map cr_Hash (slice (fe_Chunks e)) \<and>
      map (int o length) ds = map cr_Size (slice (fe_Chunks e))" if "e \<in> set (m_Files m)" for e
    using spec2 [OF that] assms(4) unfolding installed_def by blast
  moreover have "store_inv c fs'" "cas_of c fs' = cas_of c fs"
    using only_in_store [OF spec(1) assms(1)] out by blast+
  moreover have "contents fs' q = contents fs q" if "q \<notin> target_key fs destDir ` set (m_Files m)" for q
    using spec(1) that by (simp add: only_in_def)
  ultimately show ?thesis using run by auto
qed

theorem materialize_installs_artifact_witness:
  "\<exists>fs'. Materialize DefaultOptions (stock_fs [7]) (one_manifest [7]) (store_at ''/s'') ''/d'' [] = (fs', Inr ()) \<and>
     contents fs' (chunk_key (store_at ''/s'') (stock_fs [7]) (ComputeHash [7])) = Some [7]"
proof -
  let ?c = "store_at ''/s''" and ?fs = "stock_fs [7]" and ?m = "one_manifest [7]"
  have "\<exists>fs'. Materialize DefaultOptions ?fs ?m ?c ''/d'' [] = (fs', Inr ()) \<and>
      (\<forall>q. q \<notin> target_key ?fs ''/d'' ` set (m_Files ?m) \<longrightarrow> contents fs' q = contents ?fs q)"
    using materialize_installs_artifact [of ?c ?fs DefaultOptions ?m "''/d''" "[]"]
      one_manifest_valid [of "[7]"] one_clear [of "[7]"] one_supplied [of "[7]"]
    by (auto simp: DefaultOptions_def)
  moreover have "chunk_key ?c ?fs (ComputeHash [7]) \<notin> target_key ?fs ''/d'' ` set (m_Files ?m)"
    by (simp add: one_target chunk_key_def)
  moreover have "contents ?fs (chunk_key ?c ?fs (ComputeHash [7])) = Some [7]"
    by (simp add: contents_def stock_key stock_inode) (simp add: stock_fs_def)
  ultimately show ?thesis by metis
qed



lemma verifyCachedChunk_healthy:
  assumes "store_inv c fs" and "healthy fs" and "committed (cas_of c fs) h = Some d"
  shows "verifyCachedChunk c fs h = Inr ()"
proof -
  have hex: "hex_hash h" using assms(3) by (auto simp: cas_of_def split: if_splits)
  obtain f where "GetChunkReader c fs h = Inr (f, int (length d))" "read_all fs f = Inr d"
    using GetChunkReader_healthy [OF assms(1) hex assms(2,3)] by metis
  then show ?thesis
    using store_invD(4) [OF assms(1,3)]
    by (simp add: verifyCachedChunk_def VerifyHash_def ComputeReaderHash_def file_reader_def Let_def)
qed

lemma copy_chunk_short:
  assumes "wf_store c" and "fs_ok fs" and "hex_hash (cr_Hash ref)"
    and "inode fs (chunk_key c fs (cr_Hash ref)) = Some i" and "fs_data fs i = []" and "0 < cr_Size ref"
  shows "\<exists>err. copy_chunk c fs out ref = (fs, Inl err)"
proof -
  obtain p where p: "chunkPath c (cr_Hash ref) = Inr p" "key fs p = chunk_key c fs (cr_Hash ref)"
    using chunkPath_key [OF assms(1-3)] by metis
  then show ?thesis
    using p assms(4-6)
    by (auto simp: copy_chunk_def GetChunkReader_def os_Open_def handle_Stat_def read_all_def Let_def)
qed

text \<open>
  C38. With hard links and without overwrite a second run empties the cache: the link fails because the target is
  there, the fall-back opens the target with \<open>O_TRUNC\<close>, and the target is the chunk's own inode. The run
  fails, and what the store then holds for the chunk is no longer the content of its hash.
\<close>
theorem relink_without_overwrite_empties_chunk:
  assumes "store_inv c fs" and "healthy fs" and "op_Strategy opts = StrategyHardLink" and "\<not> op_Overwrite opts"
    and "slice (fe_Chunks e) = [ref]" and "cr_Size ref = fe_Size e"
    and "committed (cas_of c fs) (cr_Hash ref) = Some d" and "d \<noteq> []" and "cr_Size ref = int (length d)"
    and "SafeJoin destDir (fe_Path e) = Inr t" and "os_MkdirAll fs (filepath_Dir t) = (fs1, Inr ())"
    and "inode fs (key fs t) = inode fs (chunk_key c fs (cr_Hash ref))" and "\<not> is_dir fs1 (key fs t)"
  shows "\<exists>fs' err. materialize_entry opts fs e c destDir = (fs', Inl err) \<and>
    committed (cas_of c fs') (cr_Hash ref) = Some []"
proof -
  let ?h = "cr_Hash ref" and ?k = "key fs t"
  have sf: "same_files fs fs1" using os_MkdirAll_frame [of fs "filepath_Dir t"] assms(11) by simp
  note d1 = same_filesD [OF sf]
  have inv1: "store_inv c fs1" and cas1: "cas_of c fs1 = cas_of c fs"
    using same_files_inv [OF sf] assms(1) by auto
  have h1: "healthy fs1" using assms(2) healthy_env [OF d1(1)] by simp
  have hex: "hex_hash ?h" using assms(7) by (auto simp: cas_of_def split: if_splits)
  obtain i where i: "inode fs1 (chunk_key c fs ?h) = Some i" "inode fs1 ?k = Some i"
    using assms(7,12) hex d1(3) by (auto simp: cas_of_def contents_def)
  have ck: "chunk_key c fs' h = chunk_key c fs h" if "fs_cwd fs' = fs_cwd fs" for fs' h
    using that by (simp add: chunk_key_def)
  have "os_Link fs1 p t = (fs1, Inl (if inode fs1 (key fs1 p) = None then
      if is_dir fs1 (key fs1 p) then ErrIsDir else missing fs1 (key fs1 p) else ErrExist))" for p
    using i h1 d1(2) by (simp add: os_Link_def Let_def split: option.splits)
  moreover have "verifyCachedChunk c fs1 ?h = Inr ()"
    using verifyCachedChunk_healthy [OF inv1 h1] assms(7) cas1 by simp
  ultimately have link: "try_link opts fs1 e c t = (fs1, Inr False)"
    using assms(3-6) by (simp add: try_link_def split: sum.splits)
  let ?fs2 = "set_data fs1 i []"
  have tr: "os_create_trunc fs1 t = (?fs2, Inr (?k, Some i))"
    using i(2) h1 d1(2) assms(13) by (simp add: os_create_trunc_def os_create_def Let_def)
  have "\<exists>err. copy_chunk c ?fs2 (?k, Some i) ref = (?fs2, Inl err)"
    using copy_chunk_short [of c ?fs2 ref i "(?k, Some i)"] store_invD(1,2) [OF inv1] hex i(1) d1(2) assms(8,9)
    by (simp add: chunk_key_def)
  then obtain err where "materializeFile opts fs1 e c t = (?fs2, Inl err)"
    using tr assms(4,5) by (auto simp: materializeFile_def)
  then have "materialize_entry opts fs e c destDir = (?fs2, Inl (Wrapf ''failed to materialize file'' err))"
    using assms(10,11) link by (simp add: materialize_entry_def)
  moreover have "committed (cas_of c ?fs2) ?h = Some []"
    using hex i(1) d1(2) by (simp add: cas_of_def contents_def chunk_key_def)
  ultimately show ?thesis by blast
qed

theorem relink_without_overwrite_empties_chunk_witness:
  "\<exists>fs fs' err. store_inv (store_at ''/s'') fs \<and>
     materialize_entry \<lparr>op_Strategy = StrategyHardLink, op_Overwrite = False, op_PreservePerms = True\<rparr> fs
       (one_file [7]) (store_at ''/s'') ''/d'' = (fs', Inl err) \<and>
     committed (cas_of (store_at ''/s'') fs) (ComputeHash [7]) = Some [7] \<and>
     committed (cas_of (store_at ''/s'') fs') (ComputeHash [7]) = Some []"
proof -
  let ?c = "store_at ''/s''" and ?s = "stock_fs [7]"
  let ?fs = "?s\<lparr>fs_files := ([''d'', ''a''], 0) # fs_files ?s\<rparr>"
  let ?o = "\<lparr>op_Strategy = StrategyHardLink, op_Overwrite = False, op_PreservePerms = True\<rparr>"
  have ok: "fs_ok ?fs" by (auto simp: fs_ok_def stock_fs_def blank_fs_def chunk_key_def)
  have "inode ?fs k = inode ?s k \<and> contents ?fs k = contents ?s k" if "k \<in> store_keys ?c ?s" for k
    using that target_not_stored by (auto simp: contents_def)
  from elsewhere_inv [OF stock_fs_ok(3) ok _ this]
  have st: "store_inv ?c ?fs" "cas_of ?c ?fs = cas_of ?c ?s" by simp_all
  have h: "healthy ?fs" by (simp add: healthy_def stock_fs_def blank_fs_def)
  let ?fs1 = "?fs\<lparr>fs_dirs := prefixes_of [''d''] @ fs_dirs ?fs\<rparr>"
  have "\<forall>q \<in> set (prefixes_of [''d'']). inode ?fs q = None"
    by (auto simp: in_prefixes_of stock_inode chunk_key_def append_eq_Cons_conv)
  then have mk: "os_MkdirAll ?fs ''/d'' = (?fs1, Inr ())"
    using h by (auto simp: os_MkdirAll_def Let_def list_ex_iff)
  have dir: "filepath_Dir ''/d/a'' = ''/d''" by code_simp
  have nd: "\<not> is_dir ?fs1 [''d'', ''a'']"
    by (auto simp: is_dir_def in_prefixes_of stock_fs_def blank_fs_def append_eq_Cons_conv)
  have "\<exists>fs' err. materialize_entry ?o ?fs (one_file [7]) ?c ''/d'' = (fs', Inl err) \<and>
      committed (cas_of ?c fs') (cr_Hash \<lparr>cr_Hash = ComputeHash [7], cr_Offset = 0, cr_Size = 1\<rparr>) = Some []"
    by (rule relink_without_overwrite_empties_chunk [OF st(1) h _ _ _ _ _ _ _ _ mk [folded dir], where d = "[7]"])
      (use nd in \<open>simp_all add: one_file_def st(2) stock_committed stock_inode chunk_key_def\<close>)
  moreover have "committed (cas_of ?c ?fs) (ComputeHash [7]) = Some [7]"
    unfolding st(2) stock_committed by simp
  ultimately show ?thesis using st(1) by (simp only: chunk_ref.select_convs) blast
qed

end
