(* ===== verification/Verifier.thy ===== *)
theory Verifier
  imports Materializer
begin

text \<open>
  \<open>pkg/verifier\<close>: checking chunks, the whole chunk store and a materialised directory against its manifest. The error
  texts of a report are the constructors of \<open>remark\<close>. Allocation never fails: a chunk buffer has
  the size the manifest gives.
\<close>

section \<open>Reports\<close>

datatype remark =
    NoRemark
  | JoinRefused go_error
  | FileMissing
  | StatFailed go_error
  | SizeMismatch int int
  | CannotOpen go_error
  | SeekFailed nat int
  | ReadFailed nat go_error
  | HashDiffers nat string string
  | PermDiffers nat nat

record file_result =
  fr_Path :: string
  fr_ExpectedSize :: int
  fr_ActualSize :: int
  fr_ExpectedMode :: string
  fr_ActualMode :: string
  fr_TotalChunks :: nat
  fr_VerifiedChunks :: nat
  fr_CorruptChunks :: "string list"
  fr_Valid :: bool
  fr_Error :: remark

record report =
  rp_ArtifactID :: string
  rp_ArtifactName :: string
  rp_ArtifactVersion :: string
  rp_TotalFiles :: nat
  rp_ValidFiles :: nat
  rp_CorruptFiles :: nat
  rp_MissingFiles :: nat
  rp_TotalChunks :: nat
  rp_VerifiedChunks :: nat
  rp_CorruptChunks :: nat
  rp_FileResults :: "file_result list"
  rp_AllValid :: bool

section \<open>Chunks of the store\<close>

definition VerifyChunk :: "chunk_store \<Rightarrow> fsys \<Rightarrow> string \<Rightarrow> bool \<times> go_error option" where
  "VerifyChunk c fs chunkHash =
     (case GetChunkReader c fs chunkHash of
        Inl e \<Rightarrow> (False, Some (Wrapf ''failed to open chunk'' e))
      | Inr (r, _) \<Rightarrow>
          (case VerifyHash (file_reader fs r) chunkHash of
             Some e \<Rightarrow> (False, Some (Wrapf ''chunk corruption'' e))
           | None \<Rightarrow> (True, None)))"

fun verify_cache_loop :: "chunk_store \<Rightarrow> fsys \<Rightarrow> string list \<Rightarrow> nat \<Rightarrow> string list \<Rightarrow> nat \<times> string list" where
  "verify_cache_loop c fs [] verified corrupt = (verified, corrupt)"
| "verify_cache_loop c fs (h # hs) verified corrupt =
     (let (valid, err) = VerifyChunk c fs h
      in if \<not> valid \<or> err \<noteq> None then verify_cache_loop c fs hs verified (corrupt @ [h])
         else verify_cache_loop c fs hs (verified + 1) corrupt)"

definition VerifyCache :: "chunk_store \<Rightarrow> fsys \<Rightarrow> (nat \<times> string list) result" where
  "VerifyCache c fs =
     (case ListChunks c fs of Inl e \<Rightarrow> Inl e | Inr chunks \<Rightarrow> Inr (verify_cache_loop c fs chunks 0 []))"

section \<open>A materialised directory\<close>

fun octal_digits :: "nat \<Rightarrow> string" where
  "octal_digits n = (if n < 8 then [hex_digit n] else octal_digits (n div 8) @ [hex_digit (n mod 8)])"

definition format_04o :: "nat \<Rightarrow> string" where
  "format_04o n = (let s = octal_digits n in replicate (4 - length s) (CHR ''0'') @ s)"

text \<open>\<open>io.ReadFull\<close> after a seek: up to \<open>n\<close> bytes, fewer at the end of the file.\<close>

definition read_at :: "fsys \<Rightarrow> handle \<Rightarrow> nat \<Rightarrow> nat \<Rightarrow> bytes result" where
  "read_at fs f off n =
     (if n = 0 then Inr []
      else case read_all fs f of Inl e \<Rightarrow> Inl e | Inr d \<Rightarrow> Inr (take n (drop off d)))"

text \<open>The loop over the chunks of a file, with the report, the result of the file and \<open>fileValid\<close>.\<close>

fun verify_chunks ::
    "fsys \<Rightarrow> handle \<Rightarrow> nat \<Rightarrow> chunk_ref list \<Rightarrow> report \<times> file_result \<times> bool \<Rightarrow> report \<times> file_result \<times> bool" where
  "verify_chunks fs f ci [] st = st"
| "verify_chunks fs f ci (ref # refs) (rp, res, fileValid) =
     (let rp = rp\<lparr>rp_TotalChunks := rp_TotalChunks rp + 1\<rparr>
      in if cr_Offset ref < 0 then
           (rp, res\<lparr>fr_Error := SeekFailed ci (cr_Offset ref),
                    fr_CorruptChunks := fr_CorruptChunks res @ [cr_Hash ref]\<rparr>, False)
         else case read_at fs f (nat (cr_Offset ref)) (nat (cr_Size ref)) of
             Inl e \<Rightarrow>
               (rp, res\<lparr>fr_Error := ReadFailed ci e,
                        fr_CorruptChunks := fr_CorruptChunks res @ [cr_Hash ref]\<rparr>, False)
           | Inr buf \<Rightarrow>
               let actualHash = ComputeHash buf
               in if actualHash \<noteq> cr_Hash ref then
                    verify_chunks fs f (Suc ci) refs
                      (rp\<lparr>rp_CorruptChunks := rp_CorruptChunks rp + 1\<rparr>,
                       res\<lparr>fr_CorruptChunks := fr_CorruptChunks res @ [cr_Hash ref],
                           fr_Error := HashDiffers ci (cr_Hash ref) actualHash\<rparr>, False)
                  else
                    verify_chunks fs f (Suc ci) refs
                      (rp\<lparr>rp_VerifiedChunks := rp_VerifiedChunks rp + 1\<rparr>,
                       res\<lparr>fr_VerifiedChunks := fr_VerifiedChunks res + 1\<rparr>, fileValid))"

definition start_result :: "file_entry \<Rightarrow> file_result" where
  "start_result entry =
     \<lparr>fr_Path = fe_Path entry, fr_ExpectedSize = fe_Size entry, fr_ActualSize = 0,
      fr_ExpectedMode = fe_Mode entry, fr_ActualMode = [], fr_TotalChunks = length (slice (fe_Chunks entry)),
      fr_VerifiedChunks = 0, fr_CorruptChunks = [], fr_Valid = False, fr_Error = NoRemark\<rparr>"

text \<open>A file that is recorded as corrupt or missing and ends its round of the loop.\<close>

definition reject :: "report \<Rightarrow> file_result \<Rightarrow> remark \<Rightarrow> report" where
  "reject rp res why =
     (let rp = (if why = FileMissing then rp\<lparr>rp_MissingFiles := rp_MissingFiles rp + 1\<rparr>
                else rp\<lparr>rp_CorruptFiles := rp_CorruptFiles rp + 1\<rparr>)
      in rp\<lparr>rp_AllValid := False, rp_FileResults := rp_FileResults rp @ [res\<lparr>fr_Error := why\<rparr>]\<rparr>)"

definition note_mode :: "file_entry \<Rightarrow> nat \<Rightarrow> file_result \<Rightarrow> file_result" where
  "note_mode entry actual res =
     (if fe_Mode entry = [] then res
      else case ParseUint8 (fe_Mode entry) of
          None \<Rightarrow> res
        | Some perm \<Rightarrow>
            if actual \<noteq> perm \<and> fr_Error res = NoRemark then res\<lparr>fr_Error := PermDiffers actual perm\<rparr> else res)"

definition verify_file :: "fsys \<Rightarrow> string \<Rightarrow> report \<Rightarrow> file_entry \<Rightarrow> report" where
  "verify_file fs targetDir rp entry =
     (let res = start_result entry
      in case SafeJoin targetDir (fe_Path entry) of
           Inl e \<Rightarrow> reject rp res (JoinRefused e)
         | Inr filePath \<Rightarrow>
             (case os_Stat fs filePath of
                Inl e \<Rightarrow> reject rp res (if e = ErrNotExist then FileMissing else StatFailed e)
              | Inr info \<Rightarrow>
                  let res = res\<lparr>fr_ActualSize := fi_Size info, fr_ActualMode := format_04o (fi_Perm info)\<rparr>
                  in if fi_Size info \<noteq> fe_Size entry
                     then reject rp res (SizeMismatch (fe_Size entry) (fi_Size info))
                     else case os_Open fs filePath of
                         Inl e \<Rightarrow> reject rp res (CannotOpen e)
                       | Inr f \<Rightarrow>
                           (case verify_chunks fs f 0 (slice (fe_Chunks entry)) (rp, res, True) of
                              (rp, res, fileValid) \<Rightarrow>
                                let res = (if fileValid then res\<lparr>fr_Valid := True\<rparr> else res);
                                    rp = (if fileValid then rp\<lparr>rp_ValidFiles := rp_ValidFiles rp + 1\<rparr>
                                          else rp\<lparr>rp_CorruptFiles := rp_CorruptFiles rp + 1, rp_AllValid := False\<rparr>)
                                in rp\<lparr>rp_FileResults :=
                                       rp_FileResults rp @ [note_mode entry (fi_Perm info) res]\<rparr>)))"

fun verify_files ::
    "fsys \<Rightarrow> string \<Rightarrow> file_entry list \<Rightarrow> go_error option list \<Rightarrow> report \<Rightarrow> report result" where
  "verify_files fs targetDir [] ctx rp = Inr rp"
| "verify_files fs targetDir (entry # entries) ctx rp =
     (case ctx of
        Some e # _ \<Rightarrow> Inl e
      | _ \<Rightarrow> verify_files fs targetDir entries (tl ctx) (verify_file fs targetDir rp entry))"

definition start_report :: "Manifest.manifest \<Rightarrow> report" where
  "start_report m =
     \<lparr>rp_ArtifactID = m_ArtifactID m, rp_ArtifactName = m_Name m, rp_ArtifactVersion = m_Version m,
      rp_TotalFiles = length (m_Files m), rp_ValidFiles = 0, rp_CorruptFiles = 0, rp_MissingFiles = 0,
      rp_TotalChunks = 0, rp_VerifiedChunks = 0, rp_CorruptChunks = 0, rp_FileResults = [], rp_AllValid = True\<rparr>"

definition VerifyMaterializedDirectory ::
    "fsys \<Rightarrow> Manifest.manifest \<Rightarrow> string \<Rightarrow> go_error option list \<Rightarrow> report result" where
  "VerifyMaterializedDirectory fs m targetDir ctx =
     (case Validate m of
        Some e \<Rightarrow> Inl (Err ''invalid manifest'')
      | None \<Rightarrow> verify_files fs targetDir (m_Files m) ctx (start_report m))"

section \<open>What a report says\<close>

definition good_ref :: "fsys \<Rightarrow> handle \<Rightarrow> chunk_ref \<Rightarrow> bool" where
  "good_ref fs f ref =
     (0 \<le> cr_Offset ref \<and>
      (case read_at fs f (nat (cr_Offset ref)) (nat (cr_Size ref)) of
         Inl _ \<Rightarrow> False | Inr buf \<Rightarrow> ComputeHash buf = cr_Hash ref))"

definition same_files_part :: "report \<Rightarrow> report \<Rightarrow> bool" where
  "same_files_part rp rp' =
     (rp_TotalFiles rp' = rp_TotalFiles rp \<and> rp_ValidFiles rp' = rp_ValidFiles rp \<and>
      rp_CorruptFiles rp' = rp_CorruptFiles rp \<and> rp_MissingFiles rp' = rp_MissingFiles rp \<and>
      rp_FileResults rp' = rp_FileResults rp \<and> rp_AllValid rp' = rp_AllValid rp)"

lemma verify_chunks_result:
  assumes "verify_chunks fs f ci refs (rp, res, v) = (rp', res', v')"
  shows "v' = (v \<and> list_all (good_ref fs f) refs) \<and> same_files_part rp rp' \<and> fr_Path res' = fr_Path res \<and>
    fr_Valid res' = fr_Valid res"
  using assms
proof (induction refs arbitrary: ci rp res v)
  case (Cons ref refs)
  consider "cr_Offset ref < 0" | e where "\<not> cr_Offset ref < 0"
      "read_at fs f (nat (cr_Offset ref)) (nat (cr_Size ref)) = Inl e"
    | buf where "\<not> cr_Offset ref < 0" "read_at fs f (nat (cr_Offset ref)) (nat (cr_Size ref)) = Inr buf"
    by (cases "read_at fs f (nat (cr_Offset ref)) (nat (cr_Size ref))") auto
  then show ?case
  proof cases
    case 3
    note IH = Cons.IH [of "Suc ci"]
    show ?thesis
    proof (cases "ComputeHash buf = cr_Hash ref")
      case True
      with Cons.prems 3 show ?thesis by (auto dest!: IH simp: good_ref_def same_files_part_def)
    next
      case False
      with Cons.prems 3 show ?thesis by (auto dest!: IH simp: good_ref_def same_files_part_def)
    qed
  qed (use Cons.prems in \<open>auto simp: good_ref_def same_files_part_def\<close>)
qed (simp add: same_files_part_def)

definition file_good :: "fsys \<Rightarrow> string \<Rightarrow> file_entry \<Rightarrow> bool" where
  "file_good fs targetDir entry =
     (case SafeJoin targetDir (fe_Path entry) of Inl _ \<Rightarrow> False | Inr p \<Rightarrow>
        (case os_Stat fs p of Inl _ \<Rightarrow> False | Inr info \<Rightarrow>
           fi_Size info = fe_Size entry \<and>
           (case os_Open fs p of Inl _ \<Rightarrow> False | Inr f \<Rightarrow> list_all (good_ref fs f) (slice (fe_Chunks entry)))))"

text \<open>How a round of the loop moves the report.\<close>

definition counted :: "report \<Rightarrow> report \<Rightarrow> string \<Rightarrow> bool \<Rightarrow> bool" where
  "counted rp rp' path good =
     (rp_TotalFiles rp' = rp_TotalFiles rp \<and>
      rp_ValidFiles rp' = rp_ValidFiles rp + (if good then 1 else 0) \<and>
      rp_CorruptFiles rp' + rp_MissingFiles rp' = rp_CorruptFiles rp + rp_MissingFiles rp + (if good then 0 else 1) \<and>
      rp_AllValid rp' = (rp_AllValid rp \<and> good) \<and>
      (\<exists>res. rp_FileResults rp' = rp_FileResults rp @ [res] \<and> fr_Path res = path \<and> fr_Valid res = good))"

lemma counted_reject:
  "fr_Path res = path \<Longrightarrow> \<not> fr_Valid res \<Longrightarrow> counted rp (reject rp res why) path False"
  by (simp add: counted_def reject_def Let_def)

lemma note_mode_simps [simp]:
  "fr_Path (note_mode entry n res) = fr_Path res" "fr_Valid (note_mode entry n res) = fr_Valid res"
  by (simp_all add: note_mode_def split: option.splits)

lemma start_result_simps [simp]:
  "fr_Path (start_result entry) = fe_Path entry" "\<not> fr_Valid (start_result entry)"
  by (simp_all add: start_result_def)

lemma verify_file_counted:
  "counted rp (verify_file fs targetDir rp entry) (fe_Path entry) (file_good fs targetDir entry)"
proof (cases "SafeJoin targetDir (fe_Path entry)")
  case (Inl e)
  then show ?thesis by (simp add: verify_file_def file_good_def counted_reject)
next
  case join: (Inr p)
  show ?thesis
  proof (cases "os_Stat fs p")
    case (Inl e)
    then show ?thesis using join by (simp add: verify_file_def file_good_def counted_reject)
  next
    case stat: (Inr info)
    let ?res = "(start_result entry)\<lparr>fr_ActualSize := fi_Size info, fr_ActualMode := format_04o (fi_Perm info)\<rparr>"
    show ?thesis
    proof (cases "fi_Size info = fe_Size entry")
      case False
      then show ?thesis using join stat by (simp add: verify_file_def file_good_def counted_reject Let_def)
    next
      case size: True
      show ?thesis
      proof (cases "os_Open fs p")
        case (Inl e)
        then show ?thesis using join stat size by (simp add: verify_file_def file_good_def counted_reject Let_def)
      next
        case (Inr f)
        obtain rp' res' v where vc: "verify_chunks fs f 0 (slice (fe_Chunks entry)) (rp, ?res, True) = (rp', res', v)"
          by (metis prod_cases3)
        note r = verify_chunks_result [OF vc]
        then have "file_good fs targetDir entry = v"
          using join stat size Inr by (simp add: file_good_def)
        with r vc join stat size Inr show ?thesis
          by (simp add: verify_file_def Let_def counted_def same_files_part_def)
      qed
    qed
  qed
qed

lemma verify_files_counted:
  assumes "verify_files fs targetDir entries ctx rp = Inr rp'"
  shows "rp_TotalFiles rp' = rp_TotalFiles rp \<and>
    rp_ValidFiles rp' = rp_ValidFiles rp + length (filter (file_good fs targetDir) entries) \<and>
    rp_CorruptFiles rp' + rp_MissingFiles rp' =
      rp_CorruptFiles rp + rp_MissingFiles rp + length (filter (\<lambda>e. \<not> file_good fs targetDir e) entries) \<and>
    rp_AllValid rp' = (rp_AllValid rp \<and> list_all (file_good fs targetDir) entries) \<and>
    map (\<lambda>res. (fr_Path res, fr_Valid res)) (rp_FileResults rp') =
      map (\<lambda>res. (fr_Path res, fr_Valid res)) (rp_FileResults rp) @
      map (\<lambda>e. (fe_Path e, file_good fs targetDir e)) entries"
  using assms
proof (induction entries arbitrary: ctx rp)
  case (Cons e entries)
  have "verify_files fs targetDir entries (tl ctx) (verify_file fs targetDir rp e) = Inr rp'"
    using Cons.prems by (auto split: list.splits option.splits)
  from Cons.IH [OF this] verify_file_counted [of rp fs targetDir e] show ?case
    by (auto simp: counted_def)
qed simp

text \<open>What the report is about: the bytes under the target, chunk by chunk.\<close>

definition intact :: "fsys \<Rightarrow> string \<Rightarrow> file_entry \<Rightarrow> bool" where
  "intact fs targetDir entry =
     (\<exists>t d. SafeJoin targetDir (fe_Path entry) = Inr t \<and> contents fs (key fs t) = Some d \<and>
        int (length d) = fe_Size entry \<and>
        (\<forall>ref \<in> set (slice (fe_Chunks entry)). 0 \<le> cr_Offset ref \<and>
           ComputeHash (take (nat (cr_Size ref)) (drop (nat (cr_Offset ref)) d)) = cr_Hash ref))"






lemma intact_file_good:
  assumes "intact fs targetDir entry" and "healthy fs"
  shows "file_good fs targetDir entry"
proof -
  obtain t i where t: "SafeJoin targetDir (fe_Path entry) = Inr t" "inode fs (key fs t) = Some i"
    "int (length (fs_data fs i)) = fe_Size entry"
    "\<forall>ref \<in> set (slice (fe_Chunks entry)). 0 \<le> cr_Offset ref \<and>
       ComputeHash (take (nat (cr_Size ref)) (drop (nat (cr_Offset ref)) (fs_data fs i))) = cr_Hash ref"
    using assms(1) by (auto simp: intact_def contents_def)
  have "good_ref fs (key fs t, Some i) ref" if "ref \<in> set (slice (fe_Chunks entry))" for ref
    using t(4) that assms(2) by (cases "nat (cr_Size ref) = 0") (auto simp: good_ref_def read_at_def read_all_def)
  then show ?thesis
    using t(1-3) assms(2) by (simp add: file_good_def os_Stat_def os_Open_def Let_def list_all_iff)
qed

lemma chunks_tile:
  assumes "chunks_ok (int (length pre)) refs" and "holds_chunks refs ds"
    and "int (length (pre @ concat ds)) < 2 ^ 63" and "ref \<in> set refs"
  shows "0 \<le> cr_Offset ref \<and>
    ComputeHash (take (nat (cr_Size ref)) (drop (nat (cr_Offset ref)) (pre @ concat ds))) = cr_Hash ref"
  using assms
proof (induction refs arbitrary: pre ds)
  case (Cons x refs)
  obtain d ds' where ds: "ds = d # ds'" "ComputeHash d = cr_Hash x" "int (length d) = cr_Size x" "holds_chunks refs ds'"
    using Cons.prems(2) by (cases ds) (auto simp: holds_chunks_def)
  have "cr_Offset x = int (length pre)"
    using Cons.prems(1,3) wrap64_id [of "int (length pre)"] by (simp add: chunks_ok_Cons)
  moreover have "nat (cr_Size x) = length d" using ds(3) by simp
  ultimately have first: "0 \<le> cr_Offset x \<and>
      ComputeHash (take (nat (cr_Size x)) (drop (nat (cr_Offset x)) (pre @ concat ds))) = cr_Hash x"
    using ds(1,2) by simp
  have "chunks_ok (int (length (pre @ d))) refs"
    using Cons.prems(1) ds(3) by (simp add: chunks_ok_Cons)
  from Cons.IH [OF this ds(4)] Cons.prems(3,4) first show ?case
    unfolding ds(1) by auto
qed simp

lemma installed_intact:
  assumes "file_ok e" and "installed opts e d" and "op_Strategy opts = StrategyCopy"
    and "sum_list (map cr_Size (slice (fe_Chunks e))) < 2 ^ 63"
    and "SafeJoin destDir (fe_Path e) = Inr t" and "contents fs (key fs t) = Some d"
  shows "intact fs destDir e"
proof -
  let ?refs = "slice (fe_Chunks e)"
  obtain ds where ds: "d = concat ds" "map ComputeHash ds = map cr_Hash ?refs"
    "map (int o length) ds = map cr_Size ?refs" "fe_Size e = wrap64 (int (length d))"
    using assms(2,3) unfolding installed_def by blast
  have "int (length (concat ds)) = sum_list (map cr_Size ?refs)"
    unfolding ds(3) [symmetric] by (induction ds) simp_all
  then have small: "int (length ([] @ concat ds)) < 2 ^ 63" using assms(4) by simp
  have "chunks_ok (int (length [])) ?refs" "holds_chunks ?refs ds"
    using assms(1) ds(2,3) by (simp_all add: file_ok_def holds_chunks_def)
  note tile = chunks_tile [OF this small]
  moreover have "int (length d) = fe_Size e" using ds(1,4) small wrap64_id by simp
  ultimately show ?thesis using assms(5,6) ds(1) by (auto simp: intact_def)
qed

section \<open>Scanning the store\<close>

lemma verify_cache_loop_result:
  "verify_cache_loop c fs hs n bad =
     (n + length (filter (\<lambda>h. VerifyChunk c fs h = (True, None)) hs),
      bad @ filter (\<lambda>h. VerifyChunk c fs h \<noteq> (True, None)) hs)"
  by (induction hs arbitrary: n bad) (auto simp: VerifyChunk_def split: sum.splits option.splits)

lemma VerifyChunk_iff:
  assumes "wf_store c" and "fs_ok fs" and "healthy fs" and "hex_hash h"
  shows "VerifyChunk c fs h = (True, None) \<longleftrightarrow>
    (\<exists>d. contents fs (chunk_key c fs h) = Some d \<and> ComputeHash d = h)"
proof -
  obtain p where p: "chunkPath c h = Inr p" "key fs p = chunk_key c fs h"
    using chunkPath_key [OF assms(1,2,4)] by metis
  then show ?thesis
    using assms(3)
    by (cases "inode fs (chunk_key c fs h)")
      (auto simp: VerifyChunk_def GetChunkReader_def os_Open_def handle_Stat_def VerifyHash_def ComputeReaderHash_def
        file_reader_def read_all_def contents_def Let_def)
qed

section \<open>Properties\<close>



text \<open>
  C17. What \<open>Materialize\<close> installs, \<open>VerifyMaterializedDirectory\<close> accepts: after a run from a store that holds the
  chunks of a valid manifest, whose files are smaller than \<open>2 ^ 63\<close> bytes, the report has every file valid.
\<close>
theorem materialize_then_verify:
  assumes "store_inv c fs" and "healthy fs" and "op_Overwrite opts" "op_Strategy opts = StrategyCopy"
    and "Validate m = None" and "clear_way fs destDir (m_Files m)" and "supplied c fs destDir (m_Files m)"
    and "set ctx \<subseteq> {None}" and "set ctx' \<subseteq> {None}"
    and "\<forall>e \<in> set (m_Files m). sum_list (map cr_Size (slice (fe_Chunks e))) < 2 ^ 63"
  shows "\<exists>fs' rp. Materialize opts fs m c destDir ctx = (fs', Inr ()) \<and>
    VerifyMaterializedDirectory fs' m destDir ctx' = Inr rp \<and> rp_AllValid rp \<and> rp_ValidFiles rp = length (m_Files m)"
proof -
  obtain fs' where run: "Materialize opts fs m c destDir ctx = (fs', Inr ())"
    using Materialize_progress [OF assms(1-8)] by blast
  note spec = Materialize_spec [OF run assms(3) store_invD(2) [OF assms(1)] assms(2)]
  have "same_env fs fs'" using spec(1) by (simp add: only_in_def)
  then have h: "healthy fs'" and cwd: "fs_cwd fs' = fs_cwd fs"
    using assms(2) healthy_env [of fs fs'] by (auto simp: same_env_def)
  have dist: "distinct (map (target_key fs destDir) (m_Files m))" using assms(6) by (simp add: clear_way_def)
  have "intact fs' destDir e" if e: "e \<in> set (m_Files m)" for e
  proof -
    have "file_ok e" using assms(5) e Validate_iff manifest_ok_file by blast
    moreover obtain t d where "SafeJoin destDir (fe_Path e) = Inr t" "contents fs' (key fs t) = Some d" "installed opts e d"
      using spec(2) [OF refl dist e] by blast
    ultimately show ?thesis using installed_intact [of e] assms(4,10) e cwd by metis
  qed
  then have good: "list_all (file_good fs' destDir) (m_Files m)"
    using intact_file_good [OF _ h] by (auto simp: list_all_iff)
  have "\<exists>rp. verify_files fs' destDir es ctx' r = Inr rp" if "set ctx' \<subseteq> {None}" for es ctx' r
    using that by (induction es arbitrary: ctx' r) (force split: list.splits option.splits)+
  then obtain rp where v: "verify_files fs' destDir (m_Files m) ctx' (start_report m) = Inr rp"
    using assms(9) by blast
  note c = verify_files_counted [OF v]
  have "filter (file_good fs' destDir) (m_Files m) = m_Files m" using good by (simp add: list_all_iff)
  then have "rp_AllValid rp" "rp_ValidFiles rp = length (m_Files m)"
    using c good by (simp_all add: start_report_def)
  with run v assms(5) show ?thesis by (simp add: VerifyMaterializedDirectory_def)
qed

theorem materialize_then_verify_witness:
  "\<exists>fs' rp. Materialize DefaultOptions (stock_fs [7]) (one_manifest [7]) (store_at ''/s'') ''/d'' [] = (fs', Inr ()) \<and>
     VerifyMaterializedDirectory fs' (one_manifest [7]) ''/d'' [] = Inr rp \<and> rp_AllValid rp"
  using materialize_then_verify [of "store_at ''/s''" "stock_fs [7]" DefaultOptions "one_manifest [7]" "''/d''" "[]" "[]"]
    one_manifest_valid [of "[7]"] one_clear [of "[7]"] one_supplied [of "[7]"]
  by (auto simp: DefaultOptions_def one_file_def)

text \<open>
  C19. \<open>VerifyCache\<close> finds bit rot: on a device that can be read, whatever the files hold, the chunks it counts and
  the hashes it returns are together the chunks of the store, and a chunk is returned exactly when
  its bytes do not have its hash. A store that only its own operations have changed has none.
\<close>
theorem verify_cache_finds_rot:
  assumes "wf_store c" and "fs_ok fs" and "healthy fs" and "VerifyCache c fs = Inr (n, bad)"
  shows "\<exists>hs. ListChunks c fs = Inr hs \<and> n + length bad = length hs \<and> set bad \<subseteq> set hs \<and>
    (\<forall>h \<in> set hs. hex_hash h \<longrightarrow>
       (h \<in> set bad) = (\<forall>d. contents fs (chunk_key c fs h) = Some d \<longrightarrow> ComputeHash d \<noteq> h)) \<and>
    (store_inv c fs \<longrightarrow> (\<forall>h \<in> set bad. hex_hash h \<longrightarrow> committed (cas_of c fs) h = None))"
proof -
  obtain hs where hs: "ListChunks c fs = Inr hs" "verify_cache_loop c fs hs 0 [] = (n, bad)"
    using assms(4) by (auto simp: VerifyCache_def split: sum.splits)
  let ?good = "\<lambda>h. VerifyChunk c fs h = (True, None)"
  have nb: "n = length (filter ?good hs)" "bad = filter (\<lambda>h. \<not> ?good h) hs"
    using hs(2) by (simp_all add: verify_cache_loop_result)
  have iff: "?good h = (\<exists>d. contents fs (chunk_key c fs h) = Some d \<and> ComputeHash d = h)" if "hex_hash h" for h
    using VerifyChunk_iff [OF assms(1-3) that] .
  have "committed (cas_of c fs) h = None" if "store_inv c fs" "h \<in> set bad" "hex_hash h" for h
    using that(2) iff [OF that(3)] store_invD(4) [OF that(1), of h] that(3)
    by (cases "committed (cas_of c fs) h") (auto simp: nb cas_of_def)
  moreover have "n + length bad = length hs"
    unfolding nb by (rule sum_length_filter_compl)
  ultimately show ?thesis
    using hs(1) iff by (intro exI [of _ hs]) (auto simp: nb)
qed

theorem verify_cache_finds_rot_witness:
  "\<exists>n bad. VerifyCache (store_at ''/s'') (blank_fs\<lparr>fs_dirs := [[''s'', ''chunks'', ''sha256'']]\<rparr>) = Inr (n, bad) \<and>
     n + length bad = 0"
proof -
  let ?fs = "blank_fs\<lparr>fs_dirs := [[''s'', ''chunks'', ''sha256'']]\<rparr>" and ?c = "store_at ''/s''"
  have k: "key ?fs (chunksDir ?c) = [''s'', ''chunks'', ''sha256'']"
    by code_simp
  have l: "ListChunks ?c ?fs = Inr []"
    unfolding ListChunks_def walk_files_def Let_def os_Stat_def k
    by (simp add: blank_fs_def is_dir_def insertion_sort_def below_def)
  then obtain n bad where v: "VerifyCache ?c ?fs = Inr (n, bad)" by (simp add: VerifyCache_def)
  have "wf_store ?c" "fs_ok ?fs" "healthy ?fs" by (simp_all add: fs_ok_def healthy_def blank_fs_def)
  from verify_cache_finds_rot [OF this v] v l show ?thesis by auto
qed

end
