(* ===== verification/Topology.thy ===== *)
theory Topology
  imports Prelude
begin

text \<open>
  \<open>pkg/topology/topology.go\<close>: the distance between two places and the order of peers by it. \<open>peer_info\<close>
  is the message \<open>PeerInfo\<close> that the tracker and the daemons exchange.
\<close>

record peer_info =
  pi_NodeId :: string
  pi_Address :: string
  pi_Region :: string
  pi_Zone :: string
  pi_Rack :: string
  pi_Host :: string
  pi_LastSeenUnix :: int

record locality =
  lo_Region :: string
  lo_Zone :: string
  lo_Rack :: string
  lo_Host :: string

definition ScoreSameHost :: int where "ScoreSameHost = 0"
definition ScoreSameRack :: int where "ScoreSameRack = 10"
definition ScoreSameZone :: int where "ScoreSameZone = 20"
definition ScoreSameRegion :: int where "ScoreSameRegion = 30"
definition ScoreRemote :: int where "ScoreRemote = 40"

lemmas scores = ScoreSameHost_def ScoreSameRack_def ScoreSameZone_def ScoreSameRegion_def ScoreRemote_def

definition FromProto :: "peer_info option \<Rightarrow> locality" where
  "FromProto p =
     (case p of
        None \<Rightarrow> \<lparr>lo_Region = [], lo_Zone = [], lo_Rack = [], lo_Host = []\<rparr>
      | Some p \<Rightarrow>
          \<lparr>lo_Region = trim_space (pi_Region p), lo_Zone = trim_space (pi_Zone p),
           lo_Rack = trim_space (pi_Rack p), lo_Host = trim_space (pi_Host p)\<rparr>)"

definition same_domain :: "string \<Rightarrow> string \<Rightarrow> bool" where
  "same_domain x y = (x \<noteq> [] \<and> y \<noteq> [] \<and> equal_fold x y)"

definition Distance :: "locality \<Rightarrow> locality \<Rightarrow> int" where
  "Distance a b =
     (if same_domain (lo_Host a) (lo_Host b) then ScoreSameHost
      else if same_domain (lo_Rack a) (lo_Rack b) then ScoreSameRack
      else if same_domain (lo_Zone a) (lo_Zone b) then ScoreSameZone
      else if same_domain (lo_Region a) (lo_Region b) then ScoreSameRegion
      else ScoreRemote)"

definition nearer :: "locality \<Rightarrow> peer_info \<Rightarrow> peer_info \<Rightarrow> bool" where
  "nearer self p q =
     (let distI = Distance self (FromProto (Some p)); distJ = Distance self (FromProto (Some q))
      in if distI = distJ then str_less (pi_NodeId p) (pi_NodeId q) else distI < distJ)"

definition SortPeersByProximity :: "locality \<Rightarrow> peer_info list \<Rightarrow> peer_info list" where
  "SortPeersByProximity self peers = insertion_sort (nearer self) peers"

lemma Distance_sym: "Distance a b = Distance b a"
  by (auto simp: Distance_def same_domain_def equal_fold_sym)

lemma Distance_cases: "Distance a b \<in> {0, 10, 20, 30, 40}"
  by (simp add: Distance_def scores)

lemma Distance_same_host: "(Distance a b = ScoreSameHost) = same_domain (lo_Host a) (lo_Host b)"
  by (simp add: Distance_def scores)

lemma nearer_lex:
  "nearer self = (\<lambda>p q. Distance self (FromProto (Some p)) < Distance self (FromProto (Some q)) \<or>
     Distance self (FromProto (Some p)) = Distance self (FromProto (Some q)) \<and>
     str_less (pi_NodeId p) (pi_NodeId q))"
  by (auto simp: nearer_def fun_eq_iff Let_def)

interpretation near: weak_order "nearer self" for self
  unfolding nearer_lex by (intro weak_order_lex weak_order_str)

lemma SortPeers_perm [simp]: "mset (SortPeersByProximity self ps) = mset ps"
  "set (SortPeersByProximity self ps) = set ps" "length (SortPeersByProximity self ps) = length ps"
  by (simp_all add: SortPeersByProximity_def)

lemma SortPeers_sorted: "sorted_wrt (\<lambda>p q. \<not> nearer self q p) (SortPeersByProximity self ps)"
  unfolding SortPeersByProximity_def by (rule near.sorted_insertion_sort)

end
