(* ===== verification/MetaStore.thy ===== *)
theory MetaStore
  imports Topology
begin

text \<open>
  \<open>pkg/store/store.go\<close> and \<open>pkg/store/memory.go\<close>: the records of the tracker, its interface \<open>Store\<close> as
  a table of operations on a state, what the interface promises (the locales \<open>location_store\<close> and
  \<open>metadata_store\<close>, over an abstract index of peers, artifacts, seeds and chunk holders), and the
  in-memory driver. The clock is an argument, in nanoseconds; \<open>None\<close> is the zero time. The order in
  which Go walks a map is the order of the association list.
\<close>

section \<open>Records\<close>

record peer =
  pr_NodeID :: string
  pr_Address :: string
  pr_Region :: string
  pr_Zone :: string
  pr_Rack :: string
  pr_Host :: string
  pr_Status :: string
  pr_LastHeartbeat :: "int option"

definition unix :: "int option \<Rightarrow> int" where
  "unix t = (case t of None \<Rightarrow> - 62135596800 | Some t \<Rightarrow> t div 1000000000)"

definition Proto :: "peer \<Rightarrow> peer_info" where
  "Proto p =
     \<lparr>pi_NodeId = pr_NodeID p, pi_Address = pr_Address p, pi_Region = pr_Region p, pi_Zone = pr_Zone p,
      pi_Rack = pr_Rack p, pi_Host = pr_Host p, pi_LastSeenUnix = unix (pr_LastHeartbeat p)\<rparr>"

definition PeerFromProto :: "int \<Rightarrow> peer_info option \<Rightarrow> peer" where
  "PeerFromProto now info =
     (case info of
        None \<Rightarrow>
          \<lparr>pr_NodeID = [], pr_Address = [], pr_Region = [], pr_Zone = [], pr_Rack = [], pr_Host = [],
           pr_Status = [], pr_LastHeartbeat = None\<rparr>
      | Some info \<Rightarrow>
          let ts = (if pi_LastSeenUnix info > 0 then pi_LastSeenUnix info * 1000000000 else now)
          in \<lparr>pr_NodeID = pi_NodeId info, pr_Address = pi_Address info, pr_Region = pi_Region info,
              pr_Zone = pi_Zone info, pr_Rack = pi_Rack info, pr_Host = pi_Host info,
              pr_Status = ''HEALTHY'', pr_LastHeartbeat = Some ts\<rparr>)"

record artifact_record =
  ar_ArtifactID :: string
  ar_Name :: string
  ar_Version :: string
  ar_ManifestJSON :: bytes

text \<open>\<open>time.Time.Sub\<close>: the difference, at most the largest and at least the smallest \<open>Duration\<close>.\<close>

definition time_Sub :: "int \<Rightarrow> int option \<Rightarrow> int" where
  "time_Sub now t =
     (case t of None \<Rightarrow> 2 ^ 63 - 1 | Some t \<Rightarrow> max (- (2 ^ 63)) (min (2 ^ 63 - 1) (now - t)))"

section \<open>The interface\<close>

record 's store =
  Name :: string
  Ping :: "'s \<Rightarrow> unit result"
  UpsertPeer :: "int \<Rightarrow> peer \<Rightarrow> 's \<Rightarrow> 's \<times> unit result"
  Heartbeat :: "int \<Rightarrow> string \<Rightarrow> 's \<Rightarrow> 's \<times> bool result"
  GetPeer :: "int \<Rightarrow> string \<Rightarrow> 's \<Rightarrow> 's \<times> peer option result"
  ListPeers :: "int \<Rightarrow> int \<Rightarrow> 's \<Rightarrow> 's \<times> peer list result"
  DeregisterPeer :: "int \<Rightarrow> string \<Rightarrow> 's \<Rightarrow> 's \<times> unit result"
  PruneExpiredPeers :: "int \<Rightarrow> int \<Rightarrow> 's \<Rightarrow> 's \<times> nat result"
  PutArtifact :: "int \<Rightarrow> artifact_record \<Rightarrow> 's \<Rightarrow> 's \<times> unit result"
  GetArtifact :: "int \<Rightarrow> string \<Rightarrow> 's \<Rightarrow> 's \<times> artifact_record option result"
  ReportSeed :: "int \<Rightarrow> string \<Rightarrow> string \<Rightarrow> 's \<Rightarrow> 's \<times> unit result"
  ListSeeds :: "int \<Rightarrow> string \<Rightarrow> 's \<Rightarrow> 's \<times> string list result"
  ReportChunks :: "int \<Rightarrow> string \<Rightarrow> string list \<Rightarrow> 's \<Rightarrow> 's \<times> int result"
  LocateChunkNodes :: "int \<Rightarrow> string \<Rightarrow> 's \<Rightarrow> 's \<times> string list result"
  LocateChunkNodesBatch :: "int \<Rightarrow> string list \<Rightarrow> 's \<Rightarrow> 's \<times> (string \<times> string list) list result"
  GetPeersBatch :: "int \<Rightarrow> string list \<Rightarrow> 's \<Rightarrow> 's \<times> (string \<times> peer) list result"

section \<open>The in-memory driver\<close>

record memory =
  mm_peers :: "(string \<times> peer) list"
  mm_arts :: "(string \<times> artifact_record) list"
  mm_seeds :: "(string \<times> (string \<times> int) list) list"
  mm_chunks :: "(string \<times> (string \<times> int) list) list"

definition NewMemory :: memory where
  "NewMemory = \<lparr>mm_peers = [], mm_arts = [], mm_seeds = [], mm_chunks = []\<rparr>"

text \<open>Reading a Go map of maps: the inner map, empty when there is none.\<close>

definition nodes_at :: "(string \<times> (string \<times> int) list) list \<Rightarrow> string \<Rightarrow> (string \<times> int) list" where
  "nodes_at m k = (case map_of m k of None \<Rightarrow> [] | Some nodes \<Rightarrow> nodes)"

definition fill_peer :: "int \<Rightarrow> peer \<Rightarrow> peer" where
  "fill_peer now p =
     (let p = (if pr_LastHeartbeat p = None then p\<lparr>pr_LastHeartbeat := Some now\<rparr> else p)
      in if pr_Status p = [] then p\<lparr>pr_Status := ''HEALTHY''\<rparr> else p)"

definition mem_UpsertPeer :: "int \<Rightarrow> peer \<Rightarrow> memory \<Rightarrow> memory \<times> unit result" where
  "mem_UpsertPeer now p m =
     (if pr_NodeID p = [] then (m, Inr ())
      else (m\<lparr>mm_peers := AList.update (pr_NodeID p) (fill_peer now p) (mm_peers m)\<rparr>, Inr ()))"

definition mem_Heartbeat :: "int \<Rightarrow> string \<Rightarrow> memory \<Rightarrow> memory \<times> bool result" where
  "mem_Heartbeat now nodeID m =
     (case map_of (mm_peers m) nodeID of
        None \<Rightarrow> (m, Inr False)
      | Some p \<Rightarrow>
          (m\<lparr>mm_peers := AList.update nodeID (p\<lparr>pr_LastHeartbeat := Some now\<rparr>) (mm_peers m)\<rparr>, Inr True))"

definition mem_GetPeer :: "int \<Rightarrow> string \<Rightarrow> memory \<Rightarrow> memory \<times> peer option result" where
  "mem_GetPeer now nodeID m = (m, Inr (map_of (mm_peers m) nodeID))"

definition mem_ListPeers :: "int \<Rightarrow> int \<Rightarrow> memory \<Rightarrow> memory \<times> peer list result" where
  "mem_ListPeers now expiry m =
     (m, Inr (filter (\<lambda>p. expiry \<le> 0 \<or> time_Sub now (pr_LastHeartbeat p) \<le> expiry) (map snd (mm_peers m))))"

definition drop_node :: "string \<Rightarrow> memory \<Rightarrow> memory" where
  "drop_node nodeID m =
     m\<lparr>mm_peers := AList.delete nodeID (mm_peers m),
       mm_seeds := map (\<lambda>(a, nodes). (a, AList.delete nodeID nodes)) (mm_seeds m),
       mm_chunks := map (\<lambda>(h, nodes). (h, AList.delete nodeID nodes)) (mm_chunks m)\<rparr>"

definition mem_DeregisterPeer :: "int \<Rightarrow> string \<Rightarrow> memory \<Rightarrow> memory \<times> unit result" where
  "mem_DeregisterPeer now nodeID m = (drop_node nodeID m, Inr ())"

definition mem_PruneExpiredPeers :: "int \<Rightarrow> int \<Rightarrow> memory \<Rightarrow> memory \<times> nat result" where
  "mem_PruneExpiredPeers now expiry m =
     (let dead = map fst (filter (\<lambda>(_, p). time_Sub now (pr_LastHeartbeat p) > expiry) (mm_peers m))
      in (fold drop_node dead m, Inr (length dead)))"

definition mem_PutArtifact :: "int \<Rightarrow> artifact_record \<Rightarrow> memory \<Rightarrow> memory \<times> unit result" where
  "mem_PutArtifact now rec m = (m\<lparr>mm_arts := AList.update (ar_ArtifactID rec) rec (mm_arts m)\<rparr>, Inr ())"

definition mem_GetArtifact :: "int \<Rightarrow> string \<Rightarrow> memory \<Rightarrow> memory \<times> artifact_record option result" where
  "mem_GetArtifact now artifactID m = (m, Inr (map_of (mm_arts m) artifactID))"

definition mem_ReportSeed :: "int \<Rightarrow> string \<Rightarrow> string \<Rightarrow> memory \<Rightarrow> memory \<times> unit result" where
  "mem_ReportSeed now artifactID nodeID m =
     (m\<lparr>mm_seeds := AList.update artifactID (AList.update nodeID now (nodes_at (mm_seeds m) artifactID)) (mm_seeds m)\<rparr>,
      Inr ())"

definition mem_ListSeeds :: "int \<Rightarrow> string \<Rightarrow> memory \<Rightarrow> memory \<times> string list result" where
  "mem_ListSeeds now artifactID m = (m, Inr (map fst (nodes_at (mm_seeds m) artifactID)))"

fun report_loop :: "int \<Rightarrow> string \<Rightarrow> string list \<Rightarrow> memory \<Rightarrow> int \<Rightarrow> memory \<times> int" where
  "report_loop now nodeID [] m n = (m, n)"
| "report_loop now nodeID (h # hs) m n =
     (if h = [] then report_loop now nodeID hs m n
      else report_loop now nodeID hs
             (m\<lparr>mm_chunks := AList.update h (AList.update nodeID now (nodes_at (mm_chunks m) h)) (mm_chunks m)\<rparr>) (n + 1))"

definition mem_ReportChunks :: "int \<Rightarrow> string \<Rightarrow> string list \<Rightarrow> memory \<Rightarrow> memory \<times> int result" where
  "mem_ReportChunks now nodeID hashes m =
     (let m = (case map_of (mm_peers m) nodeID of
                 None \<Rightarrow> m
               | Some p \<Rightarrow> m\<lparr>mm_peers := AList.update nodeID (p\<lparr>pr_LastHeartbeat := Some now\<rparr>) (mm_peers m)\<rparr>);
          (m, n) = report_loop now nodeID hashes m 0
      in (m, Inr n))"

definition mem_LocateChunkNodes :: "int \<Rightarrow> string \<Rightarrow> memory \<Rightarrow> memory \<times> string list result" where
  "mem_LocateChunkNodes now hash m = (m, Inr (map fst (nodes_at (mm_chunks m) hash)))"

definition mem_LocateChunkNodesBatch ::
    "int \<Rightarrow> string list \<Rightarrow> memory \<Rightarrow> memory \<times> (string \<times> string list) list result" where
  "mem_LocateChunkNodesBatch now hashes m =
     (m, Inr (fold (\<lambda>h. AList.update h (map fst (nodes_at (mm_chunks m) h))) hashes []))"

definition mem_GetPeersBatch :: "int \<Rightarrow> string list \<Rightarrow> memory \<Rightarrow> memory \<times> (string \<times> peer) list result" where
  "mem_GetPeersBatch now nodeIDs m =
     (m, Inr (fold (\<lambda>i out. case map_of (mm_peers m) i of None \<Rightarrow> out | Some p \<Rightarrow> AList.update i p out) nodeIDs []))"

definition memory_store :: "memory store" where
  "memory_store =
     \<lparr>Name = ''memory'', Ping = (\<lambda>_. Inr ()), UpsertPeer = mem_UpsertPeer, Heartbeat = mem_Heartbeat,
      GetPeer = mem_GetPeer, ListPeers = mem_ListPeers, DeregisterPeer = mem_DeregisterPeer,
      PruneExpiredPeers = mem_PruneExpiredPeers, PutArtifact = mem_PutArtifact, GetArtifact = mem_GetArtifact,
      ReportSeed = mem_ReportSeed, ListSeeds = mem_ListSeeds, ReportChunks = mem_ReportChunks,
      LocateChunkNodes = mem_LocateChunkNodes, LocateChunkNodesBatch = mem_LocateChunkNodesBatch,
      GetPeersBatch = mem_GetPeersBatch\<rparr>"

section \<open>Drivers by name\<close>

record pool =
  po_MaxOpenConns :: int
  po_MaxIdleConns :: int
  po_ConnMaxLifetime :: int
  po_ConnMaxIdleTime :: int

record store_options =
  so_DSN :: string
  so_Pool :: pool

definition Register :: "string \<Rightarrow> 'f \<Rightarrow> (string \<times> 'f) list \<Rightarrow> (string \<times> 'f) list" where
  "Register name fn openers = AList.update name fn openers"

definition Open :: "(string \<times> (store_options \<Rightarrow> 'd result)) list \<Rightarrow> string \<Rightarrow> store_options \<Rightarrow> 'd result" where
  "Open openers driver opts =
     (let driver = (if driver = [] then ''memory'' else driver)
      in case map_of openers driver of
           None \<Rightarrow> Inl (Err ''unknown store driver (registered: memory, sqlite, postgres)'')
         | Some fn \<Rightarrow> fn opts)"

section \<open>What the interface promises\<close>

record index =
  ix_peers :: "string \<Rightarrow> peer option"
  ix_arts :: "string \<Rightarrow> artifact_record option"
  ix_seeds :: "string \<Rightarrow> string set"
  ix_chunks :: "string \<Rightarrow> string set"

definition ix_upsert :: "(int \<Rightarrow> int) \<Rightarrow> int \<Rightarrow> peer \<Rightarrow> index \<Rightarrow> index" where
  "ix_upsert clk now p ix =
     (if pr_NodeID p = [] then ix
      else let q = fill_peer now p
        in ix\<lparr>ix_peers := (ix_peers ix)(pr_NodeID p \<mapsto> q\<lparr>pr_LastHeartbeat := map_option clk (pr_LastHeartbeat q)\<rparr>)\<rparr>)"

definition ix_touch :: "(int \<Rightarrow> int) \<Rightarrow> int \<Rightarrow> string \<Rightarrow> index \<Rightarrow> index" where
  "ix_touch clk now nodeID ix =
     (case ix_peers ix nodeID of
        None \<Rightarrow> ix
      | Some p \<Rightarrow> ix\<lparr>ix_peers := (ix_peers ix)(nodeID \<mapsto> p\<lparr>pr_LastHeartbeat := Some (clk now)\<rparr>)\<rparr>)"

definition ix_drop :: "string set \<Rightarrow> index \<Rightarrow> index" where
  "ix_drop dead ix =
     ix\<lparr>ix_peers := (\<lambda>i. if i \<in> dead then None else ix_peers ix i),
        ix_seeds := (\<lambda>a. ix_seeds ix a - dead), ix_chunks := (\<lambda>h. ix_chunks ix h - dead)\<rparr>"

definition ix_seed :: "string \<Rightarrow> string \<Rightarrow> index \<Rightarrow> index" where
  "ix_seed artifactID nodeID ix =
     ix\<lparr>ix_seeds := (ix_seeds ix)(artifactID := insert nodeID (ix_seeds ix artifactID))\<rparr>"

definition ix_report :: "string \<Rightarrow> string list \<Rightarrow> index \<Rightarrow> index" where
  "ix_report nodeID hashes ix =
     ix\<lparr>ix_chunks := (\<lambda>h. if h \<in> set hashes \<and> h \<noteq> [] then insert nodeID (ix_chunks ix h) else ix_chunks ix h)\<rparr>"

text \<open>The part of an index that a store reports: peers as \<open>cmp\<close> shows them.\<close>

definition seen :: "(peer \<Rightarrow> peer) \<Rightarrow> index \<Rightarrow> index" where
  "seen cmp ix = ix\<lparr>ix_peers := map_option cmp o ix_peers ix\<rparr>"

definition forget :: "peer \<Rightarrow> peer" where
  "forget p = p\<lparr>pr_LastHeartbeat := None\<rparr>"

lemma seen_parts:
  assumes "seen cmp a = seen cmp b"
  shows "ix_chunks a = ix_chunks b" "ix_seeds a = ix_seeds b" "ix_arts a = ix_arts b"
    "map_option cmp (ix_peers a i) = map_option cmp (ix_peers b i)"
proof -
  show "ix_chunks a = ix_chunks b" "ix_seeds a = ix_seeds b" "ix_arts a = ix_arts b"
    using arg_cong [OF assms, of ix_chunks] arg_cong [OF assms, of ix_seeds] arg_cong [OF assms, of ix_arts]
    by (simp_all add: seen_def)
  show "map_option cmp (ix_peers a i) = map_option cmp (ix_peers b i)"
    using arg_cong [OF assms, of "\<lambda>ix. ix_peers ix i"] by (simp add: seen_def)
qed

text \<open>
  Every store keeps the locations of chunks and seeds, the artifacts and the peers; it shows of a peer at
  least all but the heartbeat (\<open>cmp\<close>), it stamps with the time \<open>clk\<close> gives. An operation that fails has
  changed nothing that can be seen. A batch of hashes for which \<open>once\<close> holds is answered without repetitions.
\<close>

locale location_store =
  fixes S :: "'s store" and inv :: "'s \<Rightarrow> bool" and view :: "'s \<Rightarrow> index" and cmp :: "peer \<Rightarrow> peer"
    and clk :: "int \<Rightarrow> int" and once :: "string list \<Rightarrow> bool"
  assumes cmp_keeps: "cmp p = cmp q \<Longrightarrow> forget p = forget q"
    and once_filter: "once hs \<Longrightarrow> once (filter P hs)"
    and keyed: "inv s \<Longrightarrow> ix_peers (view s) i = Some p \<Longrightarrow> pr_NodeID p = i"
    and upsert: "inv s \<Longrightarrow> UpsertPeer S now p s = (s', r) \<Longrightarrow>
      inv s' \<and> seen cmp (view s') = seen cmp (if isl r then view s else ix_upsert clk now p (view s))"
    and heartbeat: "inv s \<Longrightarrow> Heartbeat S now i s = (s', rb) \<Longrightarrow>
      inv s' \<and> seen cmp (view s') = seen cmp (if isl rb then view s else ix_touch clk now i (view s)) \<and>
      (\<forall>b. rb = Inr b \<longrightarrow> b = (ix_peers (view s) i \<noteq> None))"
    and get_peer: "inv s \<Longrightarrow> GetPeer S now i s = (s', rp) \<Longrightarrow>
      inv s' \<and> seen cmp (view s') = seen cmp (view s) \<and>
      (\<forall>p. rp = Inr p \<longrightarrow> map_option cmp p = map_option cmp (ix_peers (view s) i))"
    and list_peers: "inv s \<Longrightarrow> ListPeers S now d s = (s', rl) \<Longrightarrow>
      inv s' \<and> seen cmp (view s') = seen cmp (view s) \<and>
      (\<forall>ps. rl = Inr ps \<longrightarrow> distinct (map pr_NodeID ps) \<and>
         (\<forall>p \<in> set ps. map_option cmp (ix_peers (view s) (pr_NodeID p)) = Some (cmp p)))"
    and deregister: "inv s \<Longrightarrow> DeregisterPeer S now i s = (s', r) \<Longrightarrow>
      inv s' \<and> seen cmp (view s') = seen cmp (if isl r then view s else ix_drop {i} (view s))"
    and prune: "inv s \<Longrightarrow> PruneExpiredPeers S now d s = (s', rn) \<Longrightarrow>
      inv s' \<and> (\<exists>dead. dead \<subseteq> dom (ix_peers (view s)) \<and> finite dead \<and>
        seen cmp (view s') = seen cmp (ix_drop dead (view s)) \<and>
        (case rn of Inl e \<Rightarrow> dead = {} | Inr n \<Rightarrow> card dead = n))"
    and put_artifact: "inv s \<Longrightarrow> PutArtifact S now a s = (s', r) \<Longrightarrow>
      inv s' \<and> seen cmp (view s') = seen cmp (if isl r then view s
        else (view s)\<lparr>ix_arts := (ix_arts (view s))(ar_ArtifactID a \<mapsto> a)\<rparr>)"
    and get_artifact: "inv s \<Longrightarrow> GetArtifact S now k s = (s', ra) \<Longrightarrow>
      inv s' \<and> seen cmp (view s') = seen cmp (view s) \<and> (\<forall>a. ra = Inr a \<longrightarrow> a = ix_arts (view s) k)"
    and report_seed: "inv s \<Longrightarrow> ReportSeed S now k i s = (s', r) \<Longrightarrow>
      inv s' \<and> seen cmp (view s') = seen cmp (if isl r then view s else ix_seed k i (view s))"
    and list_seeds: "inv s \<Longrightarrow> ListSeeds S now k s = (s', rs) \<Longrightarrow>
      inv s' \<and> seen cmp (view s') = seen cmp (view s) \<and>
      (\<forall>ids. rs = Inr ids \<longrightarrow> distinct ids \<and> set ids = ix_seeds (view s) k)"
    and report_chunks: "inv s \<Longrightarrow> ReportChunks S now i hs s = (s', rc) \<Longrightarrow>
      inv s' \<and> seen cmp (view s') = seen cmp (if isl rc then view s else ix_report i hs (ix_touch clk now i (view s))) \<and>
      (\<forall>n. rc = Inr n \<longrightarrow> n = int (length (filter (\<lambda>h. h \<noteq> []) hs)))"
    and locate: "inv s \<Longrightarrow> LocateChunkNodes S now h s = (s', rs) \<Longrightarrow>
      inv s' \<and> seen cmp (view s') = seen cmp (view s) \<and>
      (\<forall>ids. rs = Inr ids \<longrightarrow> (once [h] \<longrightarrow> distinct ids) \<and> set ids = ix_chunks (view s) h)"
    and locate_batch: "inv s \<Longrightarrow> LocateChunkNodesBatch S now hs s = (s', rm) \<Longrightarrow>
      inv s' \<and> seen cmp (view s') = seen cmp (view s) \<and>
      (\<forall>out. rm = Inr out \<longrightarrow> wf_alist out \<and> fst ` set out = set hs \<and>
         (\<forall>(h, ids) \<in> set out. (once hs \<longrightarrow> distinct ids) \<and> set ids = ix_chunks (view s) h))"
    and get_peers: "inv s \<Longrightarrow> GetPeersBatch S now is s = (s', rg) \<Longrightarrow>
      inv s' \<and> seen cmp (view s') = seen cmp (view s) \<and>
      (\<forall>out. rg = Inr out \<longrightarrow> wf_alist out \<and> fst ` set out \<subseteq> set is \<and>
         (\<forall>i \<in> set is. map_option cmp (map_of out i) = map_option cmp (ix_peers (view s) i)))"

text \<open>
  A durable store also reports heartbeats: it lists every peer that is not expired, and none that
  is expired for a second or more; and it prunes none that is not expired, and every one that is for
  a second or more.
\<close>

locale metadata_store = location_store S inv view "\<lambda>p. p" clk once
  for S :: "'s store" and inv :: "'s \<Rightarrow> bool" and view :: "'s \<Rightarrow> index" and clk :: "int \<Rightarrow> int"
    and once :: "string list \<Rightarrow> bool" +
  assumes list_live: "inv s \<Longrightarrow> ListPeers S now d s = (s', Inr ps) \<Longrightarrow> ix_peers (view s) i = Some p \<Longrightarrow>
      pr_LastHeartbeat p = Some t \<Longrightarrow> (if d \<le> 0 then 0 \<le> t else now - t \<le> d) \<Longrightarrow> p \<in> set ps"
    and list_dead: "inv s \<Longrightarrow> ListPeers S now d s = (s', Inr ps) \<Longrightarrow> p \<in> set ps \<Longrightarrow>
      pr_LastHeartbeat p = Some t \<Longrightarrow> 0 < d \<Longrightarrow> d < 2 ^ 63 - 1 \<Longrightarrow> now - t < d + 1000000000"
    and prune_live: "inv s \<Longrightarrow> PruneExpiredPeers S now d s = (s', Inr n) \<Longrightarrow> ix_peers (view s) i = Some p \<Longrightarrow>
      pr_LastHeartbeat p = Some t \<Longrightarrow> now - t \<le> d \<Longrightarrow> 0 < d \<Longrightarrow> ix_peers (view s') i = Some p"
    and prune_dead: "inv s \<Longrightarrow> PruneExpiredPeers S now d s = (s', Inr n) \<Longrightarrow> ix_peers (view s') i = Some p \<Longrightarrow>
      pr_LastHeartbeat p = Some t \<Longrightarrow> 0 < d \<Longrightarrow> d < 2 ^ 63 - 1 \<Longrightarrow> now - t < d + 1000000000"

section \<open>The in-memory driver keeps it\<close>

definition node_maps :: "(string \<times> (string \<times> int) list) list \<Rightarrow> bool" where
  "node_maps m = (wf_alist m \<and> (\<forall>(k, nodes) \<in> set m. wf_alist nodes))"

definition mem_inv :: "memory \<Rightarrow> bool" where
  "mem_inv m =
     (wf_alist (mm_peers m) \<and> wf_alist (mm_arts m) \<and> node_maps (mm_seeds m) \<and> node_maps (mm_chunks m) \<and>
      (\<forall>(i, p) \<in> set (mm_peers m). pr_NodeID p = i \<and> pr_LastHeartbeat p \<noteq> None))"

definition mem_view :: "memory \<Rightarrow> index" where
  "mem_view m =
     \<lparr>ix_peers = map_of (mm_peers m), ix_arts = map_of (mm_arts m),
      ix_seeds = (\<lambda>a. fst ` set (nodes_at (mm_seeds m) a)), ix_chunks = (\<lambda>h. fst ` set (nodes_at (mm_chunks m) h))\<rparr>"

lemma nodes_at_update [simp]:
  "nodes_at (AList.update k nodes m) = (nodes_at m)(k := nodes)"
  by (auto simp: nodes_at_def)

lemma node_maps_at: "node_maps m \<Longrightarrow> wf_alist (nodes_at m k)"
  by (auto simp: node_maps_def nodes_at_def dest!: map_of_SomeD split: option.splits)

lemma set_update_subset: "set (AList.update k v m) \<subseteq> insert (k, v) (set m)"
  by (induction m) (auto split: if_splits)

lemma node_maps_update: "node_maps m \<Longrightarrow> wf_alist nodes \<Longrightarrow> node_maps (AList.update k nodes m)"
  using set_update_subset [of k nodes m] by (fastforce simp: node_maps_def)

lemma map_snd_delete:
  "nodes_at (map (\<lambda>(a, nodes). (a, AList.delete i nodes)) m) k = AList.delete i (nodes_at m k)"
  by (induction m) (auto simp: nodes_at_def split: option.splits)

lemma node_maps_drop: "node_maps m \<Longrightarrow> node_maps (map (\<lambda>(a, nodes). (a, AList.delete i nodes)) m)"
  by (auto simp: node_maps_def comp_def case_prod_unfold)

lemma fst_set_update: "fst ` set (AList.update k v m) = insert k (fst ` set m)"
  by (simp add: dom_update)

lemma fst_set_delete: "fst ` set (AList.delete k m) = fst ` set m - {k}"
  by (metis delete_keys set_map set_removeAll)

lemma mem_invD:
  assumes "mem_inv m"
  shows "wf_alist (mm_peers m)" "wf_alist (mm_arts m)" "node_maps (mm_seeds m)" "node_maps (mm_chunks m)"
    "map_of (mm_peers m) i = Some p \<Longrightarrow> pr_NodeID p = i \<and> pr_LastHeartbeat p \<noteq> None"
  using assms by (auto simp: mem_inv_def dest!: map_of_SomeD)

lemma mem_inv_peer:
  assumes "mem_inv m" and "pr_NodeID p = i" and "pr_LastHeartbeat p \<noteq> None"
  shows "mem_inv (m\<lparr>mm_peers := AList.update i p (mm_peers m)\<rparr>)"
  using assms by (auto simp: mem_inv_def dest!: subsetD [OF set_update_subset])

lemma fill_peer_simps [simp]:
  "pr_NodeID (fill_peer now p) = pr_NodeID p" "pr_LastHeartbeat (fill_peer now p) \<noteq> None"
  by (simp_all add: fill_peer_def Let_def)

lemma mem_touch:
  fixes now :: int
  assumes "mem_inv m" and "map_of (mm_peers m) i = Some p"
  defines "m' \<equiv> m\<lparr>mm_peers := AList.update i (p\<lparr>pr_LastHeartbeat := Some now\<rparr>) (mm_peers m)\<rparr>"
  shows "mem_inv m'" "mem_view m' = ix_touch (\<lambda>t. t) now i (mem_view m)"
proof -
  show "mem_inv m'"
    unfolding m'_def using mem_invD(5) [OF assms(1,2)] assms(1) by (intro mem_inv_peer) simp_all
  show "mem_view m' = ix_touch (\<lambda>t. t) now i (mem_view m)"
    using assms(2) by (simp add: m'_def mem_view_def ix_touch_def)
qed

lemma ix_drop_drop: "ix_drop B (ix_drop A ix) = ix_drop (A \<union> B) ix"
  by (rule index.equality) (auto simp: ix_drop_def fun_eq_iff)

lemma ix_drop_none [simp]: "ix_drop {} ix = ix"
  by (rule index.equality) (simp_all add: ix_drop_def)

lemma ix_report_Nil [simp]: "ix_report i [] ix = ix"
  by (rule index.equality) (simp_all add: ix_report_def)

lemma ix_report_report: "ix_report i hs (ix_report i gs ix) = ix_report i (gs @ hs) ix"
  by (rule index.equality) (auto simp: ix_report_def fun_eq_iff)

lemma ix_report_blank: "ix_report i ([] # hs) ix = ix_report i hs ix"
  by (rule index.equality) (auto simp: ix_report_def fun_eq_iff)

lemma mem_drop:
  assumes "mem_inv m"
  shows "mem_inv (drop_node i m) \<and> mem_view (drop_node i m) = ix_drop {i} (mem_view m)"
proof
  have "set (AList.delete i (mm_peers m)) \<subseteq> set (mm_peers m)" by (rule set_delete_subset)
  then show "mem_inv (drop_node i m)"
    using assms by (auto simp: mem_inv_def drop_node_def node_maps_drop)
  show "mem_view (drop_node i m) = ix_drop {i} (mem_view m)"
    by (rule index.equality)
      (auto simp: mem_view_def drop_node_def ix_drop_def map_snd_delete fst_set_delete fun_eq_iff)
qed

lemma mem_drop_all:
  assumes "mem_inv m"
  shows "mem_inv (fold drop_node dead m) \<and> mem_view (fold drop_node dead m) = ix_drop (set dead) (mem_view m)"
  using assms
proof (induction dead arbitrary: m)
  case (Cons i dead)
  from mem_drop [OF Cons.prems, of i] Cons.IH [of "drop_node i m"] show ?case
    by (simp add: ix_drop_drop)
qed simp

lemma report_loop_mem:
  assumes "mem_inv m" and "report_loop now i hs m n = (m', n')"
  shows "mem_inv m' \<and> mem_view m' = ix_report i hs (mem_view m) \<and>
    n' = n + int (length (filter (\<lambda>h. h \<noteq> []) hs))"
  using assms
proof (induction hs arbitrary: m n)
  case (Cons h hs)
  show ?case
  proof (cases "h = []")
    case True
    with Cons.IH [OF Cons.prems(1)] Cons.prems(2) show ?thesis by (simp add: ix_report_blank)
  next
    case False
    let ?m = "m\<lparr>mm_chunks := AList.update h (AList.update i now (nodes_at (mm_chunks m) h)) (mm_chunks m)\<rparr>"
    have "mem_inv ?m"
      using Cons.prems(1) node_maps_at [OF mem_invD(4) [OF Cons.prems(1)]]
      by (simp add: mem_inv_def node_maps_update)
    moreover have "mem_view ?m = ix_report i [h] (mem_view m)"
      using False by (intro index.equality) (auto simp: mem_view_def ix_report_def fst_set_update fun_eq_iff)
    moreover have "report_loop now i hs ?m (n + 1) = (m', n')" using Cons.prems(2) False by simp
    ultimately show ?thesis
      using Cons.IH [of ?m "n + 1"] False by (simp add: ix_report_report)
  qed
qed simp

lemma fold_update_keys:
  "wf_alist out \<Longrightarrow> wf_alist (fold (\<lambda>h. AList.update h (f h)) hs out) \<and>
     map_of (fold (\<lambda>h. AList.update h (f h)) hs out) = (\<lambda>h. if h \<in> set hs then Some (f h) else map_of out h)"
  by (induction hs arbitrary: out) (auto simp: fun_eq_iff)

lemma fold_update_some:
  "wf_alist out \<Longrightarrow>
     wf_alist (fold (\<lambda>i out. case f i of None \<Rightarrow> out | Some p \<Rightarrow> AList.update i p out) is out) \<and>
     map_of (fold (\<lambda>i out. case f i of None \<Rightarrow> out | Some p \<Rightarrow> AList.update i p out) is out) =
       (\<lambda>i. if i \<in> set is \<and> f i \<noteq> None then f i else map_of out i)"
  by (induction "is" arbitrary: out) (auto simp: fun_eq_iff split: option.splits)

lemma seen_id [simp]: "seen (\<lambda>p. p) ix = ix"
  by (rule index.equality) (simp_all add: seen_def option.map_ident comp_def)

lemma time_Sub_le:
  "pr_LastHeartbeat p = Some t \<Longrightarrow> 0 < d \<Longrightarrow> now - t \<le> d \<Longrightarrow> time_Sub now (pr_LastHeartbeat p) \<le> d"
  "pr_LastHeartbeat p = Some t \<Longrightarrow> 0 < d \<Longrightarrow> d < 2 ^ 63 - 1 \<Longrightarrow> time_Sub now (pr_LastHeartbeat p) \<le> d \<Longrightarrow>
     now - t \<le> d"
  by (auto simp: time_Sub_def)

lemma mem_upsert:
  assumes "mem_inv m" and "mem_UpsertPeer now p m = (m', r)"
  shows "mem_inv m' \<and> r = Inr () \<and> mem_view m' = ix_upsert (\<lambda>t. t) now p (mem_view m)"
  using assms mem_inv_peer [OF assms(1), of "fill_peer now p" "pr_NodeID p"]
  by (auto simp: mem_UpsertPeer_def mem_view_def ix_upsert_def Let_def option.map_ident split: if_splits)

lemma mem_heartbeat:
  assumes "mem_inv m" and "mem_Heartbeat now i m = (m', r)"
  shows "mem_inv m' \<and> r = Inr (map_of (mm_peers m) i \<noteq> None) \<and> mem_view m' = ix_touch (\<lambda>t. t) now i (mem_view m)"
proof (cases "map_of (mm_peers m) i")
  case None
  then show ?thesis using assms by (auto simp: mem_Heartbeat_def mem_view_def ix_touch_def)
next
  case (Some p)
  with mem_touch [OF assms(1) Some, of now] assms(2) show ?thesis by (auto simp: mem_Heartbeat_def)
qed

lemma mem_list:
  assumes "mem_inv m" and "mem_ListPeers now d m = (m', Inr ps)"
  shows "m' = m \<and> distinct (map pr_NodeID ps) \<and>
    (\<forall>p. p \<in> set ps \<longleftrightarrow> map_of (mm_peers m) (pr_NodeID p) = Some p \<and> (d \<le> 0 \<or> time_Sub now (pr_LastHeartbeat p) \<le> d))"
proof -
  let ?P = "\<lambda>p. d \<le> 0 \<or> time_Sub now (pr_LastHeartbeat p) \<le> d"
  note wf = mem_invD [OF assms(1)]
  have ps: "m' = m" "ps = filter ?P (map snd (mm_peers m))"
    using assms(2) by (auto simp: mem_ListPeers_def)
  have ids: "map pr_NodeID (map snd (mm_peers m)) = map fst (mm_peers m)"
    using assms(1) by (auto simp: mem_inv_def)
  then have "distinct (map pr_NodeID (map snd (mm_peers m)))" using wf(1) by (simp only:)
  then have "distinct (map pr_NodeID ps)" unfolding ps(2) by (rule distinct_map_filter)
  moreover have "p \<in> snd ` set (mm_peers m) \<longleftrightarrow> map_of (mm_peers m) (pr_NodeID p) = Some p" for p
  proof
    assume "p \<in> snd ` set (mm_peers m)"
    then obtain i where "(i, p) \<in> set (mm_peers m)" by auto
    then have "map_of (mm_peers m) i = Some p" using wf(1) by simp
    then show "map_of (mm_peers m) (pr_NodeID p) = Some p" using wf(5) by metis
  next
    assume "map_of (mm_peers m) (pr_NodeID p) = Some p"
    then show "p \<in> snd ` set (mm_peers m)" by (metis image_eqI map_of_SomeD snd_conv)
  qed
  ultimately show ?thesis using ps by simp
qed

lemma mem_prune:
  assumes "mem_inv m" and "mem_PruneExpiredPeers now d m = (m', r)"
    and "dead = {i. \<exists>p. map_of (mm_peers m) i = Some p \<and> time_Sub now (pr_LastHeartbeat p) > d}"
  shows "mem_inv m' \<and> finite dead \<and> mem_view m' = ix_drop dead (mem_view m) \<and> r = Inr (card dead)"
proof -
  let ?dead = "map fst (filter (\<lambda>(_, p). time_Sub now (pr_LastHeartbeat p) > d) (mm_peers m))"
  have m': "m' = fold drop_node ?dead m" "r = Inr (length ?dead)"
    using assms(2) by (simp_all add: mem_PruneExpiredPeers_def Let_def)
  have wf: "wf_alist (mm_peers m)" using mem_invD(1) [OF assms(1)] .
  have dead: "set ?dead = dead"
    unfolding assms(3) by (auto simp: image_iff wf dest: map_of_SomeD)
  moreover have "length ?dead = card (set ?dead)"
    using wf by (intro distinct_card [symmetric] distinct_map_filter)
  ultimately show ?thesis using mem_drop_all [OF assms(1), of ?dead] m' by (metis List.finite_set)
qed

lemma mem_report:
  assumes "mem_inv m" and "mem_ReportChunks now i hs m = (m', r)"
  shows "mem_inv m' \<and> mem_view m' = ix_report i hs (ix_touch (\<lambda>t. t) now i (mem_view m)) \<and>
    r = Inr (int (length (filter (\<lambda>h. h \<noteq> []) hs)))"
proof -
  define m1 where "m1 = fst (mem_Heartbeat now i m)"
  have m1: "m1 = (case map_of (mm_peers m) i of None \<Rightarrow> m
      | Some p \<Rightarrow> m\<lparr>mm_peers := AList.update i (p\<lparr>pr_LastHeartbeat := Some now\<rparr>) (mm_peers m)\<rparr>)"
    by (simp add: m1_def mem_Heartbeat_def split: option.splits)
  have "mem_inv m1" "mem_view m1 = ix_touch (\<lambda>t. t) now i (mem_view m)"
    using mem_heartbeat [OF assms(1), of now i m1 "snd (mem_Heartbeat now i m)"] by (simp_all add: m1_def)
  moreover obtain n where "report_loop now i hs m1 0 = (m', n)" "r = Inr n"
    using assms(2) unfolding mem_ReportChunks_def m1 [symmetric] by (auto split: prod.splits)
  ultimately show ?thesis using report_loop_mem [of m1 now i hs 0 m' n] by simp
qed

lemma mem_locate_batch:
  assumes "mem_inv m" and "mem_LocateChunkNodesBatch now hs m = (m', Inr out)"
  shows "m' = m \<and> wf_alist out \<and> fst ` set out = set hs \<and>
    (\<forall>(h, ids) \<in> set out. distinct ids \<and> set ids = ix_chunks (mem_view m) h)"
proof -
  let ?f = "\<lambda>h. map fst (nodes_at (mm_chunks m) h)"
  have out: "m' = m" "out = fold (\<lambda>h. AList.update h (?f h)) hs []"
    using assms(2) by (auto simp: mem_LocateChunkNodesBatch_def)
  note f = fold_update_keys [of "[]" ?f hs, folded out(2)]
  then have wf: "wf_alist out" and mo: "map_of out h = (if h \<in> set hs then Some (?f h) else None)" for h by simp_all
  have "fst ` set out = dom (map_of out)" by (simp add: dom_map_of_conv_image_fst)
  then have "fst ` set out = set hs" using mo by (auto simp: dom_def)
  moreover have "distinct ids \<and> set ids = ix_chunks (mem_view m) h" if "(h, ids) \<in> set out" for h ids
  proof -
    have "ids = ?f h" using that mo [of h] in_set_map_of [OF wf, of h ids] by (auto split: if_splits)
    then show ?thesis
      using node_maps_at [OF mem_invD(4) [OF assms(1)], of h] by (simp add: mem_view_def)
  qed
  ultimately show ?thesis using wf out(1) by blast
qed

lemma mem_get_peers:
  assumes "mem_GetPeersBatch now is m = (m', Inr out)"
  shows "m' = m \<and> wf_alist out \<and> fst ` set out \<subseteq> set is \<and> (\<forall>i \<in> set is. map_of out i = map_of (mm_peers m) i)"
proof -
  have out: "m' = m"
    "out = fold (\<lambda>i out. case map_of (mm_peers m) i of None \<Rightarrow> out | Some p \<Rightarrow> AList.update i p out) is []"
    using assms by (auto simp: mem_GetPeersBatch_def)
  note f = fold_update_some [of "[]" "map_of (mm_peers m)" "is", folded out(2)]
  then have "fst ` set out \<subseteq> set is"
    by (auto simp: dom_map_of_conv_image_fst [symmetric] dom_def split: if_splits)
  with f out(1) show ?thesis by auto
qed

lemma peers_view: "ix_peers (mem_view m) = map_of (mm_peers m)"
  by (simp add: mem_view_def)

lemma mem_get_peer: "mem_GetPeer now i m = (m', r) \<Longrightarrow> m' = m \<and> r = Inr (ix_peers (mem_view m) i)"
  by (auto simp: mem_GetPeer_def mem_view_def)

lemma mem_put_artifact:
  "mem_inv m \<Longrightarrow> mem_PutArtifact now a m = (m', r) \<Longrightarrow> mem_inv m' \<and> r = Inr () \<and>
     mem_view m' = (mem_view m)\<lparr>ix_arts := (ix_arts (mem_view m))(ar_ArtifactID a \<mapsto> a)\<rparr>"
  by (auto simp: mem_PutArtifact_def mem_view_def mem_inv_def)

lemma mem_get_artifact: "mem_GetArtifact now k m = (m', r) \<Longrightarrow> m' = m \<and> r = Inr (ix_arts (mem_view m) k)"
  by (auto simp: mem_GetArtifact_def mem_view_def)

lemma mem_report_seed:
  assumes "mem_inv m" and "mem_ReportSeed now k i m = (m', r)"
  shows "mem_inv m' \<and> r = Inr () \<and> mem_view m' = ix_seed k i (mem_view m)"
proof -
  let ?nodes = "AList.update i now (nodes_at (mm_seeds m) k)"
  have m': "m' = m\<lparr>mm_seeds := AList.update k ?nodes (mm_seeds m)\<rparr>" "r = Inr ()"
    using assms(2) by (simp_all add: mem_ReportSeed_def)
  have "mem_inv m'"
    using assms(1) node_maps_at [OF mem_invD(3) [OF assms(1)]] by (simp add: m' mem_inv_def node_maps_update)
  moreover have "mem_view m' = ix_seed k i (mem_view m)"
    by (rule index.equality) (simp_all add: m' mem_view_def ix_seed_def fst_set_update fun_eq_iff)
  ultimately show ?thesis using m' by simp
qed

lemma mem_list_seeds:
  "mem_inv m \<Longrightarrow> mem_ListSeeds now k m = (m', r) \<Longrightarrow>
     m' = m \<and> (\<exists>ids. r = Inr ids \<and> distinct ids \<and> set ids = ix_seeds (mem_view m) k)"
  using node_maps_at [OF mem_invD(3), of m k] by (auto simp: mem_ListSeeds_def mem_view_def)

lemma mem_locate:
  "mem_inv m \<Longrightarrow> mem_LocateChunkNodes now h m = (m', r) \<Longrightarrow>
     m' = m \<and> (\<exists>ids. r = Inr ids \<and> distinct ids \<and> set ids = ix_chunks (mem_view m) h)"
  using node_maps_at [OF mem_invD(4), of m h] by (auto simp: mem_LocateChunkNodes_def mem_view_def)

lemma mem_never_fails:
  "mem_ListPeers now d m \<noteq> (m', Inl e)" "mem_LocateChunkNodesBatch now hs m \<noteq> (m', Inl e)"
  "mem_GetPeersBatch now is m \<noteq> (m', Inl e)"
  by (auto simp: mem_ListPeers_def mem_LocateChunkNodesBatch_def mem_GetPeersBatch_def)

lemma mem_location_store: "location_store memory_store mem_inv mem_view (\<lambda>p. p) (\<lambda>t. t) (\<lambda>hs. True)"
  apply (unfold_locales; (simp add: memory_store_def option.map_ident)?)
  subgoal using mem_invD(5) by (simp add: mem_view_def)
  subgoal by (drule (1) mem_upsert) simp
  subgoal by (drule (1) mem_heartbeat) (auto simp: peers_view)
  subgoal by (drule mem_get_peer) simp
  subgoal for m now d m' r using mem_list [of m now d m'] by (cases r) (auto simp: mem_never_fails peers_view)
  subgoal by (auto simp: mem_DeregisterPeer_def mem_drop)
  subgoal for m now d m' r
    using mem_prune [of m now d m' r, OF _ _ refl]
    by (intro conjI exI [of _ "{i. \<exists>p. map_of (mm_peers m) i = Some p \<and> time_Sub now (pr_LastHeartbeat p) > d}"])
      (auto simp: peers_view)
  subgoal by (drule (1) mem_put_artifact) simp
  subgoal by (drule mem_get_artifact) simp
  subgoal by (drule (1) mem_report_seed) simp
  subgoal by (frule (1) mem_list_seeds) auto
  subgoal by (drule (1) mem_report) simp
  subgoal by (frule (1) mem_locate) auto
  subgoal for m now hs m' r using mem_locate_batch [of m now hs m'] by (cases r) (auto simp: mem_never_fails)
  subgoal for m now "is" m' r using mem_get_peers [of now "is" m m'] by (cases r) (auto simp: mem_never_fails peers_view)
  done

interpretation mem: metadata_store memory_store mem_inv mem_view "\<lambda>t. t" "\<lambda>hs. True"
proof (intro metadata_store.intro mem_location_store metadata_store_axioms.intro)
  fix m m' now d i r and ps :: "peer list" and p t and n :: nat
  assume inv: "mem_inv m"
  note wf = mem_invD [OF inv]
  show "ListPeers memory_store now d m = (m', Inr ps) \<Longrightarrow> ix_peers (mem_view m) i = Some p \<Longrightarrow>
      pr_LastHeartbeat p = Some t \<Longrightarrow> (if d \<le> 0 then 0 \<le> t else now - t \<le> d) \<Longrightarrow> p \<in> set ps"
    using mem_list [OF inv, of now d m' ps] wf(5) time_Sub_le(1) [of p t d now]
    by (cases "d \<le> 0") (auto simp: memory_store_def mem_view_def)
  show "ListPeers memory_store now d m = (m', Inr ps) \<Longrightarrow> p \<in> set ps \<Longrightarrow>
      pr_LastHeartbeat p = Some t \<Longrightarrow> 0 < d \<Longrightarrow> d < 2 ^ 63 - 1 \<Longrightarrow> now - t < d + 1000000000"
    using mem_list [OF inv, of now d m' ps] time_Sub_le(2) [of p t d now] by (simp add: memory_store_def)
  show "PruneExpiredPeers memory_store now d m = (m', Inr n) \<Longrightarrow> ix_peers (mem_view m) i = Some p \<Longrightarrow>
      pr_LastHeartbeat p = Some t \<Longrightarrow> now - t \<le> d \<Longrightarrow> 0 < d \<Longrightarrow> ix_peers (mem_view m') i = Some p"
    using mem_prune [OF inv, of now d m' "Inr n", OF _ refl] time_Sub_le(1) [of p t d now]
    by (auto simp: memory_store_def ix_drop_def) (auto simp: mem_view_def)
  show "PruneExpiredPeers memory_store now d m = (m', Inr n) \<Longrightarrow> ix_peers (mem_view m') i = Some p \<Longrightarrow>
      pr_LastHeartbeat p = Some t \<Longrightarrow> 0 < d \<Longrightarrow> d < 2 ^ 63 - 1 \<Longrightarrow> now - t < d + 1000000000"
    using mem_prune [OF inv, of now d m' "Inr n", OF _ refl] time_Sub_le(2) [of p t d now]
    by (auto simp: memory_store_def ix_drop_def split: if_splits) (auto simp: mem_view_def)
qed

end
