(* ===== verification/Scheduler.thy ===== *)
theory Scheduler
  imports Topology Float64
begin

text \<open>
  \<open>pkg/scheduler/scheduler.go\<close>: which peer to ask next. The scheduler keeps statistics per peer
  address, limits the transfers in flight to each, and leaves out for a while the peers that failed
  three times in a row. The mutex makes every operation atomic; the clock is an argument, in
  nanoseconds. \<open>WaitBegin\<close> polls: its argument lists the states of the scheduler that
  its polls meet, and whether the context is done by then.
\<close>

definition untrustedAfter :: int where "untrustedAfter = 3"
definition untrustedFor :: int where "untrustedFor = 15 * 60 * 1000000000"
definition ewmaAlpha :: rat where "ewmaAlpha = 1 / 8"

record stats =
  st_RTT :: int
  st_Throughput :: rat
  st_Inflight :: int
  st_Failures :: int
  st_UntrustedAt :: "int option"

abbreviation zero_stats :: stats where
  "zero_stats \<equiv> \<lparr>st_RTT = 0, st_Throughput = 0, st_Inflight = 0, st_Failures = 0, st_UntrustedAt = None\<rparr>"

record scheduler =
  sc_stats :: "(string \<times> stats) list"
  sc_maxInflight :: int

definition New :: "int \<Rightarrow> scheduler" where
  "New maxInflight = \<lparr>sc_stats = [], sc_maxInflight = (if maxInflight \<le> 0 then 4 else maxInflight)\<rparr>"

text \<open>The pointer that \<open>stat\<close> returns is written back with \<open>set_stat\<close>.\<close>

definition stat :: "scheduler \<Rightarrow> string \<Rightarrow> stats" where
  "stat s addr = (case map_of (sc_stats s) addr of Some st \<Rightarrow> st | None \<Rightarrow> zero_stats)"

definition set_stat :: "scheduler \<Rightarrow> string \<Rightarrow> stats \<Rightarrow> scheduler" where
  "set_stat s addr st = s\<lparr>sc_stats := AList.update addr st (sc_stats s)\<rparr>"

section \<open>Ranking\<close>

definition tripped :: "int \<Rightarrow> stats \<Rightarrow> bool" where
  "tripped now st = (case st_UntrustedAt st of None \<Rightarrow> False | Some t \<Rightarrow> now - t < untrustedFor)"

definition refresh :: "int \<Rightarrow> stats \<Rightarrow> stats" where
  "refresh now st =
     (if st_UntrustedAt st \<noteq> None \<and> \<not> tripped now st
      then st\<lparr>st_UntrustedAt := None, st_Failures := 0\<rparr> else st)"

fun rank_loop ::
    "int \<Rightarrow> peer_info option list \<Rightarrow> scheduler \<Rightarrow> peer_info list \<Rightarrow> peer_info list \<Rightarrow>
     scheduler \<times> peer_info list \<times> peer_info list" where
  "rank_loop now [] s trusted untrusted = (s, trusted, untrusted)"
| "rank_loop now (None # ps) s trusted untrusted = rank_loop now ps s trusted untrusted"
| "rank_loop now (Some p # ps) s trusted untrusted =
     (if pi_Address p = [] then rank_loop now ps s trusted untrusted
      else let st = stat s (pi_Address p); s' = set_stat s (pi_Address p) (refresh now st)
        in if tripped now st then rank_loop now ps s' trusted (untrusted @ [p])
           else rank_loop now ps s' (trusted @ [p]) untrusted)"

definition load_less :: "scheduler \<Rightarrow> locality \<Rightarrow> peer_info \<Rightarrow> peer_info \<Rightarrow> bool" where
  "load_less s self p q =
     (let di = Distance self (FromProto (Some p)); dj = Distance self (FromProto (Some q));
          si = stat s (pi_Address p); sj = stat s (pi_Address q)
      in if di \<noteq> dj then di < dj
         else if st_Inflight si \<noteq> st_Inflight sj then st_Inflight si < st_Inflight sj
         else if st_Throughput si \<noteq> st_Throughput sj then st_Throughput si > st_Throughput sj
         else if st_RTT si \<noteq> st_RTT sj then st_RTT si < st_RTT sj
         else str_less (pi_NodeId p) (pi_NodeId q))"

definition sortLoad :: "scheduler \<Rightarrow> locality \<Rightarrow> peer_info list \<Rightarrow> peer_info list" where
  "sortLoad s self peers = insertion_sort (load_less s self) peers"

definition RankPeers ::
    "scheduler \<Rightarrow> int \<Rightarrow> locality \<Rightarrow> peer_info option list \<Rightarrow> scheduler \<times> peer_info list" where
  "RankPeers s now self peers =
     (case rank_loop now peers s [] [] of
        (s', trusted, untrusted) \<Rightarrow>
          let pool = (if trusted = [] then untrusted else trusted)
          in (s', sortLoad s' self pool))"

section \<open>Slots and the circuit breaker\<close>

definition Begin :: "scheduler \<Rightarrow> string \<Rightarrow> scheduler \<times> bool" where
  "Begin s addr =
     (let st = stat s addr
      in if st_Inflight st \<ge> sc_maxInflight s then (set_stat s addr st, False)
         else (set_stat s addr (st\<lparr>st_Inflight := st_Inflight st + 1\<rparr>), True))"

fun WaitBegin :: "string \<Rightarrow> (scheduler \<times> bool) list \<Rightarrow> (scheduler \<times> bool) option" where
  "WaitBegin addr [] = None"
| "WaitBegin addr ((s, done) # polls) =
     (case Begin s addr of
        (s', True) \<Rightarrow> Some (s', True)
      | (s', False) \<Rightarrow> if done then Some (s', False) else WaitBegin addr polls)"

definition seconds :: "int \<Rightarrow> rat" where
  "seconds d = fl64 (fl64 (of_int (d div 1000000000)) + fl64 (fl64 (of_int (d mod 1000000000)) / 1000000000))"

definition ewma :: "rat \<Rightarrow> rat \<Rightarrow> rat" where
  "ewma old sample = fl64 (fl64 (old * (1 - ewmaAlpha)) + fl64 (sample * ewmaAlpha))"

definition End :: "scheduler \<Rightarrow> int \<Rightarrow> string \<Rightarrow> int \<Rightarrow> int \<Rightarrow> bool \<Rightarrow> scheduler" where
  "End s now addr nbytes d ok =
     (let st = stat s addr;
          st = (if st_Inflight st > 0 then st\<lparr>st_Inflight := st_Inflight st - 1\<rparr> else st);
          st = (if d > 0 then
                  let st = (if st_RTT st = 0 then st\<lparr>st_RTT := d\<rparr>
                            else st\<lparr>st_RTT := int64_of (ewma (fl64 (of_int (st_RTT st))) (fl64 (of_int d)))\<rparr>)
                  in if nbytes > 0 then
                       let sample = fl64 (fl64 (of_int nbytes) / seconds d)
                       in if st_Throughput st = 0 then st\<lparr>st_Throughput := sample\<rparr>
                          else st\<lparr>st_Throughput := ewma (st_Throughput st) sample\<rparr>
                     else st
                else st)
      in if ok then set_stat s addr (st\<lparr>st_Failures := 0\<rparr>)
         else let st = st\<lparr>st_Failures := wrap64 (st_Failures st + 1)\<rparr>;
                  st = (if st_Failures st \<ge> untrustedAfter then st\<lparr>st_UntrustedAt := Some now\<rparr> else st)
              in set_stat s addr st)"

definition IsUntrusted :: "scheduler \<Rightarrow> int \<Rightarrow> string \<Rightarrow> scheduler \<times> bool" where
  "IsUntrusted s now addr = (let st = stat s addr in (set_stat s addr st, tripped now st))"

section \<open>Rarest first\<close>

fun split_work :: "(string \<Rightarrow> nat) \<Rightarrow> string list \<Rightarrow> (string \<times> nat) list \<Rightarrow> (string \<times> nat) list \<Rightarrow>
    (string \<times> nat) list \<times> (string \<times> nat) list" where
  "split_work n [] withPeers without = (withPeers, without)"
| "split_work n (h # hs) withPeers without =
     (if n h = 0 then split_work n hs withPeers (without @ [(h, n h)])
      else split_work n hs (withPeers @ [(h, n h)]) without)"

definition RarestFirst :: "string list \<Rightarrow> (string \<Rightarrow> peer_info list) \<Rightarrow> string list" where
  "RarestFirst hashes locations =
     (case split_work (\<lambda>h. length (locations h)) hashes [] [] of
        (withPeers, without) \<Rightarrow>
          map fst (insertion_sort (\<lambda>a b. snd a < snd b) withPeers) @ map fst without)"

section \<open>Lemmas\<close>

lemma stat_set_stat [simp]: "stat (set_stat s a st) b = (if b = a then st else stat s b)"
  "sc_maxInflight (set_stat s a st) = sc_maxInflight s"
  by (simp_all add: stat_def set_stat_def)

lemma stat_New [simp]: "stat (New n) a = zero_stats" "0 < sc_maxInflight (New n)" "0 \<le> sc_maxInflight (New n)"
  by (simp_all add: New_def stat_def)



interpretation rare: weak_order "\<lambda>a b. snd a < (snd b :: nat)"
  by (rule weak_order_key)

text \<open>The loop of \<open>RankPeers\<close> is two filters; it does not change who is tripped, nor the slots.\<close>

definition usable :: "peer_info option list \<Rightarrow> peer_info list" where
  "usable ps = filter (\<lambda>p. pi_Address p \<noteq> []) (map the (filter (\<lambda>p. p \<noteq> None) ps))"

lemma rank_loop_eq:
  assumes "rank_loop now ps s trusted untrusted = (s', t', u')"
  shows "t' = trusted @ filter (\<lambda>p. \<not> tripped now (stat s (pi_Address p))) (usable ps) \<and>
    u' = untrusted @ filter (\<lambda>p. tripped now (stat s (pi_Address p))) (usable ps) \<and>
    sc_maxInflight s' = sc_maxInflight s \<and>
    (\<forall>a. st_Inflight (stat s' a) = st_Inflight (stat s a) \<and> tripped now (stat s' a) = tripped now (stat s a))"
  using assms
proof (induction now ps s trusted untrusted rule: rank_loop.induct)
  case (3 now p ps s trusted untrusted)
  show ?case
  proof (cases "pi_Address p = []")
    case True
    with 3 show ?thesis by (simp add: usable_def)
  next
    case False
    let ?s = "set_stat s (pi_Address p) (refresh now (stat s (pi_Address p)))"
    have same: "tripped now (stat ?s a) = tripped now (stat s a)" "st_Inflight (stat ?s a) = st_Inflight (stat s a)"
      "sc_maxInflight ?s = sc_maxInflight s" for a
      by (auto simp: refresh_def tripped_def)
    have use: "usable (Some p # ps) = p # usable ps"
      using False by (simp add: usable_def)
    show ?thesis
    proof (cases "tripped now (stat s (pi_Address p))")
      case True
      then have "rank_loop now ps ?s trusted (untrusted @ [p]) = (s', t', u')"
        using 3(4) False by (simp add: Let_def)
      from 3(2) [OF False refl refl True this] True show ?thesis
        unfolding use same by simp
    next
      case F: False
      then have "rank_loop now ps ?s (trusted @ [p]) untrusted = (s', t', u')"
        using 3(4) False by (simp add: Let_def)
      from 3(3) [OF False refl refl F this] F show ?thesis
        unfolding use same by simp
    qed
  qed
qed (simp_all add: usable_def)

lemma RankPeers_eq:
  assumes "RankPeers s now self ps = (s', out)"
  shows "out = sortLoad s' self
      (let t = filter (\<lambda>p. \<not> tripped now (stat s (pi_Address p))) (usable ps)
       in if t = [] then usable ps else t)"
    "\<forall>a. st_Inflight (stat s' a) = st_Inflight (stat s a)" "sc_maxInflight s' = sc_maxInflight s"
proof -
  obtain t u where loop: "rank_loop now ps s [] [] = (s', t, u)"
    and out: "out = sortLoad s' self (if t = [] then u else t)"
    using assms by (auto simp: RankPeers_def Let_def split: prod.splits)
  note eq = rank_loop_eq [OF loop]
  have "u = usable ps" if "t = []"
    using eq that by (auto simp: filter_empty_conv filter_id_conv eq_commute [of "[]"])
  then show "out = sortLoad s' self
      (let t = filter (\<lambda>p. \<not> tripped now (stat s (pi_Address p))) (usable ps)
       in if t = [] then usable ps else t)"
    using eq out by (auto simp: Let_def)
  show "\<forall>a. st_Inflight (stat s' a) = st_Inflight (stat s a)" "sc_maxInflight s' = sc_maxInflight s"
    using eq by auto
qed

lemma split_work_eq:
  "split_work n hs w z = (w @ map (\<lambda>h. (h, n h)) (filter (\<lambda>h. n h \<noteq> 0) hs),
     z @ map (\<lambda>h. (h, n h)) (filter (\<lambda>h. n h = 0) hs))"
  by (induction hs arbitrary: w z) auto

text \<open>The sorted half of \<open>RarestFirst\<close>, without the counts it carries along.\<close>

definition by_count :: "(string \<Rightarrow> nat) \<Rightarrow> string list \<Rightarrow> string list" where
  "by_count n hs = map fst (insertion_sort (\<lambda>a b. snd a < snd b) (map (\<lambda>h. (h, n h)) hs))"

lemma RarestFirst_eq:
  "RarestFirst hs locs =
     by_count (\<lambda>h. length (locs h)) (filter (\<lambda>h. locs h \<noteq> []) hs) @ filter (\<lambda>h. locs h = []) hs"
  by (simp add: RarestFirst_def split_work_eq by_count_def comp_def)

lemma mset_by_count [simp]: "mset (by_count n hs) = mset hs"
  by (simp add: by_count_def multiset.map_comp comp_def)

lemma set_by_count [simp]: "set (by_count n hs) = set hs"
  by (metis mset_by_count set_mset_mset)

lemma by_count_pair: "x \<in> set (insertion_sort lt (map (\<lambda>h. (h, n h)) hs)) \<Longrightarrow> snd x = n (fst x)"
  by auto

lemma sorted_by_count: "sorted_wrt (\<lambda>g h. n g \<le> n h) (by_count n hs)"
proof -
  let ?xs = "insertion_sort (\<lambda>a b. snd a < snd b) (map (\<lambda>h. (h, n h)) hs)"
  have "sorted_wrt (\<lambda>a b. \<not> snd b < snd a) ?xs"
    by (rule rare.sorted_insertion_sort)
  then have "sorted_wrt (\<lambda>a b. n (fst a) \<le> n (fst b)) ?xs"
    by (rule sorted_wrt_mono_rel [rotated]) (simp add: by_count_pair)
  then show ?thesis by (simp add: by_count_def sorted_wrt_map)
qed

lemma by_count_stable: "filter (\<lambda>h. n h = k) (by_count n hs) = filter (\<lambda>h. n h = k) hs"
proof -
  let ?ps = "map (\<lambda>h. (h, n h)) hs"
  let ?xs = "insertion_sort (\<lambda>a b. snd a < snd b) ?ps"
  have "filter (\<lambda>h. n h = k) (by_count n hs) = map fst (filter (\<lambda>x. n (fst x) = k) ?xs)"
    by (simp add: by_count_def filter_map comp_def)
  also have "filter (\<lambda>x. n (fst x) = k) ?xs = filter (\<lambda>x. x \<in> {x. snd x = k}) ?xs"
    by (rule filter_cong) (simp_all add: by_count_pair)
  also have "\<dots> = filter (\<lambda>x. x \<in> {x. snd x = k}) ?ps"
    by (rule rare.insertion_sort_stable) simp
  finally show ?thesis by (simp add: filter_map comp_def)
qed

lemma End_Inflight:
  "st_Inflight (stat (End s now a n d ok) b) =
     (if b = a \<and> st_Inflight (stat s a) > 0 then st_Inflight (stat s a) - 1 else st_Inflight (stat s b))"
  "sc_maxInflight (End s now a n d ok) = sc_maxInflight s"
  by (auto simp: End_def Let_def)

lemma End_breaker:
  "st_Failures (stat (End s now a n d True) a) = 0"
  "st_UntrustedAt (stat (End s now a n d True) a) = st_UntrustedAt (stat s a)"
  "st_Failures (stat (End s now a n d False) a) = wrap64 (st_Failures (stat s a) + 1)"
  "st_UntrustedAt (stat (End s now a n d False) a) =
     (if wrap64 (st_Failures (stat s a) + 1) \<ge> untrustedAfter then Some now else st_UntrustedAt (stat s a))"
  "b \<noteq> a \<Longrightarrow> stat (End s now a n d ok) b = stat s b"
  by (auto simp: End_def Let_def)

section \<open>Runs\<close>

text \<open>
  A run of the scheduler under its protocol: transfers that got a slot from \<open>Begin\<close> give it back with one \<open>End\<close>.
  \<open>out\<close> counts the transfers in flight, per address.
\<close>

inductive sched_reach :: "scheduler \<Rightarrow> (string \<Rightarrow> nat) \<Rightarrow> bool" where
  start: "sched_reach (New n) (\<lambda>_. 0)"
| granted: "sched_reach s out \<Longrightarrow> Begin s a = (s', True) \<Longrightarrow> sched_reach s' (out(a := Suc (out a)))"
| refused: "sched_reach s out \<Longrightarrow> Begin s a = (s', False) \<Longrightarrow> sched_reach s' out"
| finished: "sched_reach s out \<Longrightarrow> out a = Suc k \<Longrightarrow> sched_reach (End s now a n d ok) (out(a := k))"
| ranked: "sched_reach s out \<Longrightarrow> RankPeers s now self ps = (s', ranked) \<Longrightarrow> sched_reach s' out"
| asked: "sched_reach s out \<Longrightarrow> IsUntrusted s now a = (s', b) \<Longrightarrow> sched_reach s' out"

lemma sched_reach_inv:
  "sched_reach s out \<Longrightarrow>
     0 < sc_maxInflight s \<and> (\<forall>a. st_Inflight (stat s a) = int (out a) \<and> int (out a) \<le> sc_maxInflight s)"
proof (induction rule: sched_reach.induct)
  case (granted s out a s')
  then show ?case by (auto simp: Begin_def Let_def split: if_splits)
next
  case (refused s out a s')
  then show ?case by (auto simp: Begin_def Let_def split: if_splits)
next
  case (finished s out a k now n d ok)
  then have "st_Inflight (stat s a) = int (Suc k)" "int (Suc k) \<le> sc_maxInflight s" by metis+
  with finished(3) show ?case by (auto simp: End_Inflight)
next
  case (ranked s out now self ps s' ranked)
  then show ?case using RankPeers_eq(2,3) [OF ranked(2)] by simp
next
  case (asked s out now a s' b)
  then show ?case by (auto simp: IsUntrusted_def Let_def)
qed simp

section \<open>Properties\<close>

text \<open>
  C20. The transfers in flight to a peer never exceed the limit, and the counter is exact: in
  every run the scheduler's \<open>Inflight\<close> of an address is the number of transfers that began and have
  not ended, between 0 and \<open>maxInflight\<close>.
\<close>
theorem inflight_exact_and_bounded:
  assumes "sched_reach s out"
  shows "st_Inflight (stat s a) = int (out a) \<and> 0 \<le> st_Inflight (stat s a) \<and>
    st_Inflight (stat s a) \<le> sc_maxInflight s"
  using sched_reach_inv [OF assms] by simp

theorem inflight_exact_and_bounded_witness:
  "\<exists>s. sched_reach s ((\<lambda>_. 0)(''p'' := 1)) \<and> st_Inflight (stat s ''p'') = 1 \<and> sc_maxInflight s = 1"
proof -
  have "Begin (New 1) ''p'' = (set_stat (New 1) ''p'' (zero_stats\<lparr>st_Inflight := 1\<rparr>), True)"
    by (simp add: Begin_def New_def stat_def)
  from sched_reach.granted [OF sched_reach.start this]
  have r: "sched_reach (set_stat (New 1) ''p'' (zero_stats\<lparr>st_Inflight := 1\<rparr>)) ((\<lambda>_. 0)(''p'' := 1))"
    by simp
  from inflight_exact_and_bounded [OF r, of "''p''"] r show ?thesis
    by (intro exI [of _ "set_stat (New 1) ''p'' (zero_stats\<lparr>st_Inflight := 1\<rparr>)"]) (simp add: New_def)
qed


definition demo_peer :: "string \<Rightarrow> peer_info" where
  "demo_peer a = \<lparr>pi_NodeId = a, pi_Address = a, pi_Region = [], pi_Zone = [], pi_Rack = [], pi_Host = [], pi_LastSeenUnix = 0\<rparr>"


text \<open>
  C22. The circuit breaker: after three failed transfers in a row from a fresh start of the counter, a
  peer is untrusted for fifteen minutes from the third failure, no matter how long the transfers took and
  what the other peers do; after that time \<open>IsUntrusted\<close> is false again.
\<close>
theorem breaker_trips_and_resets:
  assumes "st_Failures (stat s a) = 0"
    and "s3 = End (End (End s t1 a n1 d1 False) t2 a n2 d2 False) t3 a n3 d3 False"
  shows "snd (IsUntrusted s3 now a) = (now - t3 < untrustedFor)"
  using assms by (simp add: IsUntrusted_def tripped_def End_breaker untrustedAfter_def)

theorem breaker_trips_and_resets_witness:
  "snd (IsUntrusted (End (End (End (New 1) 1 ''p'' 0 0 False) 2 ''p'' 0 0 False) 3 ''p'' 0 0 False) 10 ''p'')"
  using breaker_trips_and_resets [OF _ refl, of "New 1" "''p''" 1 0 0 2 0 0 3 0 0 10]
  by (simp add: untrustedFor_def)

text \<open>
  C23. \<open>RarestFirst\<close> is the stable order by availability: it permutes the hashes, those with peers come first, by
  increasing number of peers, those without any come last, and hashes with equally many
  peers keep their order.
\<close>
theorem rarest_first_stable_sort:
  "mset (RarestFirst hs locs) = mset hs \<and>
   sorted_wrt (\<lambda>g h. locs h \<noteq> [] \<longrightarrow> locs g \<noteq> [] \<and> length (locs g) \<le> length (locs h)) (RarestFirst hs locs) \<and>
   (\<forall>n. filter (\<lambda>h. length (locs h) = n) (RarestFirst hs locs) = filter (\<lambda>h. length (locs h) = n) hs)"
proof (intro conjI allI)
  let ?n = "\<lambda>h. length (locs h)"
  let ?w = "filter (\<lambda>h. locs h \<noteq> []) hs"
  show "mset (RarestFirst hs locs) = mset hs"
    by (simp add: RarestFirst_eq)
  have "sorted_wrt (\<lambda>g h. locs h \<noteq> [] \<longrightarrow> locs g \<noteq> [] \<and> ?n g \<le> ?n h) (by_count ?n ?w)"
    by (rule sorted_wrt_mono_rel [OF _ sorted_by_count]) simp
  moreover have "sorted_wrt (\<lambda>g h. locs h \<noteq> [] \<longrightarrow> locs g \<noteq> [] \<and> ?n g \<le> ?n h) (filter (\<lambda>h. locs h = []) hs)"
    by (induction hs) auto
  ultimately show "sorted_wrt (\<lambda>g h. locs h \<noteq> [] \<longrightarrow> locs g \<noteq> [] \<and> ?n g \<le> ?n h) (RarestFirst hs locs)"
    by (simp add: RarestFirst_eq sorted_wrt_append)
  show "filter (\<lambda>h. ?n h = k) (RarestFirst hs locs) = filter (\<lambda>h. ?n h = k) hs" for k
    by (cases "k = 0") (auto simp: RarestFirst_eq by_count_stable filter_empty_conv intro!: filter_cong)
qed

theorem rarest_first_stable_sort_witness:
  "RarestFirst [''a'', ''b''] (\<lambda>h. if h = ''b'' then [demo_peer ''p''] else []) = [''b'', ''a'']"
proof -
  have "filter (\<lambda>h. length ((\<lambda>h. if h = ''b'' then [demo_peer ''p''] else []) h) = 1)
      (RarestFirst [''a'', ''b''] (\<lambda>h. if h = ''b'' then [demo_peer ''p''] else [])) = [''b'']"
    using rarest_first_stable_sort [of "[''a'', ''b'']" "\<lambda>h. if h = ''b'' then [demo_peer ''p''] else []"]
    by simp
  then show ?thesis by (simp add: RarestFirst_def insertion_sort_def)
qed

end
