(* ===== verification/Fleet.thy ===== *)
theory Fleet
  imports Scheduler
begin

text \<open>
  \<open>pkg/tracker/fleet.go\<close>: how far the distribution of an artifact has come, and the milestones it has
  passed. The gauges that the code sets are part of the results of the operations.
\<close>

section \<open>Fleet milestones\<close>

definition fleetThresholds :: "(string \<times> rat) list" where
  "fleetThresholds = [(''first'', 0), (''50'', 50), (''90'', 90), (''99'', 99), (''100'', 100)]"

record fleet_state =
  fl_publishedAt :: int
  fl_expected :: int
  fl_ready :: "string list"
  fl_recorded :: "string list"

type_synonym fleet = "(string \<times> fleet_state) list"

datatype gauge = FleetReadyNodes nat | FleetTimeToReadySeconds string rat

definition BeginDistribution :: "int \<Rightarrow> string \<Rightarrow> int \<Rightarrow> fleet \<Rightarrow> fleet \<times> gauge list" where
  "BeginDistribution now artifactID expectedNodes f =
     (if artifactID = [] then (f, [])
      else let expectedNodes = (if expectedNodes < 1 then 1 else expectedNodes)
        in (AList.update artifactID
              \<lparr>fl_publishedAt = now, fl_expected = expectedNodes, fl_ready = [], fl_recorded = []\<rparr> f,
            FleetReadyNodes 0 # map (\<lambda>th. FleetTimeToReadySeconds (fst th) 0) fleetThresholds))"

definition percent :: "nat \<Rightarrow> int \<Rightarrow> rat" where
  "percent readyCount expected = fl64 (fl64 (fl64 (of_nat readyCount) / fl64 (of_int expected)) * 100)"

definition thresholdMet :: "nat \<Rightarrow> int \<Rightarrow> rat \<Rightarrow> bool" where
  "thresholdMet readyCount expected pct =
     (if pct > 0 then percent readyCount expected \<ge> pct else pct = 0 \<and> 1 \<le> readyCount)"

definition elapsed_since :: "int \<Rightarrow> int \<Rightarrow> rat" where
  "elapsed_since now t = (let e = seconds (now - t) in if e \<le> 0 then 1 / 1000000 else e)"

fun record_milestones ::
    "int \<Rightarrow> nat \<Rightarrow> fleet_state \<Rightarrow> (string \<times> rat) list \<Rightarrow> fleet_state \<times> gauge list" where
  "record_milestones now readyCount st [] = (st, [])"
| "record_milestones now readyCount st ((label, pct) # ths) =
     (if label \<in> set (fl_recorded st) then record_milestones now readyCount st ths
      else if \<not> thresholdMet readyCount (fl_expected st) pct then record_milestones now readyCount st ths
      else let (st', gs) =
                 record_milestones now readyCount (st\<lparr>fl_recorded := label # fl_recorded st\<rparr>) ths
        in (st', FleetTimeToReadySeconds label (elapsed_since now (fl_publishedAt st)) # gs))"

definition NodeReady :: "int \<Rightarrow> string \<Rightarrow> string \<Rightarrow> fleet \<Rightarrow> fleet \<times> gauge list" where
  "NodeReady now artifactID nodeID f =
     (if artifactID = [] \<or> nodeID = [] then (f, [])
      else case map_of f artifactID of
          None \<Rightarrow> (f, [])
        | Some st \<Rightarrow>
            if nodeID \<in> set (fl_ready st) then (f, [])
            else let st1 = st\<lparr>fl_ready := nodeID # fl_ready st\<rparr>;
                     readyCount = length (fl_ready st1);
                     (st2, gs) = record_milestones now readyCount st1 fleetThresholds
              in (AList.update artifactID st2 f, FleetReadyNodes readyCount # gs))"

section \<open>Rounding keeps a full fleet at 100 per cent\<close>

lemma pow2_powi: "pow2 e = 2 powi e"
  by (simp add: pow2_def power_int_def power_one_over inverse_eq_divide)

lemma exponent_le:
  assumes "0 < x"
  shows "pow2 (exponent x) \<le> x"
proof -
  obtain n d where q: "quotient_of x = (n, d)" by force
  have x: "x = of_int n / of_int d" and d: "0 < d"
    using quotient_of_div [OF q] quotient_of_denom_pos [OF q] by simp_all
  have n: "0 < n" using assms x d by (simp add: zero_less_divide_iff)
  define a b where "a = floorlog 2 (nat n)" and "b = floorlog 2 (nat d)"
  have "2 ^ (a - 1) \<le> nat n" "0 < a" "nat d < 2 ^ b"
    using floorlog_bounds [of "nat n" 2] floorlog_bounds [of "nat d" 2] n d
    by (auto simp: a_def b_def floorlog_def)
  then have le: "(2 :: rat) ^ (a - 1) \<le> of_int n" "of_int d \<le> (2 :: rat) ^ b"
    using of_nat_mono [of "2 ^ (a - 1)" "nat n", where 'a = rat] of_nat_mono [of "nat d" "2 ^ b", where 'a = rat] n d
    by simp_all
  have "pow2 (int a - int b - 1) = 2 ^ (a - 1) / 2 ^ b"
  proof -
    have e: "int a - int b - 1 = int (a - 1) - int b" using \<open>0 < a\<close> by simp
    have "(2 :: rat) powi (int (a - 1) - int b) = 2 powi int (a - 1) / 2 powi int b"
      by (rule power_int_diff) simp
    then show ?thesis unfolding e pow2_powi power_int_of_nat .
  qed
  also have "\<dots> \<le> x" unfolding x using le d n by (intro frac_le) auto
  finally show ?thesis by (auto simp: exponent_def q a_def b_def Let_def)
qed

lemma round_even_ge_1: "1 \<le> \<lfloor>y\<rfloor> \<Longrightarrow> 1 \<le> round_even y"
  by (auto simp: round_even_def Let_def simp del: one_le_floor zero_le_floor)

lemma fl64_pos:
  assumes "0 < x"
  shows "0 < fl64 x"
proof -
  let ?u = "pow2 (exponent x - 52)"
  have "?u \<le> pow2 (exponent x)" unfolding pow2_powi by (intro power_int_increasing) auto
  then have "?u \<le> x" using exponent_le [OF assms] by linarith
  then have "1 \<le> x / ?u" by (simp add: le_divide_eq)
  then have "1 \<le> \<lfloor>x / ?u\<rfloor>" by (simp only: one_le_floor)
  then have "1 \<le> round_even (x / ?u)" by (rule round_even_ge_1)
  then show ?thesis using assms by (simp add: fl64_def Let_def)
qed

lemma percent_full: "0 < n \<Longrightarrow> percent n (int n) = 100"
proof -
  assume "0 < n"
  then have "0 < fl64 (of_nat n)" by (intro fl64_pos) simp
  moreover have "fl64 1 = 1" "fl64 100 = 100" by code_simp+
  ultimately show ?thesis by (simp add: percent_def)
qed

section \<open>Milestones\<close>

definition labels :: "gauge list \<Rightarrow> string list" where
  "labels gs = concat (map (\<lambda>g. case g of FleetTimeToReadySeconds l x \<Rightarrow> [l] | FleetReadyNodes n \<Rightarrow> []) gs)"

lemma labels_simps [simp]:
  "labels [] = []" "labels (FleetTimeToReadySeconds l x # gs) = l # labels gs" "labels (FleetReadyNodes n # gs) = labels gs"
  "labels (gs @ hs) = labels gs @ labels hs"
  by (simp_all add: labels_def)

lemma record_milestones_labels:
  assumes "record_milestones now n st ths = (st', gs)" and "distinct (map fst ths)"
  shows "labels gs = map fst (filter (\<lambda>(l, pct). l \<notin> set (fl_recorded st) \<and> thresholdMet n (fl_expected st) pct) ths) \<and>
    set (fl_recorded st') = set (fl_recorded st) \<union> set (labels gs) \<and> fl_ready st' = fl_ready st \<and>
    fl_expected st' = fl_expected st"
  using assms
proof (induction ths arbitrary: st gs)
  case (Cons th ths)
  obtain l pct where th: "th = (l, pct)" by force
  show ?case
  proof (cases "l \<notin> set (fl_recorded st) \<and> thresholdMet n (fl_expected st) pct")
    case False
    with Cons th show ?thesis by (auto split: if_splits)
  next
    case True
    let ?st = "st\<lparr>fl_recorded := l # fl_recorded st\<rparr>"
    obtain gs' where rest: "record_milestones now n ?st ths = (st', gs')"
      and gs: "gs = FleetTimeToReadySeconds l (elapsed_since now (fl_publishedAt st)) # gs'"
      using Cons.prems(1) True th by (auto simp: Let_def split: prod.splits)
    have "l \<notin> fst ` set ths" using Cons.prems(2) th by simp
    then have "filter (\<lambda>(k, pct). k \<notin> set (fl_recorded ?st) \<and> thresholdMet n (fl_expected ?st) pct) ths =
        filter (\<lambda>(k, pct). k \<notin> set (fl_recorded st) \<and> thresholdMet n (fl_expected st) pct) ths"
      by (intro filter_cong) (auto simp: image_iff)
    with Cons.IH [OF rest] Cons.prems(2) True th gs show ?thesis by auto
  qed
qed simp

definition reached :: "nat \<Rightarrow> int \<Rightarrow> string set" where
  "reached n ex = {l. \<exists>pct k. (l, pct) \<in> set fleetThresholds \<and> k \<le> n \<and> thresholdMet k ex pct}"

lemma reached_Suc:
  "reached (Suc n) ex = reached n ex \<union> {l. \<exists>pct. (l, pct) \<in> set fleetThresholds \<and> thresholdMet (Suc n) ex pct}"
  by (auto simp: reached_def le_Suc_eq)

lemma reached_0 [simp]: "reached 0 ex = {}"
  by (auto simp: reached_def thresholdMet_def percent_def fleetThresholds_def split: if_splits)

lemma thresholds_distinct: "distinct (map fst fleetThresholds)"
  by (simp add: fleetThresholds_def)

fun fleet_run :: "string \<Rightarrow> (int \<times> string) list \<Rightarrow> fleet \<Rightarrow> fleet \<times> gauge list" where
  "fleet_run a [] f = (f, [])"
| "fleet_run a ((now, i) # es) f =
     (case NodeReady now a i f of (f1, g1) \<Rightarrow> (case fleet_run a es f1 of (f2, g2) \<Rightarrow> (f2, g1 @ g2)))"

definition milestones :: "string \<Rightarrow> int \<Rightarrow> string list \<Rightarrow> string set \<Rightarrow> fleet \<Rightarrow> bool" where
  "milestones a ex ls ready f =
     (\<exists>st. map_of f a = Some st \<and> fl_expected st = ex \<and> distinct (fl_ready st) \<and> set (fl_ready st) = ready \<and>
        set (fl_recorded st) = reached (card ready) ex \<and> distinct ls \<and> set ls = reached (card ready) ex)"

lemma NodeReady_milestones:
  assumes "milestones a ex ls ready f" and "NodeReady now a i f = (f', gs)" and "a \<noteq> []"
  shows "milestones a ex (ls @ labels gs) (ready \<union> ({i} - {[]})) f'"
proof -
  obtain st where st: "map_of f a = Some st" "fl_expected st = ex" "distinct (fl_ready st)" "set (fl_ready st) = ready"
    "set (fl_recorded st) = reached (card ready) ex" and ls: "distinct ls" "set ls = reached (card ready) ex"
    using assms(1) by (auto simp: milestones_def)
  show ?thesis
  proof (cases "i = [] \<or> i \<in> ready")
    case True
    then have "f' = f" "gs = []" "ready \<union> ({i} - {[]}) = ready"
      using assms(2,3) st(1,4) by (auto simp: NodeReady_def split: if_splits)
    then show ?thesis using assms(1) by simp
  next
    case False
    let ?st1 = "st\<lparr>fl_ready := i # fl_ready st\<rparr>" and ?n = "Suc (card ready)"
    have n: "length (fl_ready st) = card ready" using st(3,4) distinct_card by fastforce
    obtain st2 gs' where rm: "record_milestones now ?n ?st1 fleetThresholds = (st2, gs')" by fastforce
    have "NodeReady now a i f = (AList.update a st2 f, FleetReadyNodes ?n # gs')"
      using assms(3) False st(1,4) rm by (simp add: NodeReady_def Let_def n)
    then have f': "f' = AList.update a st2 f" "gs = FleetReadyNodes ?n # gs'"
      using assms(2) by simp_all
    note r = record_milestones_labels [OF rm thresholds_distinct]
    have set_gs: "set (labels gs') = {l. \<exists>pct. (l, pct) \<in> set fleetThresholds \<and> thresholdMet ?n ex pct} - reached (card ready) ex"
    proof -
      have "set (labels gs') = {l. \<exists>pct. (l, pct) \<in> set fleetThresholds \<and> l \<notin> reached (card ready) ex \<and> thresholdMet ?n ex pct}"
        unfolding conjunct1 [OF r] using st(2,5) by (auto simp: image_iff)
      then show ?thesis by blast
    qed
    have dist: "distinct (labels gs')" using r thresholds_distinct by (simp add: distinct_map_filter)
    have card: "card (insert i ready) = ?n" using False st(4) by auto
    have all: "reached (card ready) ex \<union> set (labels gs') = reached ?n ex" unfolding set_gs reached_Suc by blast
    have "ready \<union> ({i} - {[]}) = insert i ready" using False by auto
    moreover have "set (fl_recorded st2) = reached ?n ex" using r st(5) all by simp
    moreover have "distinct (ls @ labels gs') \<and> set (ls @ labels gs') = reached ?n ex"
      using ls dist all set_gs by auto
    ultimately show ?thesis
      using f' r st False card by (simp add: milestones_def)
  qed
qed

lemma fleet_run_milestones:
  assumes "milestones a ex ls ready f" and "fleet_run a es f = (f', gs)" and "a \<noteq> []"
  shows "milestones a ex (ls @ labels gs) (ready \<union> (snd ` set es - {[]})) f'"
  using assms(1,2)
proof (induction es arbitrary: f ls ready gs)
  case (Cons e es)
  obtain now i where e: "e = (now, i)" by force
  obtain f1 g1 where one: "NodeReady now a i f = (f1, g1)" by force
  obtain g2 where rest: "fleet_run a es f1 = (f', g2)" and gs: "gs = g1 @ g2"
    using Cons.prems(2) e one by (auto split: prod.splits)
  have "milestones a ex ((ls @ labels g1) @ labels g2) (ready \<union> ({i} - {[]}) \<union> (snd ` set es - {[]})) f'"
    by (rule Cons.IH [OF NodeReady_milestones [OF Cons.prems(1) one assms(3)] rest])
  moreover have "ready \<union> ({i} - {[]}) \<union> (snd ` set es - {[]}) = ready \<union> (snd ` set (e # es) - {[]})"
    by (auto simp: e)
  ultimately show ?case by (simp only: gs labels_simps append.assoc)
qed simp

lemma reached_full:
  assumes "0 < n" and "n \<le> k"
  shows "reached k (int n) = fst ` set fleetThresholds"
proof
  show "reached k (int n) \<subseteq> fst ` set fleetThresholds" by (force simp: reached_def)
  have "thresholdMet n (int n) pct" if "(l, pct) \<in> set fleetThresholds" for l pct
    using that assms(1) percent_full [OF assms(1)] by (auto simp: thresholdMet_def fleetThresholds_def)
  then show "fst ` set fleetThresholds \<subseteq> reached k (int n)" using assms(2) by (force simp: reached_def)
qed

text \<open>
  C33. Over the distribution of an artifact every milestone is reported at most once, and exactly those whose
  threshold some number of ready nodes up to the present one meets; a node counts once however often it
  reports. When as many nodes as expected are ready, all five milestones have been reported.
\<close>

theorem fleet_milestones_once:
  assumes "a \<noteq> []" and "BeginDistribution t a n f = (f0, g0)" and "fleet_run a es f0 = (f', gs)"
  shows "\<exists>st. map_of f' a = Some st \<and> set (fl_ready st) = snd ` set es - {[]} \<and> distinct (labels gs) \<and>
    set (labels gs) = reached (card (set (fl_ready st))) (max 1 n) \<and>
    (max 1 n \<le> int (card (set (fl_ready st))) \<longrightarrow> set (labels gs) = {''first'', ''50'', ''90'', ''99'', ''100''})"
proof -
  have "milestones a (max 1 n) [] {} f0"
    using assms(1,2) by (auto simp: BeginDistribution_def Let_def milestones_def max_def)
  from fleet_run_milestones [OF this assms(3,1)] obtain st where st: "map_of f' a = Some st"
    "set (fl_ready st) = snd ` set es - {[]}" "distinct (labels gs)"
    "set (labels gs) = reached (card (set (fl_ready st))) (max 1 n)"
    by (auto simp: milestones_def)
  moreover have "set (labels gs) = {''first'', ''50'', ''90'', ''99'', ''100''}"
    if "max 1 n \<le> int (card (set (fl_ready st)))"
    using reached_full [of "nat (max 1 n)" "card (set (fl_ready st))"] that
    unfolding st(4) by (auto simp: fleetThresholds_def)
  ultimately show ?thesis by blast
qed

theorem fleet_milestones_once_witness:
  "\<exists>st. map_of (fst (fleet_run ''a'' [(7, ''m''), (8, ''n''), (9, ''n'')] (fst (BeginDistribution 5 ''a'' 2 [])))) ''a'' = Some st \<and>
     set (fl_ready st) = {''m'', ''n''}"
proof -
  obtain f0 g0 where f0: "BeginDistribution 5 ''a'' 2 [] = (f0, g0)" by force
  obtain f' gs where f': "fleet_run ''a'' [(7, ''m''), (8, ''n''), (9, ''n'')] f0 = (f', gs)" by force
  show ?thesis using fleet_milestones_once [OF _ f0 f'] f0 f' by auto
qed

end
