(* ===== verification/Registry.thy ===== *)
theory Registry
  imports MetaStore Fleet
begin

text \<open>
  \<open>pkg/tracker\<close>: the registry of peers and chunk holders over any store (\<open>registry.go\<close>) and the gRPC
  handlers (\<open>server.go\<close>). The five-second timeout of a store call is one more way for the call to fail; log
  lines are left out.
\<close>

section \<open>The registry\<close>

record 's registry =
  rg_store :: 's
  rg_peerExpiry :: int
  rg_fleet :: fleet

definition NewRegistryWithStore :: "'s \<Rightarrow> int \<Rightarrow> 's registry" where
  "NewRegistryWithStore st peerExpiry =
     \<lparr>rg_store = st, rg_peerExpiry = (if peerExpiry \<le> 0 then 30 * 1000000000 else peerExpiry), rg_fleet = []\<rparr>"

text \<open>A call of the store: the registry with the new state of the store, and what the call returned.\<close>

definition call :: "('s \<Rightarrow> 's \<times> 'a) \<Rightarrow> 's registry \<Rightarrow> 's registry \<times> 'a" where
  "call op r = (case op (rg_store r) of (s, x) \<Rightarrow> (r\<lparr>rg_store := s\<rparr>, x))"

definition RegisterPeer :: "'s store \<Rightarrow> int \<Rightarrow> peer_info option \<Rightarrow> 's registry \<Rightarrow> 's registry" where
  "RegisterPeer S now peer r =
     (case peer of
        None \<Rightarrow> r
      | Some info \<Rightarrow>
          if pi_NodeId info = [] then r
          else fst (call (UpsertPeer S now ((PeerFromProto now peer)\<lparr>pr_LastHeartbeat := Some now\<rparr>)) r))"

definition HeartbeatNode :: "'s store \<Rightarrow> int \<Rightarrow> string \<Rightarrow> 's registry \<Rightarrow> 's registry \<times> bool" where
  "HeartbeatNode S now nodeID r =
     (case call (Heartbeat S now nodeID) r of (r', Inl e) \<Rightarrow> (r', False) | (r', Inr ok) \<Rightarrow> (r', ok))"

definition DeregisterNode :: "'s store \<Rightarrow> int \<Rightarrow> string \<Rightarrow> 's registry \<Rightarrow> 's registry" where
  "DeregisterNode S now nodeID r = fst (call (DeregisterPeer S now nodeID) r)"

definition ReportNodeChunks :: "'s store \<Rightarrow> int \<Rightarrow> string \<Rightarrow> string list \<Rightarrow> 's registry \<Rightarrow> 's registry \<times> int" where
  "ReportNodeChunks S now nodeID chunkHashes r =
     (case call (ReportChunks S now nodeID chunkHashes) r of (r', Inl e) \<Rightarrow> (r', 0) | (r', Inr n) \<Rightarrow> (r', n))"

definition ReportArtifact :: "'s store \<Rightarrow> int \<Rightarrow> string \<Rightarrow> string \<Rightarrow> 's registry \<Rightarrow> 's registry \<times> gauge list" where
  "ReportArtifact S now nodeID artifactID r =
     (case call (ReportSeed S now artifactID nodeID) r of
        (r', Inl e) \<Rightarrow> (r', [])
      | (r', Inr _) \<Rightarrow>
          (case NodeReady now artifactID nodeID (rg_fleet r') of (f, gs) \<Rightarrow> (r'\<lparr>rg_fleet := f\<rparr>, gs)))"

definition ListActivePeers :: "'s store \<Rightarrow> int \<Rightarrow> 's registry \<Rightarrow> 's registry \<times> peer_info list" where
  "ListActivePeers S now r =
     (case call (ListPeers S now (rg_peerExpiry r)) r of
        (r', Inl e) \<Rightarrow> (r', [])
      | (r', Inr peers) \<Rightarrow> (r', map Proto peers))"

definition RegistryPutArtifact ::
    "'s store \<Rightarrow> int \<Rightarrow> artifact_record \<Rightarrow> 's registry \<Rightarrow> 's registry \<times> unit result \<times> gauge list" where
  "RegistryPutArtifact S now rec r =
     (case call (PutArtifact S now rec) r of
        (r', Inl e) \<Rightarrow> (r', Inl e, [])
      | (r', Inr _) \<Rightarrow>
          (case ListActivePeers S now r' of
             (r'', peers) \<Rightarrow>
               let expected = (if int (length peers) \<le> 0 then 1 else int (length peers))
               in case BeginDistribution now (ar_ArtifactID rec) expected (rg_fleet r'') of
                    (f, gs) \<Rightarrow> (r''\<lparr>rg_fleet := f\<rparr>, Inr (), gs)))"

definition requesterLoc :: "'s store \<Rightarrow> int \<Rightarrow> string \<Rightarrow> 's registry \<Rightarrow> 's registry \<times> locality" where
  "requesterLoc S now nodeID r =
     (case call (GetPeer S now nodeID) r of
        (r', Inr (Some p)) \<Rightarrow> (r', FromProto (Some (Proto p)))
      | (r', _) \<Rightarrow> (r', \<lparr>lo_Region = [], lo_Zone = [], lo_Rack = [], lo_Host = []\<rparr>))"

definition peersFromCache ::
    "int \<Rightarrow> string list \<Rightarrow> string \<Rightarrow> int \<Rightarrow> (string \<times> peer) list \<Rightarrow> peer_info list" where
  "peersFromCache peerExpiry ids skip now peers =
     concat (map (\<lambda>i.
       if i = skip then []
       else case map_of peers i of
           None \<Rightarrow> []
         | Some p \<Rightarrow> if time_Sub now (pr_LastHeartbeat p) \<le> peerExpiry then [Proto p] else []) ids)"

definition peersForIDs ::
    "'s store \<Rightarrow> int \<Rightarrow> string list \<Rightarrow> string \<Rightarrow> 's registry \<Rightarrow> 's registry \<times> peer_info list" where
  "peersForIDs S now ids skip r =
     (case call (GetPeersBatch S now ids) r of
        (r', Inl e) \<Rightarrow> (r', [])
      | (r', Inr peers) \<Rightarrow> (r', peersFromCache (rg_peerExpiry r) ids skip now peers))"

definition LocateChunks ::
    "'s store \<Rightarrow> int \<Rightarrow> string \<Rightarrow> string list \<Rightarrow> 's registry \<Rightarrow> 's registry \<times> (string \<times> peer_info list) list" where
  "LocateChunks S now requester chunkHashes r =
     (case requesterLoc S now requester r of
        (r1, loc) \<Rightarrow>
          (case call (LocateChunkNodesBatch S now chunkHashes) r1 of
             (r2, Inl e) \<Rightarrow> (r2, map (\<lambda>h. (h, [])) chunkHashes)
           | (r2, Inr located) \<Rightarrow>
               let uniq = remdups (filter (\<lambda>i. i \<noteq> requester) (concat (map snd located)))
               in case call (GetPeersBatch S now uniq) r2 of
                    (r3, got) \<Rightarrow>
                      let peersByID = (case got of Inl e \<Rightarrow> [] | Inr m \<Rightarrow> m)
                      in (r3, map (\<lambda>h.
                           (h, SortPeersByProximity loc
                                 (peersFromCache (rg_peerExpiry r)
                                    (case map_of located h of None \<Rightarrow> [] | Some ids \<Rightarrow> ids)
                                    requester now peersByID))) chunkHashes)))"

definition LocateArtifact ::
    "'s store \<Rightarrow> int \<Rightarrow> string \<Rightarrow> string \<Rightarrow> 's registry \<Rightarrow> 's registry \<times> peer_info list" where
  "LocateArtifact S now requester artifactID r =
     (case call (ListSeeds S now artifactID) r of
        (r1, Inl e) \<Rightarrow> (r1, [])
      | (r1, Inr ids) \<Rightarrow>
          (case peersForIDs S now ids requester r1 of
             (r2, peers) \<Rightarrow>
               (case requesterLoc S now requester r2 of
                  (r3, loc) \<Rightarrow> (r3, SortPeersByProximity loc peers))))"

definition PruneDeadPeers :: "'s store \<Rightarrow> int \<Rightarrow> 's registry \<Rightarrow> 's registry \<times> nat" where
  "PruneDeadPeers S now r =
     (case call (PruneExpiredPeers S now (rg_peerExpiry r)) r of (r', Inl e) \<Rightarrow> (r', 0) | (r', Inr n) \<Rightarrow> (r', n))"

definition ReadyNodes :: "'s store \<Rightarrow> int \<Rightarrow> string \<Rightarrow> 's registry \<Rightarrow> 's registry \<times> string list" where
  "ReadyNodes S now artifactID r =
     (case call (ListSeeds S now artifactID) r of (r', Inl e) \<Rightarrow> (r', []) | (r', Inr ids) \<Rightarrow> (r', ids))"

section \<open>The handlers\<close>

datatype request =
    RegisterPeerRequest "peer_info option"
  | HeartbeatRequest string
  | DeregisterPeerRequest string
  | ReportChunksRequest string "string list"
  | LocateChunksRequest string "string list"
  | ListPeersRequest
  | PutArtifactRequest string string string bytes
  | ReportArtifactRequest string string bool
  | LocateArtifactRequest string string
  | GetArtifactStatusRequest string

datatype response =
    RegisterPeerResponse bool string
  | HeartbeatResponse bool
  | DeregisterPeerResponse bool
  | ReportChunksResponse int
  | LocateChunksResponse "(string \<times> peer_info list) list"
  | ListPeersResponse "peer_info list"
  | PutArtifactResponse bool "go_error option"
  | ReportArtifactResponse bool
  | LocateArtifactResponse string "peer_info list"
  | GetArtifactStatusResponse string "string list"

definition server_RegisterPeer :: "'s store \<Rightarrow> int \<Rightarrow> peer_info option \<Rightarrow> 's registry \<Rightarrow> 's registry \<times> response" where
  "server_RegisterPeer S now peer r =
     (case peer of
        None \<Rightarrow> (r, RegisterPeerResponse False ''missing peer information or node_id'')
      | Some info \<Rightarrow>
          if pi_NodeId info = [] then (r, RegisterPeerResponse False ''missing peer information or node_id'')
          else (RegisterPeer S now peer r, RegisterPeerResponse True ''registered successfully''))"

definition server_Heartbeat :: "'s store \<Rightarrow> int \<Rightarrow> string \<Rightarrow> 's registry \<Rightarrow> 's registry \<times> response" where
  "server_Heartbeat S now nodeID r = map_prod id HeartbeatResponse (HeartbeatNode S now nodeID r)"

definition server_DeregisterPeer :: "'s store \<Rightarrow> int \<Rightarrow> string \<Rightarrow> 's registry \<Rightarrow> 's registry \<times> response" where
  "server_DeregisterPeer S now nodeID r = (DeregisterNode S now nodeID r, DeregisterPeerResponse True)"

definition server_ReportChunks ::
    "'s store \<Rightarrow> int \<Rightarrow> string \<Rightarrow> string list \<Rightarrow> 's registry \<Rightarrow> 's registry \<times> response" where
  "server_ReportChunks S now nodeID hashes r = map_prod id ReportChunksResponse (ReportNodeChunks S now nodeID hashes r)"

definition server_LocateChunks ::
    "'s store \<Rightarrow> int \<Rightarrow> string \<Rightarrow> string list \<Rightarrow> 's registry \<Rightarrow> 's registry \<times> response" where
  "server_LocateChunks S now requester hashes r =
     map_prod id LocateChunksResponse (LocateChunks S now requester hashes r)"

definition server_ListPeers :: "'s store \<Rightarrow> int \<Rightarrow> 's registry \<Rightarrow> 's registry \<times> response" where
  "server_ListPeers S now r = map_prod id ListPeersResponse (ListActivePeers S now r)"

definition server_PutArtifact ::
    "'s store \<Rightarrow> int \<Rightarrow> string \<Rightarrow> string \<Rightarrow> string \<Rightarrow> bytes \<Rightarrow> 's registry \<Rightarrow> 's registry \<times> response" where
  "server_PutArtifact S now artifactID name version json r =
     (case RegistryPutArtifact S now
             \<lparr>ar_ArtifactID = artifactID, ar_Name = name, ar_Version = version, ar_ManifestJSON = json\<rparr> r of
        (r', Inl e, _) \<Rightarrow> (r', PutArtifactResponse False (Some e))
      | (r', Inr _, _) \<Rightarrow> (r', PutArtifactResponse True None))"

definition server_ReportArtifact ::
    "'s store \<Rightarrow> int \<Rightarrow> string \<Rightarrow> string \<Rightarrow> bool \<Rightarrow> 's registry \<Rightarrow> 's registry \<times> response" where
  "server_ReportArtifact S now nodeID artifactID isComplete r =
     (if isComplete then fst (ReportArtifact S now nodeID artifactID r) else r, ReportArtifactResponse True)"

definition server_LocateArtifact ::
    "'s store \<Rightarrow> int \<Rightarrow> string \<Rightarrow> string \<Rightarrow> 's registry \<Rightarrow> 's registry \<times> response" where
  "server_LocateArtifact S now requester artifactID r =
     map_prod id (LocateArtifactResponse artifactID) (LocateArtifact S now requester artifactID r)"

definition server_GetArtifactStatus :: "'s store \<Rightarrow> int \<Rightarrow> string \<Rightarrow> 's registry \<Rightarrow> 's registry \<times> response" where
  "server_GetArtifactStatus S now artifactID r =
     map_prod id (GetArtifactStatusResponse artifactID) (ReadyNodes S now artifactID r)"

fun serve :: "'s store \<Rightarrow> int \<Rightarrow> request \<Rightarrow> 's registry \<Rightarrow> 's registry \<times> response" where
  "serve S now (RegisterPeerRequest peer) r = server_RegisterPeer S now peer r"
| "serve S now (HeartbeatRequest i) r = server_Heartbeat S now i r"
| "serve S now (DeregisterPeerRequest i) r = server_DeregisterPeer S now i r"
| "serve S now (ReportChunksRequest i hs) r = server_ReportChunks S now i hs r"
| "serve S now (LocateChunksRequest i hs) r = server_LocateChunks S now i hs r"
| "serve S now ListPeersRequest r = server_ListPeers S now r"
| "serve S now (PutArtifactRequest a n v j) r = server_PutArtifact S now a n v j r"
| "serve S now (ReportArtifactRequest i a isComplete) r = server_ReportArtifact S now i a isComplete r"
| "serve S now (LocateArtifactRequest i a) r = server_LocateArtifact S now i a r"
| "serve S now (GetArtifactStatusRequest a) r = server_GetArtifactStatus S now a r"

text \<open>A round of the pruning loop that \<open>Start\<close> runs every ten seconds.\<close>

definition prune_tick :: "'s store \<Rightarrow> int \<Rightarrow> 's registry \<Rightarrow> 's registry \<times> nat \<times> nat" where
  "prune_tick S now r =
     (case PruneDeadPeers S now r of
        (r1, pruned) \<Rightarrow> (case ListActivePeers S now r1 of (r2, peers) \<Rightarrow> (r2, pruned, length peers)))"

text \<open>What happens to a tracker: requests and rounds of the pruning loop, each at its time.\<close>

datatype event = Request int request | Tick int

fun event_time :: "event \<Rightarrow> int" where
  "event_time (Request now q) = now"
| "event_time (Tick now) = now"

fun step :: "'s store \<Rightarrow> event \<Rightarrow> 's registry \<Rightarrow> 's registry" where
  "step S (Request now q) r = fst (serve S now q r)"
| "step S (Tick now) r = fst (prune_tick S now r)"

section \<open>What is located\<close>

lemma call_split:
  assumes "call op r = (r', x)"
  shows "op (rg_store r) = (rg_store r', x)" "rg_peerExpiry r' = rg_peerExpiry r" "rg_fleet r' = rg_fleet r"
  using assms by (auto simp: call_def split: prod.splits)

text \<open>
  \<open>answers\<close>: the peers of an answer are registered nodes of \<open>nodes\<close>, not the requester, with a
  heartbeat that is not expired, as the store shows them; sorted by their distance, and when \<open>u\<close> holds each only once.
\<close>

definition answers ::
    "bool \<Rightarrow> (peer \<Rightarrow> peer) \<Rightarrow> index \<Rightarrow> locality \<Rightarrow> int \<Rightarrow> int \<Rightarrow> string \<Rightarrow> string set \<Rightarrow> peer_info list \<Rightarrow> bool" where
  "answers u cmp ix loc now expiry requester nodes out =
     (\<exists>qs. out = SortPeersByProximity loc (map Proto qs) \<and> (u \<longrightarrow> distinct (map pr_NodeID qs)) \<and>
        (\<forall>q \<in> set qs. pr_NodeID q \<in> nodes \<and> pr_NodeID q \<noteq> requester \<and>
           map_option cmp (ix_peers ix (pr_NodeID q)) = Some (cmp q) \<and>
           time_Sub now (pr_LastHeartbeat q) \<le> expiry))"

lemma answers_none: "answers u cmp ix loc now expiry requester nodes []"
  unfolding answers_def
  by (rule exI [of _ "[]"]) (simp add: SortPeersByProximity_def insertion_sort_def)

definition cached_peers :: "int \<Rightarrow> string list \<Rightarrow> string \<Rightarrow> int \<Rightarrow> (string \<times> peer) list \<Rightarrow> peer list" where
  "cached_peers expiry ids skip now peers =
     concat (map (\<lambda>i.
       if i = skip then []
       else case map_of peers i of
           None \<Rightarrow> []
         | Some p \<Rightarrow> if time_Sub now (pr_LastHeartbeat p) \<le> expiry then [p] else []) ids)"

lemma peersFromCache_map: "peersFromCache expiry ids skip now peers = map Proto (cached_peers expiry ids skip now peers)"
  by (auto simp: peersFromCache_def cached_peers_def map_concat intro!: arg_cong [of _ _ concat] split: option.splits)

lemma in_cached_peers:
  "p \<in> set (cached_peers expiry ids skip now peers) \<longleftrightarrow>
     (\<exists>i \<in> set ids. i \<noteq> skip \<and> map_of peers i = Some p \<and> time_Sub now (pr_LastHeartbeat p) \<le> expiry)"
proof (induction ids)
  case (Cons i ids)
  have "cached_peers expiry (i # ids) skip now peers =
      (if i = skip then [] else case map_of peers i of None \<Rightarrow> []
         | Some p \<Rightarrow> if time_Sub now (pr_LastHeartbeat p) \<le> expiry then [p] else []) @
      cached_peers expiry ids skip now peers"
    by (simp add: cached_peers_def)
  with Cons show ?case by (auto split: option.splits if_splits)
qed (simp add: cached_peers_def)

lemma distinct_cached_peers:
  assumes "\<And>i p. map_of peers i = Some p \<Longrightarrow> pr_NodeID p = i" and "distinct ids"
  shows "distinct (map pr_NodeID (cached_peers expiry ids skip now peers))"
  using assms(2)
proof (induction ids)
  case (Cons i ids)
  have "cached_peers expiry (i # ids) skip now peers =
      cached_peers expiry [i] skip now peers @ cached_peers expiry ids skip now peers"
    by (simp add: cached_peers_def)
  moreover have "distinct (map pr_NodeID (cached_peers expiry [i] skip now peers))"
    by (simp add: cached_peers_def split: option.splits)
  moreover have "pr_NodeID p = i" if "p \<in> set (cached_peers expiry [i] skip now peers)" for p
    using that assms(1) by (auto simp: in_cached_peers)
  moreover have "pr_NodeID p \<in> set ids" if "p \<in> set (cached_peers expiry ids skip now peers)" for p
    using that assms(1) by (auto simp: in_cached_peers)
  ultimately show ?case using Cons by auto
qed (simp add: cached_peers_def)

text \<open>\<open>keeps\<close>: a read of the registry, which shows the same afterwards.\<close>

definition keeps :: "('s \<Rightarrow> bool) \<Rightarrow> ('s \<Rightarrow> index) \<Rightarrow> (peer \<Rightarrow> peer) \<Rightarrow> 's registry \<Rightarrow> 's registry \<Rightarrow> bool" where
  "keeps I V cmp r r' =
     (I (rg_store r') \<and> seen cmp (V (rg_store r')) = seen cmp (V (rg_store r)) \<and>
      rg_peerExpiry r' = rg_peerExpiry r)"

lemma keeps_trans: "keeps I V cmp r r' \<Longrightarrow> keeps I V cmp r' r'' \<Longrightarrow> keeps I V cmp r r''"
  by (simp add: keeps_def)

lemma answers_seen: "seen cmp a = seen cmp b \<Longrightarrow> answers u cmp a = answers u cmp b"
  using seen_parts(4) [of cmp a b] by (simp add: answers_def fun_eq_iff)

context location_store
begin

lemma shown_key:
  assumes "inv s" and "map_option cmp x = map_option cmp (ix_peers (view s) i)" and "x = Some p"
  shows "pr_NodeID p = i"
proof -
  obtain q where q: "ix_peers (view s) i = Some q" "cmp p = cmp q" using assms(2,3)
    by (cases "ix_peers (view s) i") auto
  then have "pr_NodeID (forget p) = pr_NodeID (forget q)" using cmp_keeps by metis
  then show ?thesis using keyed [OF assms(1) q(1)] by (simp add: forget_def)
qed

text \<open>The common end of both locate operations.\<close>

lemma answers_from_batch:
  assumes "inv s" and "GetPeersBatch S now uniq s = (s', Inr out)"
    and "u \<longrightarrow> distinct ids" and "set ids \<subseteq> nodes" and "\<And>i. i \<in> set ids \<Longrightarrow> i \<noteq> requester \<Longrightarrow> i \<in> set uniq"
    and "ps = SortPeersByProximity loc (peersFromCache expiry ids requester now out)"
  shows "answers u cmp (view s) loc now expiry requester nodes ps"
    and "i \<in> set ids \<Longrightarrow> i \<noteq> requester \<Longrightarrow> ix_peers (view s) i = Some p \<Longrightarrow>
      \<exists>q. cmp q = cmp p \<and> (time_Sub now (pr_LastHeartbeat q) \<le> expiry \<longrightarrow> Proto q \<in> set ps)"
proof -
  have sub: "fst ` set out \<subseteq> set uniq"
    and eq: "\<And>i. i \<in> set uniq \<Longrightarrow> map_option cmp (map_of out i) = map_option cmp (ix_peers (view s) i)"
    using get_peers [OF assms(1,2)] by auto
  have eq': "map_option cmp (ix_peers (view s) i) = Some (cmp p)" and key: "pr_NodeID p = i"
    if "map_of out i = Some p" for i p
  proof -
    have "i \<in> set uniq" using sub that by (metis imageI fst_conv map_of_SomeD subsetD)
    from eq [OF this] that show "map_option cmp (ix_peers (view s) i) = Some (cmp p)" by simp
    from shown_key [OF assms(1) eq [OF \<open>i \<in> set uniq\<close>] that] show "pr_NodeID p = i" .
  qed
  let ?qs = "cached_peers expiry ids requester now out"
  have ps: "ps = SortPeersByProximity loc (map Proto ?qs)"
    using assms(6) by (simp only: peersFromCache_map)
  have "u \<longrightarrow> distinct (map pr_NodeID ?qs)" using distinct_cached_peers [OF key] assms(3) by simp
  moreover have "pr_NodeID q \<in> nodes \<and> pr_NodeID q \<noteq> requester \<and>
      map_option cmp (ix_peers (view s) (pr_NodeID q)) = Some (cmp q) \<and> time_Sub now (pr_LastHeartbeat q) \<le> expiry"
    if "q \<in> set ?qs" for q
    using that eq' key assms(4) by (auto simp: in_cached_peers)
  ultimately show "answers u cmp (view s) loc now expiry requester nodes ps"
    unfolding answers_def ps by blast
  show "\<exists>q. cmp q = cmp p \<and> (time_Sub now (pr_LastHeartbeat q) \<le> expiry \<longrightarrow> Proto q \<in> set ps)"
    if i: "i \<in> set ids" "i \<noteq> requester" "ix_peers (view s) i = Some p"
  proof -
    obtain q where q: "map_of out i = Some q" "cmp q = cmp p"
      using eq [OF assms(5) [OF i(1,2)]] i(3) by auto
    then have "time_Sub now (pr_LastHeartbeat q) \<le> expiry \<Longrightarrow> q \<in> set ?qs"
      using i(1,2) by (auto simp: in_cached_peers)
    then show ?thesis using q(2) by (auto simp: ps)
  qed
qed

lemma requesterLoc_inv:
  assumes "inv (rg_store r)" and "requesterLoc S now i r = (r', loc)"
  shows "keeps inv view cmp r r'"
proof -
  obtain r1 x where c: "call (GetPeer S now i) r = (r1, x)" by force
  moreover have "r' = r1"
    using assms(2) c by (auto simp: requesterLoc_def split: sum.splits option.splits)
  ultimately show ?thesis using call_split [OF c] get_peer [OF assms(1)] by (auto simp: keeps_def)
qed

lemma locate_ids:
  assumes "inv s" and "LocateChunkNodesBatch S now hs s = (s', Inr located)" and "h \<in> set hs"
  obtains ids where "map_of located h = Some ids" "once hs \<longrightarrow> distinct ids" "set ids = ix_chunks (view s) h"
proof -
  note l = locate_batch [OF assms(1,2)]
  have wf: "wf_alist located" and dom: "fst ` set located = set hs"
    and each: "\<forall>(h, ids) \<in> set located. (once hs \<longrightarrow> distinct ids) \<and> set ids = ix_chunks (view s) h"
    using l by blast+
  from dom assms(3) obtain ids where "(h, ids) \<in> set located" by (metis imageE prod.collapse)
  moreover from this have "map_of located h = Some ids" using wf by simp
  ultimately show thesis using each that by blast
qed

text \<open>The peers of one chunk of an answer.\<close>

lemma location_entry:
  assumes "inv s" and "GetPeersBatch S now uniq s = (s', got)" and "m = (case got of Inl e \<Rightarrow> [] | Inr m \<Rightarrow> m)"
    and "u \<longrightarrow> distinct ids" and "set ids = nodes" and "\<And>i. i \<in> set ids \<Longrightarrow> i \<noteq> requester \<Longrightarrow> i \<in> set uniq"
    and "ps = SortPeersByProximity loc (peersFromCache expiry ids requester now m)"
  shows "answers u cmp (view s) loc now expiry requester nodes ps"
    and "\<not> isl got \<Longrightarrow> i \<in> nodes \<Longrightarrow> i \<noteq> requester \<Longrightarrow> ix_peers (view s) i = Some p \<Longrightarrow>
      \<exists>q. cmp q = cmp p \<and> (time_Sub now (pr_LastHeartbeat q) \<le> expiry \<longrightarrow> Proto q \<in> set ps)"
proof -
  show "answers u cmp (view s) loc now expiry requester nodes ps"
  proof (cases got)
    case (Inl e)
    then have "peersFromCache expiry ids requester now m = []"
      using assms(3) by (auto simp: peersFromCache_def)
    then have "ps = []" using assms(7) by (simp add: SortPeersByProximity_def insertion_sort_def)
    then show ?thesis by (simp add: answers_none)
  next
    case (Inr out)
    then show ?thesis
      using answers_from_batch(1) [OF assms(1) _ assms(4) _ assms(6,7), of s'] assms(2,3,5) by simp
  qed
  show "\<exists>q. cmp q = cmp p \<and> (time_Sub now (pr_LastHeartbeat q) \<le> expiry \<longrightarrow> Proto q \<in> set ps)"
    if "\<not> isl got" "i \<in> nodes" "i \<noteq> requester" "ix_peers (view s) i = Some p"
    using that answers_from_batch(2) [OF assms(1) _ assms(4) _ assms(6,7), of s' nodes i p] assms(2,3,5)
    by (cases got) auto
qed

lemma LocateChunks_spec:
  assumes "inv (rg_store r)" and "LocateChunks S now requester hs r = (r', locs)"
    and "requesterLoc S now requester r = (r1, loc)"
  shows "keeps inv view cmp r r' \<and> map fst locs = hs \<and>
    (\<forall>(h, ps) \<in> set locs.
       answers (once hs) cmp (view (rg_store r)) loc now (rg_peerExpiry r) requester (ix_chunks (view (rg_store r)) h) ps) \<and>
    ((\<forall>s. \<not> isl (snd (LocateChunkNodesBatch S now hs s))) \<and> (\<forall>is s. \<not> isl (snd (GetPeersBatch S now is s))) \<longrightarrow>
     (\<forall>(h, ps) \<in> set locs. \<forall>i \<in> ix_chunks (view (rg_store r)) h. \<forall>p.
        i \<noteq> requester \<longrightarrow> ix_peers (view (rg_store r)) i = Some p \<longrightarrow>
        (\<exists>q. cmp q = cmp p \<and> (time_Sub now (pr_LastHeartbeat q) \<le> rg_peerExpiry r \<longrightarrow> Proto q \<in> set ps))))"
proof -
  note req = assms(3)
  have k1: "keeps inv view cmp r r1" by (rule requesterLoc_inv [OF assms(1) req])
  then have inv1: "inv (rg_store r1)" and s1: "seen cmp (view (rg_store r1)) = seen cmp (view (rg_store r))"
    by (simp_all add: keeps_def)
  obtain r2 x where lb: "call (LocateChunkNodesBatch S now hs) r1 = (r2, x)" by force
  note lb1 = call_split(1) [OF lb]
  have inv2: "inv (rg_store r2)" and s2: "seen cmp (view (rg_store r2)) = seen cmp (view (rg_store r))"
    using locate_batch [OF inv1 lb1] s1 by simp_all
  then have k2: "keeps inv view cmp r r2"
    using k1 call_split(2) [OF lb] by (simp add: keeps_def)
  show ?thesis
  proof (cases x)
    case (Inl e)
    then have res: "r' = r2" "locs = map (\<lambda>h. (h, [])) hs"
      using assms(2) req lb by (simp_all add: LocateChunks_def)
    have fail: "isl (snd (LocateChunkNodesBatch S now hs (rg_store r1)))" using lb1 Inl by simp
    have "map fst locs = hs" by (simp add: res comp_def)
    moreover have "\<forall>(h, ps) \<in> set locs. ps = []" by (auto simp: res)
    ultimately show ?thesis using k2 res(1) fail answers_none by fastforce
  next
    case (Inr located)
    let ?uniq = "remdups (filter (\<lambda>i. i \<noteq> requester) (concat (map snd located)))"
    obtain r3 got where gp: "call (GetPeersBatch S now ?uniq) r2 = (r3, got)" by force
    define m where "m = (case got of Inl e \<Rightarrow> [] | Inr m \<Rightarrow> m)"
    define ids where "ids h = (case map_of located h of None \<Rightarrow> [] | Some ids \<Rightarrow> ids)" for h
    define ps where "ps h = SortPeersByProximity loc (peersFromCache (rg_peerExpiry r) (ids h) requester now m)" for h
    have res: "r' = r3" "locs = map (\<lambda>h. (h, ps h)) hs"
      using assms(2) req lb gp Inr by (simp_all add: LocateChunks_def Let_def m_def ids_def ps_def)
    note gp1 = call_split(1) [OF gp]
    have k3: "keeps inv view cmp r r'"
      using get_peers [OF inv2 gp1] call_split(2) [OF gp] k2 res(1) by (simp add: keeps_def)
    have entry: "once hs \<longrightarrow> distinct (ids h)" "set (ids h) = ix_chunks (view (rg_store r)) h"
      "\<And>i. i \<in> set (ids h) \<Longrightarrow> i \<noteq> requester \<Longrightarrow> i \<in> set ?uniq" if h: "h \<in> set hs" for h
    proof -
      obtain is' where "is": "map_of located h = Some is'" "once hs \<longrightarrow> distinct is'" "set is' = ix_chunks (view (rg_store r1)) h"
        using locate_ids [OF inv1 lb1 [unfolded Inr] h] .
      then show "once hs \<longrightarrow> distinct (ids h)" "set (ids h) = ix_chunks (view (rg_store r)) h"
        using seen_parts(1) [OF s1] by (simp_all add: ids_def)
      show "\<And>i. i \<in> set (ids h) \<Longrightarrow> i \<noteq> requester \<Longrightarrow> i \<in> set ?uniq"
        using map_of_SomeD [OF "is"(1)] "is"(1) by (force simp: ids_def)
    qed
    have ans: "answers (once hs) cmp (view (rg_store r)) loc now (rg_peerExpiry r) requester (ix_chunks (view (rg_store r)) h) (ps h)"
      if "h \<in> set hs" for h
      using location_entry(1) [OF inv2 gp1 m_def entry(1,2) [OF that] entry(3) [OF that] ps_def] answers_seen [OF s2]
      by simp
    have comp: "\<exists>q. cmp q = cmp p \<and> (time_Sub now (pr_LastHeartbeat q) \<le> rg_peerExpiry r \<longrightarrow> Proto q \<in> set (ps h))"
      if c: "h \<in> set hs" "\<not> isl got" "i \<in> ix_chunks (view (rg_store r)) h" "i \<noteq> requester"
        "ix_peers (view (rg_store r)) i = Some p" for h i p
    proof -
      obtain p' where "ix_peers (view (rg_store r2)) i = Some p'" "cmp p' = cmp p"
        using seen_parts(4) [OF s2, of i] c(5) by auto
      with location_entry(2) [OF inv2 gp1 m_def entry(1,2) [OF c(1)] entry(3) [OF c(1)] ps_def c(2-4)] show ?thesis
        by metis
    qed
    have "\<not> isl got" if "\<forall>is s. \<not> isl (snd (GetPeersBatch S now is s))" using that gp1 by (metis snd_conv)
    then show ?thesis using k3 ans comp unfolding res(2) by (auto simp: comp_def)
  qed
qed

lemma peersForIDs_spec:
  assumes "inv (rg_store r)" and "peersForIDs S now ids requester r = (r', ps)" and "distinct ids" and "set ids = nodes"
  shows "keeps inv view cmp r r' \<and>
    answers True cmp (view (rg_store r)) loc now (rg_peerExpiry r) requester nodes (SortPeersByProximity loc ps)"
proof -
  obtain r1 got where gp: "call (GetPeersBatch S now ids) r = (r1, got)" by force
  note gp1 = call_split(1) [OF gp]
  define m where "m = (case got of Inl e \<Rightarrow> [] | Inr m \<Rightarrow> m)"
  have none: "peersFromCache e ids requester now [] = []" for e by (auto simp: peersFromCache_def)
  have res: "r' = r1" "ps = peersFromCache (rg_peerExpiry r) ids requester now m"
    using assms(2) gp by (cases got; simp add: peersForIDs_def m_def none)+
  have "keeps inv view cmp r r'"
    using get_peers [OF assms(1) gp1] call_split(2) [OF gp] res(1) by (simp add: keeps_def)
  moreover have "answers True cmp (view (rg_store r)) loc now (rg_peerExpiry r) requester nodes (SortPeersByProximity loc ps)"
    using location_entry(1) [OF assms(1) gp1 m_def _ assms(4), of True requester] assms(3) res(2) by simp
  ultimately show ?thesis ..
qed

lemma LocateArtifact_spec:
  assumes "inv (rg_store r)" and "LocateArtifact S now requester a r = (r', ps)"
  shows "keeps inv view cmp r r' \<and>
    (\<exists>loc. answers True cmp (view (rg_store r)) loc now (rg_peerExpiry r) requester (ix_seeds (view (rg_store r)) a) ps)"
proof -
  obtain r1 x where ls: "call (ListSeeds S now a) r = (r1, x)" by force
  note l = list_seeds [OF assms(1) call_split(1) [OF ls]]
  have k1: "keeps inv view cmp r r1" using l call_split(2) [OF ls] by (simp add: keeps_def)
  show ?thesis
  proof (cases x)
    case (Inl e)
    then show ?thesis using assms(2) ls k1 by (auto simp: LocateArtifact_def answers_none)
  next
    case (Inr ids)
    obtain r2 out where pf: "peersForIDs S now ids requester r1 = (r2, out)" by force
    obtain r3 loc where rl: "requesterLoc S now requester r2 = (r3, loc)" by force
    have res: "r' = r3" "ps = SortPeersByProximity loc out"
      using assms(2) ls Inr pf rl by (simp_all add: LocateArtifact_def)
    have i1: "inv (rg_store r1)" and s1: "seen cmp (view (rg_store r1)) = seen cmp (view (rg_store r))"
      "rg_peerExpiry r1 = rg_peerExpiry r"
      using k1 by (simp_all add: keeps_def)
    have "distinct ids" "set ids = ix_seeds (view (rg_store r1)) a"
      using l Inr seen_parts(2) [OF s1(1)] by auto
    note p = peersForIDs_spec [OF i1 pf this, of loc]
    then have "keeps inv view cmp r2 r3" using requesterLoc_inv [OF _ rl] by (simp add: keeps_def)
    then show ?thesis
      using p k1 res s1 keeps_trans answers_seen [OF s1(1)] seen_parts(2) [OF s1(1)] by metis
  qed
qed

end

end
