(* ===== verification/Tracker.thy ===== *)
theory Tracker
  imports Registry
begin

text \<open>
  The tracker as a whole: every request and every round of the pruning loop moves the abstract index as it
  may, over any store that keeps the contract; and what this means for peers that look for chunks.
\<close>

section \<open>The tracker as a machine on the index\<close>

text \<open>
  What an event may do to the index, \<open>d\<close> being the expiry of peers and \<open>clk\<close> the clock of the store: nothing,
  when it only reads or the store fails, or the one change its handler is for. Pruning drops no peer
  whose last heartbeat is at most \<open>d\<close> ago.
\<close>

inductive ix_step :: "int \<Rightarrow> (int \<Rightarrow> int) \<Rightarrow> event \<Rightarrow> index \<Rightarrow> index \<Rightarrow> bool" for d :: int and clk :: "int \<Rightarrow> int" where
  idle: "ix_step d clk ev ix ix"
| register: "pr_NodeID p = pi_NodeId info \<Longrightarrow> pr_LastHeartbeat p = Some now \<Longrightarrow>
    ix_step d clk (Request now (RegisterPeerRequest (Some info))) ix (ix_upsert clk now p ix)"
| beat: "ix_step d clk (Request now (HeartbeatRequest i)) ix (ix_touch clk now i ix)"
| leave: "ix_step d clk (Request now (DeregisterPeerRequest i)) ix (ix_drop {i} ix)"
| report: "ix_step d clk (Request now (ReportChunksRequest i hs)) ix (ix_report i hs (ix_touch clk now i ix))"
| publish: "ar_ArtifactID rec = a \<Longrightarrow> ix_step d clk (Request now (PutArtifactRequest a n v j)) ix
    (ix\<lparr>ix_arts := (ix_arts ix)(a \<mapsto> rec)\<rparr>)"
| seed: "ix_step d clk (Request now (ReportArtifactRequest i a True)) ix (ix_seed a i ix)"
| prune: "\<forall>i p t. ix_peers ix i = Some p \<longrightarrow> pr_LastHeartbeat p = Some t \<longrightarrow> now - t \<le> d \<longrightarrow> i \<notin> dead \<Longrightarrow>
    ix_step d clk (Tick now) ix (ix_drop dead ix)"

lemma keeps_view: "keeps I V (\<lambda>p. p) r r' \<Longrightarrow> I (rg_store r') \<and> V (rg_store r') = V (rg_store r) \<and> rg_peerExpiry r' = rg_peerExpiry r"
  by (simp add: keeps_def)

text \<open>\<open>refines\<close>: the registry moved from \<open>r\<close> to \<open>r'\<close> as the event may move the index.\<close>

definition refines ::
    "('s \<Rightarrow> bool) \<Rightarrow> ('s \<Rightarrow> index) \<Rightarrow> (int \<Rightarrow> int) \<Rightarrow> event \<Rightarrow> 's registry \<Rightarrow> 's registry \<Rightarrow> bool" where
  "refines I V clk ev r r' =
     (I (rg_store r') \<and> rg_peerExpiry r' = rg_peerExpiry r \<and>
      ix_step (rg_peerExpiry r) clk ev (V (rg_store r)) (V (rg_store r')))"

lemma refines_idle: "keeps I V (\<lambda>p. p) r r' \<Longrightarrow> refines I V clk ev r r'"
  by (auto simp: refines_def dest!: keeps_view intro: ix_step.idle)

context metadata_store
begin

text \<open>A call that either failed or made the change \<open>f\<close>.\<close>

lemma refines_call:
  assumes "call op r = (r1, x)" and "rg_store r' = rg_store r1" and "rg_peerExpiry r' = rg_peerExpiry r1"
    and "inv (rg_store r1) \<and> seen (\<lambda>p. p) (view (rg_store r1)) = seen (\<lambda>p. p) (if isl x then view (rg_store r) else ix')"
    and "ix_step (rg_peerExpiry r) clk ev (view (rg_store r)) ix'"
  shows "refines inv view clk ev r r'"
  using assms(2-5) call_split(2) [OF assms(1)] ix_step.idle by (auto simp: refines_def split: if_splits)

lemma RegisterPeer_refines:
  assumes "inv (rg_store r)"
  shows "refines inv view clk (Request now (RegisterPeerRequest peer)) r (fst (server_RegisterPeer S now peer r))"
proof (cases "peer = None \<or> (\<exists>info. peer = Some info \<and> pi_NodeId info = [])")
  case True
  then show ?thesis
    using assms by (auto simp: server_RegisterPeer_def intro!: refines_idle simp: keeps_def)
next
  case False
  then obtain info where info: "peer = Some info" "pi_NodeId info \<noteq> []" by auto
  let ?p = "(PeerFromProto now peer)\<lparr>pr_LastHeartbeat := Some now\<rparr>"
  obtain r1 x where c: "call (UpsertPeer S now ?p) r = (r1, x)" by force
  have "pr_NodeID ?p = pi_NodeId info" by (simp add: info PeerFromProto_def Let_def)
  then have "ix_step (rg_peerExpiry r) clk (Request now (RegisterPeerRequest peer)) (view (rg_store r))
      (ix_upsert clk now ?p (view (rg_store r)))"
    unfolding info(1) by (intro ix_step.register) simp_all
  moreover have "fst (server_RegisterPeer S now peer r) = r1"
    using c info by (simp add: server_RegisterPeer_def RegisterPeer_def)
  ultimately show ?thesis
    using refines_call [OF c _ _ upsert [OF assms call_split(1) [OF c]]] by simp
qed

lemma Heartbeat_refines:
  assumes "inv (rg_store r)"
  shows "refines inv view clk (Request now (HeartbeatRequest i)) r (fst (server_Heartbeat S now i r))"
proof -
  obtain r1 x where c: "call (Heartbeat S now i) r = (r1, x)" by force
  have "fst (server_Heartbeat S now i r) = r1"
    using c by (cases x) (simp_all add: server_Heartbeat_def HeartbeatNode_def)
  then show ?thesis
    using refines_call [OF c _ _ _ ix_step.beat] heartbeat [OF assms call_split(1) [OF c]] by simp
qed

lemma Deregister_refines:
  assumes "inv (rg_store r)"
  shows "refines inv view clk (Request now (DeregisterPeerRequest i)) r (fst (server_DeregisterPeer S now i r))"
proof -
  obtain r1 x where c: "call (DeregisterPeer S now i) r = (r1, x)" by force
  then have "fst (server_DeregisterPeer S now i r) = r1"
    by (simp add: server_DeregisterPeer_def DeregisterNode_def)
  then show ?thesis
    using refines_call [OF c _ _ deregister [OF assms call_split(1) [OF c]] ix_step.leave] by simp
qed

lemma ReportChunks_refines:
  assumes "inv (rg_store r)"
  shows "refines inv view clk (Request now (ReportChunksRequest i hs)) r (fst (server_ReportChunks S now i hs r))"
proof -
  obtain r1 x where c: "call (ReportChunks S now i hs) r = (r1, x)" by force
  have "fst (server_ReportChunks S now i hs r) = r1"
    using c by (cases x) (simp_all add: server_ReportChunks_def ReportNodeChunks_def)
  then show ?thesis
    using refines_call [OF c _ _ _ ix_step.report] report_chunks [OF assms call_split(1) [OF c]] by simp
qed

lemma ReportArtifact_refines:
  assumes "inv (rg_store r)"
  shows "refines inv view clk (Request now (ReportArtifactRequest i a b)) r (fst (server_ReportArtifact S now i a b r))"
proof (cases b)
  case True
  obtain r1 x where c: "call (ReportSeed S now a i) r = (r1, x)" by force
  have "rg_store (fst (server_ReportArtifact S now i a b r)) = rg_store r1"
    "rg_peerExpiry (fst (server_ReportArtifact S now i a b r)) = rg_peerExpiry r1"
    using c True by (cases x; simp add: server_ReportArtifact_def ReportArtifact_def split: prod.splits)+
  from refines_call [OF c this report_seed [OF assms call_split(1) [OF c]] ix_step.seed] True show ?thesis
    by simp
next
  case False
  then show ?thesis
    using assms by (auto simp: server_ReportArtifact_def intro!: refines_idle simp: keeps_def)
qed

lemma ListActivePeers_keeps:
  assumes "inv (rg_store r)" and "ListActivePeers S now r = (r', ps)"
  shows "keeps inv view (\<lambda>p. p) r r'"
proof -
  obtain r1 x where c: "call (ListPeers S now (rg_peerExpiry r)) r = (r1, x)" by force
  then have "r' = r1" using assms(2) by (cases x) (simp_all add: ListActivePeers_def)
  then show ?thesis using list_peers [OF assms(1) call_split(1) [OF c]] call_split(2) [OF c] by (simp add: keeps_def)
qed

lemma ReadyNodes_keeps:
  assumes "inv (rg_store r)" and "ReadyNodes S now a r = (r', ids)"
  shows "keeps inv view (\<lambda>p. p) r r'"
proof -
  obtain r1 x where c: "call (ListSeeds S now a) r = (r1, x)" by force
  then have "r' = r1" using assms(2) by (cases x) (simp_all add: ReadyNodes_def)
  then show ?thesis using list_seeds [OF assms(1) call_split(1) [OF c]] call_split(2) [OF c] by (simp add: keeps_def)
qed

lemma PutArtifact_refines:
  assumes "inv (rg_store r)"
  shows "refines inv view clk (Request now (PutArtifactRequest a n v j)) r (fst (server_PutArtifact S now a n v j r))"
proof -
  let ?rec = "\<lparr>ar_ArtifactID = a, ar_Name = n, ar_Version = v, ar_ManifestJSON = j\<rparr>"
  obtain r1 x where c: "call (PutArtifact S now ?rec) r = (r1, x)" by force
  note p = put_artifact [OF assms call_split(1) [OF c]]
  note step = ix_step.publish [of ?rec a "rg_peerExpiry r" clk now n v j "view (rg_store r)"]
  show ?thesis
  proof (cases x)
    case (Inl e)
    then have "fst (server_PutArtifact S now a n v j r) = r1"
      using c by (simp add: server_PutArtifact_def RegistryPutArtifact_def)
    then show ?thesis using refines_call [OF c _ _ p] step by simp
  next
    case (Inr u)
    obtain r2 ps where l: "ListActivePeers S now r1 = (r2, ps)" by force
    have k: "keeps inv view (\<lambda>p. p) r1 r2" using ListActivePeers_keeps [OF _ l] p by simp
    have r': "rg_store (fst (server_PutArtifact S now a n v j r)) = rg_store r2"
      "rg_peerExpiry (fst (server_PutArtifact S now a n v j r)) = rg_peerExpiry r2"
      using c l Inr by (simp_all add: server_PutArtifact_def RegistryPutArtifact_def Let_def split: prod.splits)
    have "refines inv view clk (Request now (PutArtifactRequest a n v j)) r r1"
      using refines_call [OF c _ _ p] step by simp
    then show ?thesis using keeps_view [OF k] r' by (simp add: refines_def)
  qed
qed

lemma prune_refines:
  assumes "inv (rg_store r)" and "0 < rg_peerExpiry r"
  shows "refines inv view clk (Tick now) r (fst (prune_tick S now r))"
proof -
  obtain r1 x where c: "call (PruneExpiredPeers S now (rg_peerExpiry r)) r = (r1, x)" by force
  obtain r2 ps where l: "ListActivePeers S now r1 = (r2, ps)" by force
  note p = prune [OF assms(1) call_split(1) [OF c]]
  have "fst (prune_tick S now r) = r2"
    using c l by (cases x) (simp_all add: prune_tick_def PruneDeadPeers_def)
  moreover have k: "keeps inv view (\<lambda>p. p) r1 r2" using ListActivePeers_keeps [OF _ l] p by simp
  moreover obtain dead where dead: "view (rg_store r1) = ix_drop dead (view (rg_store r))" "isl x \<Longrightarrow> dead = {}"
    using p by (cases x) auto
  moreover have "i \<notin> dead" if "ix_peers (view (rg_store r)) i = Some q" "pr_LastHeartbeat q = Some t"
      "now - t \<le> rg_peerExpiry r" for i q t
  proof (cases x)
    case (Inr n)
    then have "ix_peers (view (rg_store r1)) i = Some q"
      using prune_live [OF assms(1) call_split(1) [OF c, unfolded Inr] that assms(2)] by simp
    then show ?thesis using dead(1) by (auto simp: ix_drop_def split: if_splits)
  qed (use dead in simp)
  ultimately show ?thesis
    using call_split(2) [OF c] keeps_view [OF k] ix_step.prune [of "view (rg_store r)" now "rg_peerExpiry r" dead clk]
    by (auto simp: refines_def)
qed

text \<open>The summary: every event moves the index as it may.\<close>

lemma step_refines:
  assumes "inv (rg_store r)" and "0 < rg_peerExpiry r"
  shows "refines inv view clk ev r (step S ev r)"
proof (cases ev)
  case (Request now q)
  show ?thesis
  proof (cases q)
    case (LocateChunksRequest i hs)
    obtain r' locs where l: "LocateChunks S now i hs r = (r', locs)" by force
    obtain r1 loc where "requesterLoc S now i r = (r1, loc)" by force
    then show ?thesis
      using l LocateChunks_spec [OF assms(1) l] Request LocateChunksRequest
      by (auto simp: server_LocateChunks_def intro: refines_idle)
  next
    case ListPeersRequest
    obtain r' ps where l: "ListActivePeers S now r = (r', ps)" by force
    then show ?thesis
      using ListActivePeers_keeps [OF assms(1) l] Request ListPeersRequest
      by (auto simp: server_ListPeers_def intro: refines_idle)
  next
    case (LocateArtifactRequest i a)
    obtain r' ps where l: "LocateArtifact S now i a r = (r', ps)" by force
    then show ?thesis
      using LocateArtifact_spec [OF assms(1) l] Request LocateArtifactRequest
      by (auto simp: server_LocateArtifact_def intro: refines_idle)
  next
    case (GetArtifactStatusRequest a)
    obtain r' ids where l: "ReadyNodes S now a r = (r', ids)" by force
    then show ?thesis
      using ReadyNodes_keeps [OF assms(1) l] Request GetArtifactStatusRequest
      by (auto simp: server_GetArtifactStatus_def intro: refines_idle)
  qed (use Request RegisterPeer_refines Heartbeat_refines Deregister_refines ReportChunks_refines
      ReportArtifact_refines PutArtifact_refines assms(1) in simp_all)
next
  case (Tick now)
  then show ?thesis using prune_refines [OF assms] by simp
qed

end

section \<open>Traces of events\<close>

inductive ix_run :: "int \<Rightarrow> (int \<Rightarrow> int) \<Rightarrow> event list \<Rightarrow> index \<Rightarrow> index \<Rightarrow> bool" for d :: int and clk :: "int \<Rightarrow> int" where
  none: "ix_run d clk [] ix ix"
| more: "ix_step d clk ev ix ix' \<Longrightarrow> ix_run d clk evs ix' ix'' \<Longrightarrow> ix_run d clk (ev # evs) ix ix''"

lemma ix_run_keeps:
  assumes "ix_run d clk evs ix ix'" and "P ix" and "\<And>ev ix ix'. ev \<in> set evs \<Longrightarrow> ix_step d clk ev ix ix' \<Longrightarrow> P ix \<Longrightarrow> P ix'"
  shows "P ix'"
  using assms by induction auto

context metadata_store
begin

lemma trace_refines:
  assumes "inv (rg_store r)" and "0 < rg_peerExpiry r"
  shows "inv (rg_store (fold (step S) evs r)) \<and> rg_peerExpiry (fold (step S) evs r) = rg_peerExpiry r \<and>
    ix_run (rg_peerExpiry r) clk evs (view (rg_store r)) (view (rg_store (fold (step S) evs r)))"
  using assms
proof (induction evs arbitrary: r)
  case (Cons ev evs)
  note one = step_refines [OF Cons.prems, of ev, unfolded refines_def]
  then show ?case
    using Cons.IH [of "step S ev r"] Cons.prems(2) ix_run.more by fastforce
qed (simp add: ix_run.none)

end

lemmas ix_defs = ix_upsert_def ix_touch_def ix_drop_def ix_seed_def ix_report_def


abbreviation is_join :: "string \<Rightarrow> event \<Rightarrow> bool" where
  "is_join i ev \<equiv> (\<exists>now info. ev = Request now (RegisterPeerRequest (Some info)) \<and> pi_NodeId info = i)"



definition absent_ix :: "string \<Rightarrow> index \<Rightarrow> bool" where
  "absent_ix i ix = (ix_peers ix i = None)"

lemma absent_ix_step:
  assumes "ix_step d clk ev ix ix'" and "absent_ix i ix" and "\<not> is_join i ev"
  shows "absent_ix i ix'"
  using assms by cases (auto simp: absent_ix_def ix_defs Let_def split: option.splits)


lemma absent_ix_run:
  assumes "ix_run d clk evs ix ix'" and "absent_ix i ix" and "\<forall>ev \<in> set evs. \<not> is_join i ev"
  shows "absent_ix i ix'"
proof (rule ix_run_keeps [where P = "absent_ix i", OF assms(1,2)])
  show "absent_ix i ix2" if "ev \<in> set evs" "ix_step d clk ev ix1 ix2" "absent_ix i ix1" for ev ix1 ix2
    using bspec [OF assms(3) that(1)] by (intro absent_ix_step [OF that(2,3)]) simp_all
qed

section \<open>The tracker over the in-memory store\<close>

definition live_holders :: "index \<Rightarrow> int \<Rightarrow> int \<Rightarrow> string \<Rightarrow> string \<Rightarrow> string set" where
  "live_holders ix now expiry requester h =
     {i \<in> ix_chunks ix h. i \<noteq> requester \<and> (\<exists>p. ix_peers ix i = Some p \<and> time_Sub now (pr_LastHeartbeat p) \<le> expiry)}"

lemma answers_exact:
  assumes "answers True (\<lambda>p. p) ix loc now expiry requester (ix_chunks ix h) ps"
    and "\<And>i p. i \<in> ix_chunks ix h \<Longrightarrow> i \<noteq> requester \<Longrightarrow> ix_peers ix i = Some p \<Longrightarrow>
      time_Sub now (pr_LastHeartbeat p) \<le> expiry \<Longrightarrow> Proto p \<in> set ps"
    and "\<And>i p. ix_peers ix i = Some p \<Longrightarrow> pr_NodeID p = i"
  shows "distinct (map pi_NodeId ps) \<and> set (map pi_NodeId ps) = live_holders ix now expiry requester h \<and>
    sorted_wrt (\<lambda>p q. \<not> nearer loc q p) ps"
proof -
  have id: "pi_NodeId (Proto q) = pr_NodeID q" for q by (simp add: Proto_def)
  obtain qs where qs: "ps = SortPeersByProximity loc (map Proto qs)" "distinct (map pr_NodeID qs)"
    and in_qs: "\<And>q. q \<in> set qs \<Longrightarrow> pr_NodeID q \<in> ix_chunks ix h \<and> pr_NodeID q \<noteq> requester \<and>
      ix_peers ix (pr_NodeID q) = Some q \<and> time_Sub now (pr_LastHeartbeat q) \<le> expiry"
    using assms(1) by (auto simp: answers_def option.map_ident)
  have "mset (map pi_NodeId ps) = mset (map pr_NodeID qs)" by (simp add: qs(1) multiset.map_comp o_def id)
  then have d: "distinct (map pi_NodeId ps)" using qs(2) mset_eq_imp_distinct_iff by blast
  have ids: "set (map pi_NodeId ps) = pr_NodeID ` set qs" by (simp add: qs(1) id image_image)
  have "set (map pi_NodeId ps) = live_holders ix now expiry requester h"
  proof
    show "set (map pi_NodeId ps) \<subseteq> live_holders ix now expiry requester h"
      unfolding ids using in_qs by (auto simp: live_holders_def)
    show "live_holders ix now expiry requester h \<subseteq> set (map pi_NodeId ps)"
    proof
      fix i
      assume "i \<in> live_holders ix now expiry requester h"
      then obtain p where p: "ix_peers ix i = Some p" "Proto p \<in> set ps"
        using assms(2) by (auto simp: live_holders_def)
      then show "i \<in> set (map pi_NodeId ps)" using assms(3) [OF p(1)] id [of p] by force
    qed
  qed
  with d SortPeers_sorted [of loc] qs(1) show ?thesis by simp
qed

lemma locate_mem:
  assumes "mem_inv (rg_store r)" and "LocateChunks memory_store now requester hs r = (r', locs)"
  shows "map fst locs = hs \<and>
    (\<forall>(h, ps) \<in> set locs. distinct (map pi_NodeId ps) \<and>
       set (map pi_NodeId ps) = live_holders (mem_view (rg_store r)) now (rg_peerExpiry r) requester h \<and>
       sorted_wrt (\<lambda>p q. \<not> nearer (snd (requesterLoc memory_store now requester r)) q p) ps)"
proof -
  obtain r1 loc where req: "requesterLoc memory_store now requester r = (r1, loc)" by force
  note spec = mem.LocateChunks_spec [OF assms req]
  have ok: "\<forall>s. \<not> isl (snd (LocateChunkNodesBatch memory_store now hs s))"
    "\<forall>is s. \<not> isl (snd (GetPeersBatch memory_store now is s))"
    by (simp_all add: memory_store_def mem_LocateChunkNodesBatch_def mem_GetPeersBatch_def)
  show ?thesis
  proof (intro conjI ballI, goal_cases)
    case 1
    then show ?case using spec by blast
  next
    case (2 x)
    obtain h ps where x: "x = (h, ps)" by force
    have "distinct (map pi_NodeId ps) \<and>
       set (map pi_NodeId ps) = live_holders (mem_view (rg_store r)) now (rg_peerExpiry r) requester h \<and>
       sorted_wrt (\<lambda>p q. \<not> nearer loc q p) ps"
    proof (rule answers_exact)
      show "answers True (\<lambda>p. p) (mem_view (rg_store r)) loc now (rg_peerExpiry r) requester (ix_chunks (mem_view (rg_store r)) h) ps"
        using spec 2 x by fast
      show "Proto p \<in> set ps" if "i \<in> ix_chunks (mem_view (rg_store r)) h" "i \<noteq> requester"
        "ix_peers (mem_view (rg_store r)) i = Some p" "time_Sub now (pr_LastHeartbeat p) \<le> rg_peerExpiry r" for i p
        using spec ok 2 x that by fast
    qed (rule mem.keyed [OF assms(1)])
    then show ?case by (simp add: x req)
  qed
qed

lemma new_mem: "mem_inv (rg_store (NewRegistryWithStore NewMemory e))" "0 < rg_peerExpiry (NewRegistryWithStore NewMemory e)"
  "mem_view NewMemory = \<lparr>ix_peers = Map.empty, ix_arts = Map.empty, ix_seeds = (\<lambda>a. {}), ix_chunks = (\<lambda>h. {})\<rparr>"
  by (simp_all add: NewRegistryWithStore_def NewMemory_def mem_inv_def mem_view_def node_maps_def nodes_at_def)

lemmas new_mem_trace = mem.trace_refines [OF new_mem(1,2)]


lemma step_leave_mem:
  assumes "mem_inv (rg_store r)"
  shows "absent_ix i (mem_view (rg_store (step memory_store (Request t (DeregisterPeerRequest i)) r)))"
  using mem_drop [OF assms, of i]
  by (simp add: server_DeregisterPeer_def DeregisterNode_def call_def memory_store_def mem_DeregisterPeer_def absent_ix_def ix_drop_def)



abbreviation sample_info :: peer_info where
  "sample_info \<equiv> \<lparr>pi_NodeId = ''n'', pi_Address = ''n:1'', pi_Region = ''r'', pi_Zone = ''z'', pi_Rack = ''k'', pi_Host = ''h'',
     pi_LastSeenUnix = 0\<rparr>"

abbreviation sample_trace :: "event list" where
  "sample_trace \<equiv> [Request 1 (RegisterPeerRequest (Some sample_info))]"




text \<open>
  C28. Once a node has deregistered and until it registers again, no answer of \<open>LocateChunks\<close> names it: neither
  heartbeats nor reports of chunks that arrive late bring it back.
\<close>

theorem tracker_forgets_deregistered:
  assumes "r = fold (step memory_store) evs0 (NewRegistryWithStore NewMemory e)"
    and "\<forall>ev \<in> set evs. \<not> is_join i ev"
    and "LocateChunks memory_store now requester hs (fold (step memory_store) (Request t (DeregisterPeerRequest i) # evs) r) = (r', locs)"
    and "(h, ps) \<in> set locs"
  shows "i \<notin> pi_NodeId ` set ps"
proof -
  let ?r1 = "step memory_store (Request t (DeregisterPeerRequest i)) r"
  let ?r2 = "fold (step memory_store) evs ?r1"
  have r: "mem_inv (rg_store r)" "0 < rg_peerExpiry r" using new_mem_trace [of evs0 e] new_mem(2) [of e] assms(1) by auto
  have r1: "mem_inv (rg_store ?r1)" "rg_peerExpiry ?r1 = rg_peerExpiry r"
    using mem.step_refines [OF r] by (simp_all only: refines_def)
  have r2: "mem_inv (rg_store ?r2)"
    "ix_run (rg_peerExpiry r) (\<lambda>t. t) evs (mem_view (rg_store ?r1)) (mem_view (rg_store ?r2))"
    using mem.trace_refines [OF r1(1), of evs] r(2) unfolding r1(2) by blast+
  have "absent_ix i (mem_view (rg_store ?r2))"
    using absent_ix_run [OF r2(2) step_leave_mem [OF r(1)]] assms(2) by blast
  then have "i \<notin> live_holders (mem_view (rg_store ?r2)) now (rg_peerExpiry ?r2) requester h"
    by (simp add: absent_ix_def live_holders_def)
  then show ?thesis using locate_mem [OF r2(1)] assms(3,4) by fastforce
qed

theorem tracker_forgets_deregistered_witness:
  "''n'' \<notin> pi_NodeId ` set (snd (hd (snd (LocateChunks memory_store 6 ''x'' [''c'']
     (fold (step memory_store) [Request 2 (DeregisterPeerRequest ''n''), Request 3 (ReportChunksRequest ''n'' [''c''])]
        (fold (step memory_store) sample_trace (NewRegistryWithStore NewMemory 5)))))))"
proof -
  let ?r = "fold (step memory_store) sample_trace (NewRegistryWithStore NewMemory 5)"
  let ?L = "LocateChunks memory_store 6 ''x'' [''c'']
    (fold (step memory_store) [Request 2 (DeregisterPeerRequest ''n''), Request 3 (ReportChunksRequest ''n'' [''c''])] ?r)"
  have "map fst (snd ?L) = [''c'']" by code_simp
  then have found: "(''c'', snd (hd (snd ?L))) \<in> set (snd ?L)" by (cases "snd ?L") auto
  show ?thesis
    by (rule tracker_forgets_deregistered [OF refl _ surjective_pairing found]) auto
qed

end
