(* ===== verification/SqlQueries.thy ===== *)
theory SqlQueries
  imports Json
begin

text \<open>
  \<open>pkg/store/embed.go\<close> and the text of \<open>pkg/store/sql/queries.sql\<close>: splitting the embedded file into named
  queries, and the placeholders of Postgres. Every query the driver uses is found.
\<close>

section \<open>Queries by name\<close>

definition queries_sql_lines :: "string list" where
  "queries_sql_lines =
    [''-- Named queries. Placeholders are '' @ [CHR 0x22, CHR ''?'', CHR 0x22] @ '' and rewritten to $N for Postgres.'',
     ''-- SQLite and Postgres both accept EXCLUDED in ON CONFLICT updates.'',
     [],
     ''-- name: UpsertPeer'',
     ''INSERT INTO peers (node_id, address, region, zone, rack, host, last_heartbeat, status)'',
     ''VALUES (?, ?, ?, ?, ?, ?, ?, ?)'',
     ''ON CONFLICT(node_id) DO UPDATE SET'',
     ''  address=EXCLUDED.address, region=EXCLUDED.region, zone=EXCLUDED.zone,'',
     ''  rack=EXCLUDED.rack, host=EXCLUDED.host, last_heartbeat=EXCLUDED.last_heartbeat, status=EXCLUDED.status'',
     [],
     ''-- name: Heartbeat'',
     ''UPDATE peers SET last_heartbeat=? WHERE node_id=?'',
     [],
     ''-- name: GetPeer'',
     ''SELECT node_id, address, region, zone, rack, host, last_heartbeat, status FROM peers WHERE node_id=?'',
     [],
     ''-- name: ListPeers'',
     ''SELECT node_id, address, region, zone, rack, host, last_heartbeat, status FROM peers WHERE last_heartbeat>=?'',
     [],
     ''-- name: DeleteSeedsForNode'',
     ''DELETE FROM artifact_seeds WHERE node_id=?'',
     [],
     ''-- name: DeleteChunksForNode'',
     ''DELETE FROM chunk_locations WHERE node_id=?'',
     [],
     ''-- name: DeletePeer'',
     ''DELETE FROM peers WHERE node_id=?'',
     [],
     ''-- name: DeleteSeedsExpired'',
     ''DELETE FROM artifact_seeds WHERE node_id IN (SELECT node_id FROM peers WHERE last_heartbeat<?)'',
     [],
     ''-- name: DeleteChunksExpired'',
     ''DELETE FROM chunk_locations WHERE node_id IN (SELECT node_id FROM peers WHERE last_heartbeat<?)'',
     [],
     ''-- name: DeletePeersExpired'',
     ''DELETE FROM peers WHERE last_heartbeat<?'',
     [],
     ''-- name: PutArtifact'',
     ''INSERT INTO artifacts (artifact_id, name, version, manifest_json) VALUES (?, ?, ?, ?)'',
     ''ON CONFLICT(artifact_id) DO UPDATE SET name=EXCLUDED.name, version=EXCLUDED.version, manifest_json=EXCLUDED.manifest_json'',
     [],
     ''-- name: GetArtifact'',
     ''SELECT artifact_id, name, version, manifest_json FROM artifacts WHERE artifact_id=?'',
     [],
     ''-- name: ReportSeed'',
     ''INSERT INTO artifact_seeds (artifact_id, node_id, updated_at) VALUES (?, ?, ?)'',
     ''ON CONFLICT(artifact_id, node_id) DO UPDATE SET updated_at=EXCLUDED.updated_at'',
     [],
     ''-- name: ListSeeds'',
     ''SELECT node_id FROM artifact_seeds WHERE artifact_id=?'',
     [],
     ''-- name: TouchPeer'',
     ''UPDATE peers SET last_heartbeat=? WHERE node_id=?'',
     [],
     ''-- name: UpsertChunk'',
     ''INSERT INTO chunk_locations (chunk_hash, node_id, updated_at) VALUES (?, ?, ?)'',
     ''ON CONFLICT(chunk_hash, node_id) DO UPDATE SET updated_at=EXCLUDED.updated_at'',
     [],
     ''-- name: LocateChunkNodes'',
     ''SELECT node_id FROM chunk_locations WHERE chunk_hash=?'',
     []]"

fun split_char :: "char \<Rightarrow> string \<Rightarrow> string list" where
  "split_char d [] = [[]]"
| "split_char d (c # cs) =
     (if c = d then [] # split_char d cs
      else case split_char d cs of [] \<Rightarrow> [[c]] | w # ws \<Rightarrow> (c # w) # ws)"

definition newline :: string where
  "newline = [CHR 0x0A]"

definition loadSQL_queries :: string where
  "loadSQL_queries = intercalate newline queries_sql_lines"

definition flush_query :: "string \<times> string \<times> (string \<times> string) list \<Rightarrow> string \<times> string \<times> (string \<times> string) list" where
  "flush_query st =
     (case st of (name, body, out) \<Rightarrow>
        let n = trim_space name; q = trim_space body
        in ([], [], if n \<noteq> [] \<and> q \<noteq> [] then AList.update n q out else out))"

fun parse_lines ::
    "string list \<Rightarrow> string \<times> string \<times> (string \<times> string) list \<Rightarrow> string \<times> string \<times> (string \<times> string) list" where
  "parse_lines [] st = st"
| "parse_lines (line # ls) st =
     (let trim = trim_space line
      in if has_prefix trim ''-- name:''
         then (case flush_query st of (name, body, out) \<Rightarrow>
                 parse_lines ls (name @ trim_space (trim_prefix trim ''-- name:''), body, out))
         else if has_prefix trim ''--'' then parse_lines ls st
         else case st of (name, body, out) \<Rightarrow> parse_lines ls (name, body @ line @ newline, out))"

definition parseNamedQueries :: "string \<Rightarrow> (string \<times> string) list" where
  "parseNamedQueries src = snd (snd (flush_query (parse_lines (split_char (CHR 0x0A) src) ([], [], []))))"

fun number_placeholders :: "nat \<Rightarrow> string \<Rightarrow> string" where
  "number_placeholders n [] = []"
| "number_placeholders n (c # cs) =
     (if c = CHR ''?'' then ''$'' @ show_nat (n + 1) @ number_placeholders (n + 1) cs
      else c # number_placeholders n cs)"

definition placeholdersPostgres :: "string \<Rightarrow> string" where
  "placeholdersPostgres query = number_placeholders 0 query"

section \<open>Placeholders\<close>

lemma number_append:
  "CHR ''?'' \<notin> set a \<Longrightarrow> number_placeholders n (a @ b) = a @ number_placeholders n b"
  by (induction a) auto

lemma intercalate_Cons: "xs \<noteq> [] \<Longrightarrow> intercalate d (x # xs) = x @ d @ intercalate d xs"
  by (cases xs) auto

lemma number_list:
  "number_placeholders n (intercalate '','' (map (\<lambda>_. ''?'') ids) @ b) =
     intercalate '','' (map (\<lambda>k. ''$'' @ show_nat k) [n + 1..<n + 1 + length ids]) @ number_placeholders (n + length ids) b"
proof (induction ids arbitrary: n)
  case (Cons i ids)
  have "[n + 1..<n + 1 + length (i # ids)] = (n + 1) # [n + 1 + 1..<n + 1 + 1 + length ids]"
    using upt_conv_Cons [of "n + 1" "n + 1 + length (i # ids)"] by simp
  with Cons [of "n + 1"] show ?case by (cases ids) (simp_all add: intercalate_Cons del: upt_Suc upt.simps)
qed simp

section \<open>The embedded queries\<close>

text \<open>Visible ASCII characters are never trimmed.\<close>

definition visible :: "char \<Rightarrow> bool" where
  "visible c = (33 \<le> (of_char c :: nat) \<and> (of_char c :: nat) < 127)"

lemma strip_visible:
  assumes "visible c"
  shows "strip_seqs n space_seqs (c # cs) = c # cs" "strip_seqs n (map rev space_seqs) (c # cs) = c # cs"
proof -
  have none: "find (has_prefix (c # cs)) ws = None" if "list_all (\<lambda>w. w \<noteq> [] \<and> \<not> visible (hd w)) ws" for ws
    using that
  proof (induction ws)
    case (Cons w ws)
    then show ?case using assms by (cases w) auto
  qed simp
  have "list_all (\<lambda>w. w \<noteq> [] \<and> \<not> visible (hd w)) space_seqs"
    "list_all (\<lambda>w. w \<noteq> [] \<and> \<not> visible (hd w)) (map rev space_seqs)"
    by code_simp+
  from none [OF this(1)] none [OF this(2)] show "strip_seqs n space_seqs (c # cs) = c # cs" "strip_seqs n (map rev space_seqs) (c # cs) = c # cs"
    by (cases n; simp)+
qed

lemma trim_visible:
  assumes "s \<noteq> []" and "visible (hd s)" and "visible (last s)"
  shows "trim_space s = s"
proof -
  obtain c cs where c: "s = c # cs" using assms(1) by (cases s) auto
  obtain d ds where d: "rev s = d # ds" using assms(1) by (cases "rev s") auto
  have "d = last s" using d by (metis last_rev list.sel(1) rev_rev_ident hd_rev)
  then have "strip_seqs n (map rev space_seqs) (rev s) = rev s" for n using assms(3) by (simp add: d strip_visible)
  moreover have "strip_seqs n space_seqs s = s" for n using assms(2) by (simp add: c strip_visible)
  ultimately show ?thesis by (simp add: trim_space_def)
qed

lemma trim_blank: "trim_space (CHR '' '' # s) = trim_space s"
  by (simp add: trim_space_def space_seqs_def)

lemma trim_Nil: "trim_space [] = []"
  by (simp add: trim_space_def)

lemma split_lines_join:
  assumes "\<forall>l \<in> set ls. d \<notin> set l" and "ls \<noteq> []"
  shows "split_char d (intercalate [d] ls) = ls"
proof -
  have word: "d \<notin> set l \<Longrightarrow> split_char d l = [l]" for l by (induction l) auto
  have step: "d \<notin> set l \<Longrightarrow> split_char d (l @ d # r) = l # split_char d r" for l r by (induction l) auto
  show ?thesis using assms
  proof (induction ls)
    case (Cons l ls)
    then show ?case by (cases ls) (simp_all add: word step)
  qed simp
qed

lemma split_queries: "split_char (CHR 0x0A) loadSQL_queries = queries_sql_lines"
  unfolding loadSQL_queries_def newline_def by (rule split_lines_join) (simp_all add: queries_sql_lines_def)

lemma strip_suffix: "\<exists>pre. s = pre @ strip_seqs n ws s"
proof (induction n arbitrary: s)
  case (Suc n)
  show ?case
  proof (cases "find (has_prefix s) ws")
    case (Some w)
    obtain pre where "drop (length w) s = pre @ strip_seqs n ws (drop (length w) s)" using Suc by blast
    then have "s = (take (length w) s @ pre) @ strip_seqs n ws (drop (length w) s)"
      by (metis append.assoc append_take_drop_id)
    moreover have "strip_seqs (Suc n) ws s = strip_seqs n ws (drop (length w) s)" using Some by simp
    ultimately show ?thesis by metis
  qed simp
qed simp

lemma strip_keeps_visible:
  assumes "\<forall>w \<in> set ws. \<forall>c \<in> set w. \<not> visible c" and "visible c" and "c \<in> set s"
  shows "c \<in> set (strip_seqs n ws s)"
  using assms(3)
proof (induction n arbitrary: s)
  case (Suc n)
  show ?case
  proof (cases "find (has_prefix s) ws")
    case (Some w)
    then have "w \<in> set ws" "has_prefix s w" by (auto simp: find_Some_iff)
    then obtain t where "s = w @ t" by (blast elim: has_prefixE)
    moreover have "c \<notin> set w" using assms(1,2) \<open>w \<in> set ws\<close> by blast
    ultimately show ?thesis using Suc Some by simp
  qed (use Suc in simp)
qed simp

lemma invisible_seqs: "\<forall>w \<in> set space_seqs. \<forall>c \<in> set w. \<not> visible c" "\<forall>w \<in> set (map rev space_seqs). \<forall>c \<in> set w. \<not> visible c"
proof -
  have "list_all (\<lambda>w. list_all (\<lambda>c. \<not> visible c) w) space_seqs" by code_simp
  then show "\<forall>w \<in> set space_seqs. \<forall>c \<in> set w. \<not> visible c" by (simp add: list_all_iff)
  then show "\<forall>w \<in> set (map rev space_seqs). \<forall>c \<in> set w. \<not> visible c" by simp
qed

lemma trim_nonempty: "visible c \<Longrightarrow> c \<in> set s \<Longrightarrow> trim_space s \<noteq> []"
proof -
  assume c: "visible c" "c \<in> set s"
  let ?l = "strip_seqs (length s) space_seqs s"
  have "c \<in> set (strip_seqs (length ?l) (map rev space_seqs) (rev ?l))"
    using strip_keeps_visible [OF invisible_seqs(1) c] by (intro strip_keeps_visible [OF invisible_seqs(2) c(1)]) simp
  then show ?thesis unfolding trim_space_def Let_def by fastforce
qed

text \<open>A line of a query's body: empty, or starting, after blanks, with a visible character that is no dash.\<close>

fun body_line :: "string \<Rightarrow> bool" where
  "body_line [] = True"
| "body_line (c # cs) = (if c = CHR '' '' then cs \<noteq> [] \<and> body_line cs else visible c \<and> c \<noteq> CHR ''-'')"

lemma body_line_trim: "body_line l \<Longrightarrow> \<not> has_prefix (trim_space l) ''--''"
proof (induction l rule: body_line.induct)
  case (2 c cs)
  show ?case
  proof (cases "c = CHR '' ''")
    case True
    with 2 show ?thesis by (simp add: trim_blank)
  next
    case False
    with 2 have c: "visible c" "c \<noteq> CHR ''-''" by auto
    obtain pre where "rev (c # cs) = pre @ strip_seqs (length (c # cs)) (map rev space_seqs) (rev (c # cs))"
      using strip_suffix by metis
    then have "c # cs = trim_space (c # cs) @ rev pre"
      unfolding trim_space_def Let_def strip_visible(1) [OF c(1)] by (metis rev_append rev_rev_ident)
    moreover have "\<not> has_prefix s ''--''" if "c # cs = s @ t" for s t
      using that c(2) by (cases s) auto
    ultimately show ?thesis by metis
  qed
qed (simp add: trim_Nil)

lemma parse_body:
  assumes "list_all body_line bs"
  shows "parse_lines bs (n, b, out) = (n, b @ concat (map (\<lambda>l. l @ newline) bs), out)"
  using assms
proof (induction bs arbitrary: b)
  case (Cons l bs)
  then have "\<not> has_prefix (trim_space l) ''--''" by (simp add: body_line_trim)
  moreover from this have "\<not> has_prefix (trim_space l) ''-- name:''"
    by (auto elim!: has_prefixE)
  ultimately show ?case using Cons by simp
qed simp

lemma parse_append: "parse_lines (ls @ ms) st = parse_lines ms (parse_lines ls st)"
  by (induction ls st rule: parse_lines.induct) (auto simp: Let_def split: prod.splits)

type_synonym query_section = "string \<times> string list"

abbreviation section_lines :: "query_section \<Rightarrow> string list" where
  "section_lines sc \<equiv> (''-- name: '' @ fst sc) # snd sc"

definition section_ok :: "query_section \<Rightarrow> bool" where
  "section_ok sc = (fst sc \<noteq> [] \<and> visible (hd (fst sc)) \<and> visible (last (fst sc)) \<and> list_all body_line (snd sc) \<and>
     list_ex (list_ex visible) (snd sc))"

lemma parse_section:
  assumes "section_ok sc"
  shows "parse_lines (section_lines sc) st = (fst sc, concat (map (\<lambda>l. l @ newline) (snd sc)), snd (snd (flush_query st)))"
    and "snd (snd (flush_query (fst sc, concat (map (\<lambda>l. l @ newline) (snd sc)), out))) =
      AList.update (fst sc) (trim_space (concat (map (\<lambda>l. l @ newline) (snd sc)))) out"
proof -
  have n: "trim_space (fst sc) = fst sc" using assms by (intro trim_visible) (auto simp: section_ok_def)
  have head: "trim_space (''-- name: '' @ fst sc) = ''-- name: '' @ fst sc"
    using assms by (intro trim_visible) (auto simp: section_ok_def visible_def)
  obtain acc where "flush_query st = ([], [], acc)"
    by (cases st) (auto simp: flush_query_def Let_def)
  then have "parse_lines (section_lines sc) st = parse_lines (snd sc) (fst sc, [], snd (snd (flush_query st)))"
    using head n by (simp add: Let_def trim_prefix_def trim_blank split: prod.splits)
  then show "parse_lines (section_lines sc) st = (fst sc, concat (map (\<lambda>l. l @ newline) (snd sc)), snd (snd (flush_query st)))"
    using parse_body assms by (simp add: section_ok_def)
  obtain l c where "l \<in> set (snd sc)" "c \<in> set l" "visible c"
    using assms by (auto simp: section_ok_def list_ex_iff)
  then have "trim_space (concat (map (\<lambda>l. l @ newline) (snd sc))) \<noteq> []" by (intro trim_nonempty [of c]) auto
  then show "snd (snd (flush_query (fst sc, concat (map (\<lambda>l. l @ newline) (snd sc)), out))) =
      AList.update (fst sc) (trim_space (concat (map (\<lambda>l. l @ newline) (snd sc)))) out"
    using n assms by (simp add: flush_query_def section_ok_def)
qed

lemma parse_sections:
  assumes "list_all section_ok scs"
  shows "fst ` set (snd (snd (flush_query (parse_lines (concat (map section_lines scs)) st)))) =
    fst ` set (snd (snd (flush_query st))) \<union> fst ` set scs"
  using assms
proof (induction scs arbitrary: st)
  case (Cons sc scs)
  then have ok: "section_ok sc" by simp
  have "parse_lines (concat (map section_lines (sc # scs))) st =
      parse_lines (concat (map section_lines scs)) (parse_lines (section_lines sc) st)"
    using parse_append [of "section_lines sc" "concat (map section_lines scs)" st] by simp
  with Cons parse_section [OF ok] show ?case by (simp add: dom_update)
qed simp


text \<open>The queries that the driver asks for.\<close>

definition used_queries :: "string list" where
  "used_queries =
     [''UpsertPeer'', ''Heartbeat'', ''GetPeer'', ''ListPeers'', ''DeleteSeedsForNode'', ''DeleteChunksForNode'',
      ''DeletePeer'', ''DeleteSeedsExpired'', ''DeleteChunksExpired'', ''DeletePeersExpired'', ''PutArtifact'', ''GetArtifact'',
      ''ReportSeed'', ''ListSeeds'', ''TouchPeer'', ''UpsertChunk'', ''LocateChunkNodes'']"

text \<open>The sections of a file.\<close>

abbreviation name_line :: "string \<Rightarrow> bool" where
  "name_line l \<equiv> has_prefix l ''-- name: ''"

function sections_of :: "string list \<Rightarrow> query_section list" where
  "sections_of ls =
     (case dropWhile (\<lambda>l. \<not> name_line l) ls of
        [] \<Rightarrow> []
      | l # ms \<Rightarrow> (drop 9 l, takeWhile (\<lambda>l. \<not> name_line l) ms) # sections_of ms)"
  by pat_completeness auto
termination
proof (relation "measure length")
  fix ls x ms
  assume "dropWhile (\<lambda>l. \<not> name_line l) ls = x # ms"
  then show "(ms, ls) \<in> measure length"
    using length_dropWhile_le [of "\<lambda>l. \<not> name_line l" ls] by simp
qed simp

declare sections_of.simps [simp del]

lemma sections_of_lines: "ls = takeWhile (\<lambda>l. \<not> name_line l) ls @ concat (map section_lines (sections_of ls))"
proof (induction ls rule: sections_of.induct)
  case (1 ls)
  show ?case
  proof (cases "dropWhile (\<lambda>l. \<not> name_line l) ls")
    case Nil
    have "sections_of ls = []" by (subst sections_of.simps) (simp only: Nil list.case)
    moreover have "takeWhile (\<lambda>l. \<not> name_line l) ls = ls"
      using takeWhile_dropWhile_id [of "\<lambda>l. \<not> name_line l" ls] unfolding Nil by simp
    ultimately show ?thesis by (simp only: list.map concat.simps append_Nil2)
  next
    case (Cons l ms)
    have "name_line l" using hd_dropWhile [of "\<lambda>l. \<not> name_line l" ls] Cons by simp
    then have "l = ''-- name: '' @ drop 9 l" by (auto elim!: has_prefixE)
    with 1 [OF Cons] have "l # ms = concat (map section_lines (sections_of ls))"
      by (simp add: sections_of.simps [of ls] Cons)
    then show ?thesis using takeWhile_dropWhile_id [of "\<lambda>l. \<not> name_line l" ls] Cons by simp
  qed
qed

lemma queries_defined:
  assumes "name \<in> set used_queries"
  shows "map_of (parseNamedQueries loadSQL_queries) name \<noteq> None"
proof -
  let ?head = "takeWhile (\<lambda>l. \<not> name_line l) queries_sql_lines"
  have ok: "list_all section_ok (sections_of queries_sql_lines)" by code_simp
  have names: "map fst (sections_of queries_sql_lines) = used_queries" by code_simp
  have "parse_lines queries_sql_lines ([], [], []) =
      parse_lines (concat (map section_lines (sections_of queries_sql_lines))) (parse_lines ?head ([], [], []))"
    using parse_append [of ?head "concat (map section_lines (sections_of queries_sql_lines))" "([], [], [])"]
    unfolding sections_of_lines [of queries_sql_lines, symmetric] .
  then have "fst ` set (sections_of queries_sql_lines) \<subseteq> fst ` set (parseNamedQueries loadSQL_queries)"
    using parse_sections [OF ok] by (simp add: parseNamedQueries_def split_queries)
  moreover have "fst ` set (sections_of queries_sql_lines) = set used_queries"
    using arg_cong [OF names, of set] by simp
  ultimately have "name \<in> fst ` set (parseNamedQueries loadSQL_queries)" using assms by blast
  then show ?thesis by (simp add: map_of_eq_None_iff)
qed

end
