(* ===== verification/SqlStore.thy ===== *)
theory SqlStore
  imports MetaStore SqlQueries
begin

text \<open>
  \<open>pkg/store/sql.go\<close> and the SQL files it runs: the SQLite and Postgres driver of the tracker. The tables of the schema are association lists keyed by their primary keys; every
  query of \<open>queries.sql\<close> is a function on them, under the query's name. A statement can fail, at the pleasure of
  a list of faults that the state carries: one answer per round trip to the database, \<open>None\<close> once the list is
  used up. A statement that reports an error has had no effect, and a transaction whose commit reports one is
  rolled back; both drivers know the number of rows of an update. Operations of the store are atomic, as
  transactions and single statements are.
\<close>

section \<open>Tables and queries\<close>

record peer_row =
  rw_address :: string
  rw_region :: string
  rw_zone :: string
  rw_rack :: string
  rw_host :: string
  rw_last_heartbeat :: int
  rw_status :: string

record sql_tables =
  tb_peers :: "(string \<times> peer_row) list"
  tb_artifacts :: "(string \<times> string \<times> string \<times> bytes) list"
  tb_artifact_seeds :: "((string \<times> string) \<times> int) list"
  tb_chunk_locations :: "((string \<times> string) \<times> int) list"

definition q_UpsertPeer :: "string \<Rightarrow> peer_row \<Rightarrow> sql_tables \<Rightarrow> sql_tables" where
  "q_UpsertPeer node_id row t = t\<lparr>tb_peers := AList.update node_id row (tb_peers t)\<rparr>"

text \<open>An update also answers how many rows it changed.\<close>

definition q_Heartbeat :: "int \<Rightarrow> string \<Rightarrow> sql_tables \<Rightarrow> sql_tables \<times> nat" where
  "q_Heartbeat ts node_id t =
     (t\<lparr>tb_peers := map (\<lambda>(i, row). (i, if i = node_id then row\<lparr>rw_last_heartbeat := ts\<rparr> else row)) (tb_peers t)\<rparr>,
      length (filter (\<lambda>(i, row). i = node_id) (tb_peers t)))"

definition q_GetPeer :: "string \<Rightarrow> sql_tables \<Rightarrow> (string \<times> peer_row) list" where
  "q_GetPeer node_id t = filter (\<lambda>(i, row). i = node_id) (tb_peers t)"

definition q_ListPeers :: "int \<Rightarrow> sql_tables \<Rightarrow> (string \<times> peer_row) list" where
  "q_ListPeers cutoff t = filter (\<lambda>(i, row). rw_last_heartbeat row \<ge> cutoff) (tb_peers t)"

definition q_DeleteSeedsForNode :: "string \<Rightarrow> sql_tables \<Rightarrow> sql_tables" where
  "q_DeleteSeedsForNode node_id t =
     t\<lparr>tb_artifact_seeds := filter (\<lambda>((a, i), ts). i \<noteq> node_id) (tb_artifact_seeds t)\<rparr>"

definition q_DeleteChunksForNode :: "string \<Rightarrow> sql_tables \<Rightarrow> sql_tables" where
  "q_DeleteChunksForNode node_id t =
     t\<lparr>tb_chunk_locations := filter (\<lambda>((h, i), ts). i \<noteq> node_id) (tb_chunk_locations t)\<rparr>"

definition q_DeletePeer :: "string \<Rightarrow> sql_tables \<Rightarrow> sql_tables" where
  "q_DeletePeer node_id t = t\<lparr>tb_peers := filter (\<lambda>(i, row). i \<noteq> node_id) (tb_peers t)\<rparr>"

definition expired_nodes :: "int \<Rightarrow> sql_tables \<Rightarrow> string list" where
  "expired_nodes cutoff t = map fst (filter (\<lambda>(i, row). rw_last_heartbeat row < cutoff) (tb_peers t))"

definition q_DeleteSeedsExpired :: "int \<Rightarrow> sql_tables \<Rightarrow> sql_tables" where
  "q_DeleteSeedsExpired cutoff t =
     t\<lparr>tb_artifact_seeds := filter (\<lambda>((a, i), ts). i \<notin> set (expired_nodes cutoff t)) (tb_artifact_seeds t)\<rparr>"

definition q_DeleteChunksExpired :: "int \<Rightarrow> sql_tables \<Rightarrow> sql_tables" where
  "q_DeleteChunksExpired cutoff t =
     t\<lparr>tb_chunk_locations := filter (\<lambda>((h, i), ts). i \<notin> set (expired_nodes cutoff t)) (tb_chunk_locations t)\<rparr>"

definition q_DeletePeersExpired :: "int \<Rightarrow> sql_tables \<Rightarrow> sql_tables \<times> nat" where
  "q_DeletePeersExpired cutoff t =
     (t\<lparr>tb_peers := filter (\<lambda>(i, row). \<not> rw_last_heartbeat row < cutoff) (tb_peers t)\<rparr>,
      length (filter (\<lambda>(i, row). rw_last_heartbeat row < cutoff) (tb_peers t)))"

definition q_PutArtifact :: "string \<Rightarrow> string \<Rightarrow> string \<Rightarrow> bytes \<Rightarrow> sql_tables \<Rightarrow> sql_tables" where
  "q_PutArtifact artifact_id name version manifest_json t =
     t\<lparr>tb_artifacts := AList.update artifact_id (name, version, manifest_json) (tb_artifacts t)\<rparr>"

definition q_GetArtifact :: "string \<Rightarrow> sql_tables \<Rightarrow> (string \<times> string \<times> string \<times> bytes) list" where
  "q_GetArtifact artifact_id t = filter (\<lambda>(a, row). a = artifact_id) (tb_artifacts t)"

definition q_ReportSeed :: "string \<Rightarrow> string \<Rightarrow> int \<Rightarrow> sql_tables \<Rightarrow> sql_tables" where
  "q_ReportSeed artifact_id node_id ts t =
     t\<lparr>tb_artifact_seeds := AList.update (artifact_id, node_id) ts (tb_artifact_seeds t)\<rparr>"

definition q_ListSeeds :: "string \<Rightarrow> sql_tables \<Rightarrow> string list" where
  "q_ListSeeds artifact_id t =
     map (\<lambda>((a, i), ts). i) (filter (\<lambda>((a, i), ts). a = artifact_id) (tb_artifact_seeds t))"

definition q_TouchPeer :: "int \<Rightarrow> string \<Rightarrow> sql_tables \<Rightarrow> sql_tables" where
  "q_TouchPeer ts node_id t =
     t\<lparr>tb_peers := map (\<lambda>(i, row). (i, if i = node_id then row\<lparr>rw_last_heartbeat := ts\<rparr> else row)) (tb_peers t)\<rparr>"

definition q_UpsertChunk :: "string \<Rightarrow> string \<Rightarrow> int \<Rightarrow> sql_tables \<Rightarrow> sql_tables" where
  "q_UpsertChunk chunk_hash node_id ts t =
     t\<lparr>tb_chunk_locations := AList.update (chunk_hash, node_id) ts (tb_chunk_locations t)\<rparr>"

definition q_LocateChunkNodes :: "string \<Rightarrow> sql_tables \<Rightarrow> string list" where
  "q_LocateChunkNodes chunk_hash t =
     map (\<lambda>((h, i), ts). i) (filter (\<lambda>((h, i), ts). h = chunk_hash) (tb_chunk_locations t))"

definition q_LocateIN :: "string list \<Rightarrow> sql_tables \<Rightarrow> (string \<times> string) list" where
  "q_LocateIN hashes t = map fst (filter (\<lambda>((h, i), ts). h \<in> set hashes) (tb_chunk_locations t))"

definition q_PeersIN :: "string list \<Rightarrow> sql_tables \<Rightarrow> (string \<times> peer_row) list" where
  "q_PeersIN ids t = filter (\<lambda>(i, row). i \<in> set ids) (tb_peers t)"

section \<open>Statements and transactions\<close>

record sql_store =
  ss_driver :: string
  ss_queries :: "(string \<times> string) list"
  ss_tables :: sql_tables
  ss_faults :: "go_error option list"

definition round_trip :: "sql_store \<Rightarrow> sql_store \<times> unit result" where
  "round_trip s =
     (case ss_faults s of
        [] \<Rightarrow> (s, Inr ())
      | f # fs \<Rightarrow> (s\<lparr>ss_faults := fs\<rparr>, case f of None \<Rightarrow> Inr () | Some e \<Rightarrow> Inl e))"

text \<open>
  An \<open>INTEGER\<close> column takes every \<open>int64\<close> in SQLite, and four bytes in Postgres, whose driver refuses an argument
  that does not fit.
\<close>

definition int_column :: "string \<Rightarrow> int \<Rightarrow> bool" where
  "int_column driver v = (driver = ''postgres'' \<longrightarrow> - (2 ^ 31) \<le> v \<and> v < 2 ^ 31)"

definition statement :: "int list \<Rightarrow> (sql_tables \<Rightarrow> sql_tables \<times> 'a) \<Rightarrow> sql_store \<Rightarrow> sql_store \<times> 'a result" where
  "statement ints f s =
     (case round_trip s of
        (s', Inl e) \<Rightarrow> (s', Inl e)
      | (s', Inr _) \<Rightarrow>
          if list_all (int_column (ss_driver s)) ints
          then case f (ss_tables s') of (t, x) \<Rightarrow> (s'\<lparr>ss_tables := t\<rparr>, Inr x)
          else (s', Inl (Err ''integer out of range'')))"

definition and_then :: "('s \<Rightarrow> 's \<times> 'a result) \<Rightarrow> ('a \<Rightarrow> 's \<Rightarrow> 's \<times> 'b result) \<Rightarrow> 's \<Rightarrow> 's \<times> 'b result" where
  "and_then m f s = (case m s of (s', Inl e) \<Rightarrow> (s', Inl e) | (s', Inr x) \<Rightarrow> f x s')"

definition errorf :: "string \<Rightarrow> ('s \<Rightarrow> 's \<times> 'a result) \<Rightarrow> 's \<Rightarrow> 's \<times> 'a result" where
  "errorf msg m s = (case m s of (s', Inl e) \<Rightarrow> (s', Inl (Wrapf msg e)) | (s', Inr x) \<Rightarrow> (s', Inr x))"

text \<open>Walking the rows of an answer can fail as well.\<close>

definition scan_rows :: "'a \<Rightarrow> sql_store \<Rightarrow> sql_store \<times> 'a result" where
  "scan_rows rows s = (case round_trip s of (s', Inl e) \<Rightarrow> (s', Inl e) | (s', Inr _) \<Rightarrow> (s', Inr rows))"

definition in_tx :: "string \<Rightarrow> (sql_store \<Rightarrow> sql_store \<times> 'a result) \<Rightarrow> sql_store \<Rightarrow> sql_store \<times> 'a result" where
  "in_tx what body s =
     (case errorf (what @ '' begin'') round_trip s of
        (s1, Inl e) \<Rightarrow> (s1, Inl e)
      | (s1, Inr _) \<Rightarrow>
          (case and_then body (\<lambda>x. and_then (errorf (what @ '' commit'') round_trip) (\<lambda>_. \<lambda>s. (s, Inr x))) s1 of
             (s2, Inl e) \<Rightarrow> (s2\<lparr>ss_tables := ss_tables s1\<rparr>, Inl e)
           | (s2, Inr x) \<Rightarrow> (s2, Inr x)))"

section \<open>The operations\<close>

text \<open>Negation of an \<open>int64\<close>, whose least value is its own negative.\<close>

definition neg64 :: "int \<Rightarrow> int" where
  "neg64 d = (if d = - (2 ^ 63) then d else - d)"

definition secs :: "int \<Rightarrow> int" where
  "secs t = t div 1000000000"

definition row_of :: "peer \<Rightarrow> peer_row" where
  "row_of p =
     \<lparr>rw_address = pr_Address p, rw_region = pr_Region p, rw_zone = pr_Zone p, rw_rack = pr_Rack p,
      rw_host = pr_Host p, rw_last_heartbeat = unix (pr_LastHeartbeat p), rw_status = pr_Status p\<rparr>"

definition scanPeer :: "string \<times> peer_row \<Rightarrow> peer" where
  "scanPeer x =
     (case x of (i, row) \<Rightarrow>
        \<lparr>pr_NodeID = i, pr_Address = rw_address row, pr_Region = rw_region row, pr_Zone = rw_zone row,
         pr_Rack = rw_rack row, pr_Host = rw_host row, pr_Status = rw_status row,
         pr_LastHeartbeat = Some (rw_last_heartbeat row * 1000000000)\<rparr>)"

definition sql_UpsertPeer :: "int \<Rightarrow> peer \<Rightarrow> sql_store \<Rightarrow> sql_store \<times> unit result" where
  "sql_UpsertPeer now peer s =
     (if pr_NodeID peer = [] then (s, Inr ())
      else let peer = fill_peer now peer
        in errorf ''upsert peer''
             (statement [unix (pr_LastHeartbeat peer)] (\<lambda>t. (q_UpsertPeer (pr_NodeID peer) (row_of peer) t, ()))) s)"

definition sql_Heartbeat :: "int \<Rightarrow> string \<Rightarrow> sql_store \<Rightarrow> sql_store \<times> bool result" where
  "sql_Heartbeat now nodeID s =
     and_then (errorf ''heartbeat'' (statement [secs now] (q_Heartbeat (secs now) nodeID)))
       (\<lambda>n s. (s, Inr (n > 0))) s"

definition sql_GetPeer :: "int \<Rightarrow> string \<Rightarrow> sql_store \<Rightarrow> sql_store \<times> peer option result" where
  "sql_GetPeer now nodeID s =
     and_then (errorf ''get peer'' (statement [] (\<lambda>t. (t, q_GetPeer nodeID t))))
       (\<lambda>rows s. (s, Inr (case rows of [] \<Rightarrow> None | row # _ \<Rightarrow> Some (scanPeer row)))) s"

definition sql_ListPeers :: "int \<Rightarrow> int \<Rightarrow> sql_store \<Rightarrow> sql_store \<times> peer list result" where
  "sql_ListPeers now expiry s =
     (let cutoff = (if expiry > 0 then secs (now + neg64 expiry) else 0)
      in and_then (errorf ''list peers'' (statement [cutoff] (\<lambda>t. (t, q_ListPeers cutoff t))))
           (\<lambda>rows. scan_rows (map scanPeer rows)) s)"

definition sql_DeregisterPeer :: "int \<Rightarrow> string \<Rightarrow> sql_store \<Rightarrow> sql_store \<times> unit result" where
  "sql_DeregisterPeer now nodeID =
     in_tx ''deregister''
       (and_then (errorf ''delete seeds'' (statement [] (\<lambda>t. (q_DeleteSeedsForNode nodeID t, ()))))
         (\<lambda>_. and_then (errorf ''delete chunks'' (statement [] (\<lambda>t. (q_DeleteChunksForNode nodeID t, ()))))
           (\<lambda>_. errorf ''delete peer'' (statement [] (\<lambda>t. (q_DeletePeer nodeID t, ()))))))"

definition sql_PruneExpiredPeers :: "int \<Rightarrow> int \<Rightarrow> sql_store \<Rightarrow> sql_store \<times> nat result" where
  "sql_PruneExpiredPeers now expiry =
     (let cutoff = secs (now + neg64 expiry)
      in in_tx ''prune''
           (and_then (errorf ''prune seeds'' (statement [cutoff] (\<lambda>t. (q_DeleteSeedsExpired cutoff t, ()))))
             (\<lambda>_. and_then (errorf ''prune chunks'' (statement [cutoff] (\<lambda>t. (q_DeleteChunksExpired cutoff t, ()))))
               (\<lambda>_. errorf ''prune peers'' (statement [cutoff] (q_DeletePeersExpired cutoff))))))"

definition sql_PutArtifact :: "int \<Rightarrow> artifact_record \<Rightarrow> sql_store \<Rightarrow> sql_store \<times> unit result" where
  "sql_PutArtifact now rec =
     errorf ''put artifact''
       (statement [] (\<lambda>t. (q_PutArtifact (ar_ArtifactID rec) (ar_Name rec) (ar_Version rec) (ar_ManifestJSON rec) t, ())))"

definition sql_GetArtifact :: "int \<Rightarrow> string \<Rightarrow> sql_store \<Rightarrow> sql_store \<times> artifact_record option result" where
  "sql_GetArtifact now artifactID =
     and_then (errorf ''get artifact'' (statement [] (\<lambda>t. (t, q_GetArtifact artifactID t))))
       (\<lambda>rows s. (s, Inr (case rows of
            [] \<Rightarrow> None
          | (a, name, version, json) # _ \<Rightarrow>
              Some \<lparr>ar_ArtifactID = a, ar_Name = name, ar_Version = version, ar_ManifestJSON = json\<rparr>)))"

definition sql_ReportSeed :: "int \<Rightarrow> string \<Rightarrow> string \<Rightarrow> sql_store \<Rightarrow> sql_store \<times> unit result" where
  "sql_ReportSeed now artifactID nodeID =
     errorf ''report seed'' (statement [secs now] (\<lambda>t. (q_ReportSeed artifactID nodeID (secs now) t, ())))"

definition sql_ListSeeds :: "int \<Rightarrow> string \<Rightarrow> sql_store \<Rightarrow> sql_store \<times> string list result" where
  "sql_ListSeeds now artifactID =
     and_then (errorf ''list seeds'' (statement [] (\<lambda>t. (t, q_ListSeeds artifactID t)))) scan_rows"

fun upsert_chunks :: "int \<Rightarrow> string \<Rightarrow> string list \<Rightarrow> int \<Rightarrow> sql_store \<Rightarrow> sql_store \<times> int result" where
  "upsert_chunks ts nodeID [] n s = (s, Inr n)"
| "upsert_chunks ts nodeID (h # hs) n s =
     (if h = [] then upsert_chunks ts nodeID hs n s
      else case errorf ''upsert chunk'' (statement [ts] (\<lambda>t. (q_UpsertChunk h nodeID ts t, ()))) s of
          (s', Inl e) \<Rightarrow> (s', Inl e)
        | (s', Inr _) \<Rightarrow> upsert_chunks ts nodeID hs (n + 1) s')"

definition sql_ReportChunks :: "int \<Rightarrow> string \<Rightarrow> string list \<Rightarrow> sql_store \<Rightarrow> sql_store \<times> int result" where
  "sql_ReportChunks now nodeID hashes =
     in_tx ''report chunks''
       (and_then (errorf ''touch peer'' (statement [secs now] (\<lambda>t. (q_TouchPeer (secs now) nodeID t, ()))))
         (\<lambda>_. and_then (errorf ''prepare upsert chunk'' (statement [] (\<lambda>t. (t, ()))))
           (\<lambda>_. upsert_chunks (secs now) nodeID hashes 0)))"

definition sql_LocateChunkNodes :: "int \<Rightarrow> string \<Rightarrow> sql_store \<Rightarrow> sql_store \<times> string list result" where
  "sql_LocateChunkNodes now hash =
     and_then (errorf ''locate chunk'' (statement [] (\<lambda>t. (t, q_LocateChunkNodes hash t)))) scan_rows"

definition sqlINBatch :: nat where
  "sqlINBatch = 500"

text \<open>The text of a query over a batch, with a place for each element.\<close>

definition queryIN_text :: "string \<Rightarrow> string \<Rightarrow> string list \<Rightarrow> string" where
  "queryIN_text driver prefix ids =
     (let q = prefix @ intercalate '','' (map (\<lambda>_. ''?'') ids) @ '')''
      in if driver = ''postgres'' then placeholdersPostgres q else q)"

text \<open>The loop over batches of at most \<open>sqlINBatch\<close> elements.\<close>

function in_batches ::
    "(string list \<Rightarrow> 'a \<Rightarrow> sql_store \<Rightarrow> sql_store \<times> 'a result) \<Rightarrow> string list \<Rightarrow> 'a \<Rightarrow> sql_store \<Rightarrow> sql_store \<times> 'a result"
  where
  "in_batches f xs out s =
     (if xs = [] then (s, Inr out)
      else case f (take sqlINBatch xs) out s of
          (s', Inl e) \<Rightarrow> (s', Inl e)
        | (s', Inr out') \<Rightarrow> in_batches f (drop sqlINBatch xs) out' s')"
  by pat_completeness auto
termination
  by (relation "measure (\<lambda>(f, xs, out, s). length xs)") (auto simp: sqlINBatch_def)

definition locate_batch_step ::
    "string list \<Rightarrow> (string \<times> string list) list \<Rightarrow> sql_store \<Rightarrow> sql_store \<times> (string \<times> string list) list result" where
  "locate_batch_step batch out =
     and_then (errorf ''locate chunks batch'' (statement [] (\<lambda>t. (t, q_LocateIN batch t))))
       (\<lambda>rows. scan_rows
          (fold (\<lambda>(hash, i) out. AList.update hash ((case map_of out hash of None \<Rightarrow> [] | Some ids \<Rightarrow> ids) @ [i]) out) rows out))"

definition sql_LocateChunkNodesBatch ::
    "int \<Rightarrow> string list \<Rightarrow> sql_store \<Rightarrow> sql_store \<times> (string \<times> string list) list result" where
  "sql_LocateChunkNodesBatch now hashes =
     in_batches locate_batch_step hashes (fold (\<lambda>h. AList.update h []) hashes [])"

definition peers_batch_step ::
    "string list \<Rightarrow> (string \<times> peer) list \<Rightarrow> sql_store \<Rightarrow> sql_store \<times> (string \<times> peer) list result" where
  "peers_batch_step batch out =
     and_then (errorf ''get peers batch'' (statement [] (\<lambda>t. (t, q_PeersIN batch t))))
       (\<lambda>rows. scan_rows (fold (\<lambda>row. AList.update (pr_NodeID (scanPeer row)) (scanPeer row)) rows out))"

definition sql_GetPeersBatch :: "int \<Rightarrow> string list \<Rightarrow> sql_store \<Rightarrow> sql_store \<times> (string \<times> peer) list result" where
  "sql_GetPeersBatch now nodeIDs = in_batches peers_batch_step nodeIDs []"

definition sql_Ping :: "sql_store \<Rightarrow> unit result" where
  "sql_Ping s = snd (round_trip s)"

definition sql_methods :: "string \<Rightarrow> sql_store store" where
  "sql_methods driver =
     \<lparr>Name = driver, Ping = sql_Ping, UpsertPeer = sql_UpsertPeer, Heartbeat = sql_Heartbeat,
      GetPeer = sql_GetPeer, ListPeers = sql_ListPeers, DeregisterPeer = sql_DeregisterPeer,
      PruneExpiredPeers = sql_PruneExpiredPeers, PutArtifact = sql_PutArtifact, GetArtifact = sql_GetArtifact,
      ReportSeed = sql_ReportSeed, ListSeeds = sql_ListSeeds, ReportChunks = sql_ReportChunks,
      LocateChunkNodes = sql_LocateChunkNodes, LocateChunkNodesBatch = sql_LocateChunkNodesBatch,
      GetPeersBatch = sql_GetPeersBatch\<rparr>"

section \<open>Opening a database\<close>

definition sqliteDSN :: "string \<Rightarrow> string" where
  "sqliteDSN dsn =
     (let dsn = (if dsn = [] then ''file:spider.db?cache=shared'' else dsn);
          dsn = (if dsn \<noteq> '':memory:'' \<and> \<not> has_prefix dsn ''file:''
                 then ''file:'' @ map (\<lambda>c. if c = CHR 0x5C then CHR ''/'' else c) dsn else dsn)
      in if \<not> contains dsn ''?''
         then dsn @ ''?_pragma=busy_timeout(5000)&_pragma=journal_mode(WAL)&_pragma=foreign_keys(1)'' else dsn)"

datatype pool_call =
    SetMaxOpenConns int
  | SetMaxIdleConns int
  | SetConnMaxLifetime int
  | SetConnMaxIdleTime int

definition configurePool :: "string \<Rightarrow> pool \<Rightarrow> pool_call list" where
  "configurePool driver p =
     (if driver = ''sqlite''
      then let mo = (if po_MaxOpenConns p \<le> 0 then 8 else po_MaxOpenConns p);
               mi = (if po_MaxIdleConns p \<le> 0 then mo else po_MaxIdleConns p)
        in [SetMaxOpenConns mo, SetMaxIdleConns mi] @
           (if po_ConnMaxLifetime p > 0 then [SetConnMaxLifetime (po_ConnMaxLifetime p)] else []) @
           (if po_ConnMaxIdleTime p > 0 then [SetConnMaxIdleTime (po_ConnMaxIdleTime p)] else [])
      else [SetMaxOpenConns (if po_MaxOpenConns p \<le> 0 then 25 else po_MaxOpenConns p),
            SetMaxIdleConns (if po_MaxIdleConns p \<le> 0 then 5 else po_MaxIdleConns p),
            SetConnMaxLifetime (if po_ConnMaxLifetime p \<le> 0 then 5 * 60 * 1000000000 else po_ConnMaxLifetime p),
            SetConnMaxIdleTime (if po_ConnMaxIdleTime p \<le> 0 then 60 * 1000000000 else po_ConnMaxIdleTime p)])"

text \<open>
  \<open>db_at\<close> is the database behind a name for a driver: its tables, empty ones where the schema is new, and the
  faults to come. The settings of the pool do not change what statements do.
\<close>

definition openSQL ::
    "(string \<Rightarrow> string \<Rightarrow> sql_tables \<times> go_error option list) \<Rightarrow> string \<Rightarrow> store_options \<Rightarrow> sql_store result \<times> pool_call list" where
  "openSQL db_at driver opts =
     (let dsn = (if driver = ''sqlite'' then sqliteDSN (so_DSN opts) else so_DSN opts);
          name = (if driver = ''pgx'' then ''postgres'' else ''sqlite'');
          q = parseNamedQueries loadSQL_queries;
          q = (if name = ''postgres'' then map (\<lambda>(k, v). (k, placeholdersPostgres v)) q else q)
      in case db_at driver dsn of (tables, faults) \<Rightarrow>
           (case errorf ''sql open'' round_trip \<lparr>ss_driver = name, ss_queries = q, ss_tables = tables, ss_faults = faults\<rparr> of
              (s1, Inl e) \<Rightarrow> (Inl e, [])
            | (s1, Inr _) \<Rightarrow>
                (case errorf ''sql ping'' round_trip s1 of
                   (s2, Inl e) \<Rightarrow> (Inl e, configurePool driver (so_Pool opts))
                 | (s2, Inr _) \<Rightarrow>
                     (case errorf ''migrate'' round_trip s2 of
                        (s3, Inl e) \<Rightarrow> (Inl e, configurePool driver (so_Pool opts))
                      | (s3, Inr _) \<Rightarrow> (Inr s3, configurePool driver (so_Pool opts))))))"

text \<open>The text of a query, \<open>None\<close> where the code panics.\<close>

definition query_text :: "sql_store \<Rightarrow> string \<Rightarrow> string option" where
  "query_text s name = map_of (ss_queries s) name"

section \<open>What a statement does to the tables\<close>

text \<open>
  \<open>runs m f\<close>: an operation that succeeds has done \<open>f\<close> to the tables, and one that fails nothing; \<open>runs_ok\<close> says
  only the first, as it holds inside of a transaction.
\<close>

definition runs_ok :: "(sql_store \<Rightarrow> sql_store \<times> 'a result) \<Rightarrow> (sql_tables \<Rightarrow> sql_tables \<times> 'a) \<Rightarrow> bool" where
  "runs_ok m f = (\<forall>s s' x. m s = (s', Inr x) \<longrightarrow> f (ss_tables s) = (ss_tables s', x))"

definition runs :: "(sql_store \<Rightarrow> sql_store \<times> 'a result) \<Rightarrow> (sql_tables \<Rightarrow> sql_tables \<times> 'a) \<Rightarrow> bool" where
  "runs m f = (runs_ok m f \<and> (\<forall>s s' e. m s = (s', Inl e) \<longrightarrow> ss_tables s' = ss_tables s))"

named_theorems sql_runs \<open>what the statements of the SQL driver do to the tables\<close>

lemma round_trip_tables [simp]: "ss_tables (fst (round_trip s)) = ss_tables s"
  by (simp add: round_trip_def split: list.splits)

lemma round_trip_eq: "round_trip s = (s', x) \<Longrightarrow> ss_tables s' = ss_tables s"
  using round_trip_tables [of s] by simp

lemma runs_round_trip [sql_runs]: "runs round_trip (\<lambda>t. (t, ()))"
  by (auto simp: runs_def runs_ok_def dest: round_trip_eq)

lemma runs_statement [sql_runs]: "runs (statement ints f) f"
  by (auto simp: runs_def runs_ok_def statement_def dest!: round_trip_eq split: prod.splits sum.splits if_splits)

lemma runs_errorf [sql_runs]: "runs m f \<Longrightarrow> runs (errorf what m) f"
  by (fastforce simp: runs_def runs_ok_def errorf_def split: prod.splits sum.splits)

lemma runs_imp_ok [sql_runs]: "runs m f \<Longrightarrow> runs_ok m f"
  by (simp add: runs_def)

lemma runs_ok_then [sql_runs]:
  "runs_ok m f \<Longrightarrow> (\<And>x. runs_ok (g x) (h x)) \<Longrightarrow> runs_ok (and_then m g) (\<lambda>t. case f t of (t', x) \<Rightarrow> h x t')"
  by (fastforce simp: runs_ok_def and_then_def split: prod.splits sum.splits)

lemma runs_then_pure [sql_runs]:
  "runs m f \<Longrightarrow> runs (and_then m (\<lambda>x s. (s, Inr (g x)))) (\<lambda>t. case f t of (t', x) \<Rightarrow> (t', g x))"
  by (fastforce simp: runs_def runs_ok_def and_then_def split: prod.splits sum.splits)

lemma runs_then_scan [sql_runs]:
  "runs m (\<lambda>t. (t, f t)) \<Longrightarrow> runs (and_then m (\<lambda>x. scan_rows (g x))) (\<lambda>t. (t, g (f t)))"
  by (fastforce simp: runs_def runs_ok_def and_then_def scan_rows_def dest: round_trip_eq split: prod.splits sum.splits)

lemma runs_in_tx [sql_runs]:
  assumes "runs_ok body f"
  shows "runs (in_tx what body) f"
proof -
  have begun: "ss_tables s1 = ss_tables s" if "errorf w round_trip s = (s1, x)" for w s s1 x
    using that by (auto simp: errorf_def dest!: round_trip_eq split: prod.splits sum.splits)
  have "runs_ok (and_then body (\<lambda>x. and_then (errorf w round_trip) (\<lambda>_. \<lambda>s. (s, Inr x)))) f" for w
    using assms begun unfolding runs_ok_def and_then_def by (fastforce split: prod.splits sum.splits)
  with begun show ?thesis
    unfolding runs_def runs_ok_def in_tx_def by (fastforce split: prod.splits sum.splits)
qed

lemma runs_cong: "runs m f \<Longrightarrow> (\<And>t. f t = g t) \<Longrightarrow> runs m g"
  by (simp add: runs_def runs_ok_def)

lemma runsD:
  assumes "runs m f" and "m s = (s', r)"
  shows "ss_tables s' = (if isl r then ss_tables s else fst (f (ss_tables s)))"
    and "r = Inr x \<Longrightarrow> x = snd (f (ss_tables s))"
  using assms by (cases r; auto simp: runs_def runs_ok_def)+

text \<open>Batches.\<close>

function batches :: "'a list \<Rightarrow> 'a list list" where
  "batches xs = (if xs = [] then [] else take sqlINBatch xs # batches (drop sqlINBatch xs))"
  by pat_completeness auto
termination
  by (relation "measure length") (auto simp: sqlINBatch_def)

declare batches.simps [simp del] in_batches.simps [simp del]

lemma batches_Nil [simp]: "batches [] = []"
  by (simp add: batches.simps)

lemma concat_batches [simp]: "concat (batches xs) = xs"
proof (induction xs rule: batches.induct)
  case (1 xs)
  then show ?case by (cases "xs = []") (simp_all add: batches.simps [of xs])
qed

lemma batches_cover: "(\<Union>b \<in> set (batches xs). set b) = set xs"
  using arg_cong [OF concat_batches [of xs], of set] by (simp only: set_concat)

lemma batches_short: "length xs \<le> sqlINBatch \<Longrightarrow> batches xs = (if xs = [] then [] else [xs])"
  by (simp add: batches.simps [of xs] batches.simps [of "[]"])

lemma runs_in_batches [sql_runs]:
  assumes "\<And>b out. runs (f b out) (\<lambda>t. (t, F t b out))"
  shows "runs (in_batches f xs out) (\<lambda>t. (t, fold (F t) (batches xs) out))"
proof -
  have "in_batches f xs out s = (s', r) \<Longrightarrow> ss_tables s' = ss_tables s \<and>
      (\<forall>x. r = Inr x \<longrightarrow> x = fold (F (ss_tables s)) (batches xs) out)" for s s' r
  proof (induction xs arbitrary: out s rule: batches.induct)
    case (1 xs)
    show ?case
    proof (cases "xs = []")
      case True
      with 1(2) show ?thesis by (auto simp: in_batches.simps)
    next
      case False
      obtain s1 y where one: "f (take sqlINBatch xs) out s = (s1, y)" by force
      note d = runsD [OF assms one]
      show ?thesis
      proof (cases y)
        case (Inl e)
        with 1(2) one False d(1) show ?thesis by (auto simp: in_batches.simps [of f xs])
      next
        case (Inr out1)
        have "in_batches f (drop sqlINBatch xs) out1 s1 = (s', r)"
          using 1(2) one False Inr by (simp add: in_batches.simps [of f xs])
        from 1(1) [OF False this] d Inr False show ?thesis by (simp add: batches.simps [of xs])
      qed
    qed
  qed
  then show ?thesis by (fastforce simp: runs_def runs_ok_def)
qed

lemma runs_upsert_chunks [sql_runs]:
  "runs_ok (upsert_chunks ts i hs n)
     (\<lambda>t. (fold (\<lambda>h t. if h = [] then t else q_UpsertChunk h i ts t) hs t, n + int (length (filter (\<lambda>h. h \<noteq> []) hs))))"
proof -
  have "upsert_chunks ts i hs n s = (s', Inr x) \<Longrightarrow>
      ss_tables s' = fold (\<lambda>h t. if h = [] then t else q_UpsertChunk h i ts t) hs (ss_tables s) \<and>
      x = n + int (length (filter (\<lambda>h. h \<noteq> []) hs))" for s s' x
  proof (induction ts i hs n s rule: upsert_chunks.induct)
    case (2 ts i h hs n s)
    show ?case
    proof (cases "h = []")
      case True
      with 2(1) 2(3) show ?thesis by simp
    next
      case False
      obtain s1 y where one: "errorf ''upsert chunk'' (statement [ts] (\<lambda>t. (q_UpsertChunk h i ts t, ()))) s = (s1, y)" by force
      then obtain u where y: "y = Inr u" using 2(3) False by (cases y) auto
      have "ss_tables s1 = q_UpsertChunk h i ts (ss_tables s)"
        using runsD(1) [OF runs_errorf [OF runs_statement] one] y by simp
      moreover have "upsert_chunks ts i hs (n + 1) s1 = (s', Inr x)" using 2(3) one y False by simp
      ultimately show ?thesis using 2(2) [OF False one [symmetric] y] False by simp
    qed
  qed simp
  then show ?thesis by (fastforce simp: runs_ok_def)
qed

lemmas runs_tx_steps = runs_ok_then runs_upsert_chunks runs_imp_ok [OF runs_errorf [OF runs_statement]]

section \<open>The driver keeps the contract\<close>

definition tables_inv :: "sql_tables \<Rightarrow> bool" where
  "tables_inv t =
     (wf_alist (tb_peers t) \<and> wf_alist (tb_artifacts t) \<and> wf_alist (tb_artifact_seeds t) \<and> wf_alist (tb_chunk_locations t))"

definition tables_view :: "sql_tables \<Rightarrow> index" where
  "tables_view t =
     \<lparr>ix_peers = (\<lambda>i. map_option (\<lambda>row. scanPeer (i, row)) (map_of (tb_peers t) i)),
      ix_arts = (\<lambda>a. map_option (\<lambda>(name, version, json).
        \<lparr>ar_ArtifactID = a, ar_Name = name, ar_Version = version, ar_ManifestJSON = json\<rparr>) (map_of (tb_artifacts t) a)),
      ix_seeds = (\<lambda>a. {i. (a, i) \<in> fst ` set (tb_artifact_seeds t)}),
      ix_chunks = (\<lambda>h. {i. (h, i) \<in> fst ` set (tb_chunk_locations t)})\<rparr>"

definition sql_inv :: "sql_store \<Rightarrow> bool" where
  "sql_inv s = tables_inv (ss_tables s)"

definition sql_view :: "sql_store \<Rightarrow> index" where
  "sql_view s = tables_view (ss_tables s)"

definition sql_clk :: "int \<Rightarrow> int" where
  "sql_clk t = secs t * 1000000000"

lemma wf_alist_filter: "wf_alist m \<Longrightarrow> wf_alist (filter P m)"
  by (simp add: distinct_map_filter)

lemma wf_alist_touch: "wf_alist m \<Longrightarrow> wf_alist (map (\<lambda>(i, row). (i, f i row)) m)"
  by (simp add: comp_def case_prod_beta)

lemma map_of_touch: "map_of (map (\<lambda>(i, row). (i, f i row)) m) i = map_option (f i) (map_of m i)"
  by (induction m) auto

lemma map_of_kept:
  "map_of (filter (\<lambda>(i, v). P i) m) i = (if P i then map_of m i else None)"
  by (induction m) auto

lemma filter_key:
  "wf_alist m \<Longrightarrow> filter (\<lambda>(i, v). i = k) m = (case map_of m k of None \<Rightarrow> [] | Some v \<Rightarrow> [(k, v)])"
proof (induction m)
  case (Cons x m)
  obtain i v where x: "x = (i, v)" by force
  show ?case
  proof (cases "i = k")
    case True
    then have "map_of m k = None" using Cons.prems x by (simp add: map_of_eq_None_iff)
    with Cons x True show ?thesis by simp
  next
    case False
    with Cons x show ?thesis by simp
  qed
qed simp

lemma keys_filter_snd:
  "(a, i) \<in> fst ` set (filter (\<lambda>((a, i), ts). P i) m) \<longleftrightarrow> (a, i) \<in> fst ` set m \<and> P i"
  by force

lemma sql_write:
  assumes "runs m f" and "\<And>t. tables_inv t \<Longrightarrow> tables_inv (fst (f t)) \<and> tables_view (fst (f t)) = g (tables_view t)"
    and "sql_inv s" and "m s = (s', r)"
  shows "sql_inv s' \<and> sql_view s' = (if isl r then sql_view s else g (sql_view s)) \<and>
    (\<forall>x. r = Inr x \<longrightarrow> x = snd (f (ss_tables s)))"
  using runsD [OF assms(1,4)] assms(2,3) by (auto simp: sql_inv_def sql_view_def)

lemma sql_read:
  assumes "runs m (\<lambda>t. (t, f t))" and "sql_inv s" and "m s = (s', r)"
  shows "sql_inv s' \<and> sql_view s' = sql_view s \<and> (\<forall>x. r = Inr x \<longrightarrow> x = f (ss_tables s))"
  using runsD [OF assms(1,3)] assms(2) by (auto simp: sql_inv_def sql_view_def split: if_splits)

text \<open>The updates, on the tables.\<close>

lemma unix_fill: "unix (pr_LastHeartbeat (fill_peer now p)) * 1000000000 = the (map_option sql_clk (pr_LastHeartbeat (fill_peer now p)))"
  "pr_NodeID (fill_peer now p) = pr_NodeID p"
  by (auto simp: fill_peer_def Let_def unix_def sql_clk_def secs_def)

lemma scan_row_of:
  "scanPeer (pr_NodeID p, row_of (fill_peer now p)) =
     (fill_peer now p)\<lparr>pr_LastHeartbeat := map_option sql_clk (pr_LastHeartbeat (fill_peer now p))\<rparr>"
  by (auto simp: scanPeer_def row_of_def fill_peer_def Let_def unix_def sql_clk_def secs_def intro!: peer.equality)

lemma upsert_tables:
  assumes "tables_inv t" and "pr_NodeID p \<noteq> []"
  shows "tables_inv (q_UpsertPeer (pr_NodeID p) (row_of (fill_peer now p)) t) \<and>
    tables_view (q_UpsertPeer (pr_NodeID p) (row_of (fill_peer now p)) t) = ix_upsert sql_clk now p (tables_view t)"
  using assms scan_row_of [of p now]
  by (auto simp: q_UpsertPeer_def tables_inv_def tables_view_def ix_upsert_def Let_def fun_eq_iff)

lemma touch_tables:
  assumes "tables_inv t"
  shows "tables_inv (q_TouchPeer (secs now) i t) \<and> tables_view (q_TouchPeer (secs now) i t) = ix_touch sql_clk now i (tables_view t)"
proof -
  have "wf_alist (tb_peers (q_TouchPeer (secs now) i t))"
    using assms by (simp add: q_TouchPeer_def tables_inv_def comp_def case_prod_beta)
  then have "tables_inv (q_TouchPeer (secs now) i t)"
    using assms by (simp add: tables_inv_def q_TouchPeer_def)
  moreover have "ix_peers (tables_view (q_TouchPeer (secs now) i t)) j = ix_peers (ix_touch sql_clk now i (tables_view t)) j" for j
    by (cases "map_of (tb_peers t) i"; cases "j = i"; cases "map_of (tb_peers t) j")
      (simp_all add: q_TouchPeer_def tables_view_def ix_touch_def map_of_touch scanPeer_def sql_clk_def)
  then have "tables_view (q_TouchPeer (secs now) i t) = ix_touch sql_clk now i (tables_view t)"
    by (intro index.equality) (auto simp: q_TouchPeer_def tables_view_def ix_touch_def split: option.splits)
  ultimately show ?thesis ..
qed

lemma heartbeat_tables: "fst (q_Heartbeat ts i t) = q_TouchPeer ts i t"
  by (simp add: q_Heartbeat_def q_TouchPeer_def)

lemma heartbeat_rows:
  assumes "tables_inv t"
  shows "(snd (q_Heartbeat ts i t) > 0) = (ix_peers (tables_view t) i \<noteq> None)"
proof -
  have "snd (q_Heartbeat ts i t) = length (case map_of (tb_peers t) i of None \<Rightarrow> [] | Some v \<Rightarrow> [(i, v)])"
    unfolding q_Heartbeat_def snd_conv using assms filter_key [of "tb_peers t" i] by (simp only: tables_inv_def)
  then show ?thesis by (simp add: tables_view_def split: option.splits)
qed

lemma drop_tables:
  assumes "tables_inv t"
  shows "tables_inv (q_DeletePeer i (q_DeleteChunksForNode i (q_DeleteSeedsForNode i t))) \<and>
    tables_view (q_DeletePeer i (q_DeleteChunksForNode i (q_DeleteSeedsForNode i t))) = ix_drop {i} (tables_view t)"
  using assms
  by (auto simp: q_DeletePeer_def q_DeleteChunksForNode_def q_DeleteSeedsForNode_def tables_inv_def tables_view_def
      ix_drop_def wf_alist_filter map_of_kept keys_filter_snd fun_eq_iff intro!: index.equality)

lemma in_expired:
  assumes "tables_inv t"
  shows "i \<in> set (expired_nodes cutoff t) \<longleftrightarrow> (\<exists>row. map_of (tb_peers t) i = Some row \<and> rw_last_heartbeat row < cutoff)"
proof -
  have "i \<in> set (expired_nodes cutoff t) \<longleftrightarrow> (\<exists>row. (i, row) \<in> set (tb_peers t) \<and> rw_last_heartbeat row < cutoff)"
    unfolding expired_nodes_def set_map set_filter image_iff by (auto intro: bexI [of _ "(i, row)" for row])
  then show ?thesis using assms in_set_map_of [of "tb_peers t" i] by (simp add: tables_inv_def)
qed

lemma prune_tables:
  assumes "tables_inv t"
  shows "tables_inv (fst (q_DeletePeersExpired c (q_DeleteChunksExpired c (q_DeleteSeedsExpired c t)))) \<and>
    tables_view (fst (q_DeletePeersExpired c (q_DeleteChunksExpired c (q_DeleteSeedsExpired c t)))) =
      ix_drop (set (expired_nodes c t)) (tables_view t) \<and>
    snd (q_DeletePeersExpired c (q_DeleteChunksExpired c (q_DeleteSeedsExpired c t))) = card (set (expired_nodes c t))"
proof -
  have e: "expired_nodes c (q_DeleteSeedsExpired c t) = expired_nodes c t"
    by (simp add: expired_nodes_def q_DeleteSeedsExpired_def)
  have "distinct (expired_nodes c t)"
    using assms by (simp add: expired_nodes_def tables_inv_def distinct_map_filter)
  then have "card (set (expired_nodes c t)) = length (expired_nodes c t)" by (rule distinct_card)
  then have "length (filter (\<lambda>(i, row). rw_last_heartbeat row < c) (tb_peers t)) = card (set (expired_nodes c t))"
    by (simp only: expired_nodes_def length_map)
  moreover have "map_of (filter (\<lambda>(i, row). \<not> rw_last_heartbeat row < c) (tb_peers t)) i =
      (if i \<in> set (expired_nodes c t) then None else map_of (tb_peers t) i)" for i
  proof -
    have "wf_alist (tb_peers t)" using assms by (simp add: tables_inv_def)
    from map_of_filter_wf [OF this, of "\<lambda>i row. \<not> rw_last_heartbeat row < c" i] show ?thesis
      unfolding in_expired [OF assms] by (cases "map_of (tb_peers t) i") simp_all
  qed
  ultimately show ?thesis
    using assms e
    by (auto simp: q_DeletePeersExpired_def q_DeleteChunksExpired_def q_DeleteSeedsExpired_def tables_inv_def
        tables_view_def ix_drop_def wf_alist_filter keys_filter_snd fun_eq_iff intro!: index.equality)
qed

lemma put_artifact_tables:
  assumes "tables_inv t"
  shows "tables_inv (q_PutArtifact (ar_ArtifactID a) (ar_Name a) (ar_Version a) (ar_ManifestJSON a) t) \<and>
    tables_view (q_PutArtifact (ar_ArtifactID a) (ar_Name a) (ar_Version a) (ar_ManifestJSON a) t) =
      (tables_view t)\<lparr>ix_arts := (ix_arts (tables_view t))(ar_ArtifactID a \<mapsto> a)\<rparr>"
  using assms by (auto simp: q_PutArtifact_def tables_inv_def tables_view_def fun_eq_iff)

lemma seed_tables:
  assumes "tables_inv t"
  shows "tables_inv (q_ReportSeed a i ts t) \<and> tables_view (q_ReportSeed a i ts t) = ix_seed a i (tables_view t)"
  using assms
  by (auto simp: q_ReportSeed_def tables_inv_def tables_view_def ix_seed_def dom_update fun_eq_iff intro!: index.equality)

lemma chunks_tables:
  assumes "tables_inv t"
  shows "tables_inv (fold (\<lambda>h t. if h = [] then t else q_UpsertChunk h i ts t) hs t) \<and>
    tables_view (fold (\<lambda>h t. if h = [] then t else q_UpsertChunk h i ts t) hs t) = ix_report i hs (tables_view t)"
  using assms
proof (induction hs arbitrary: t)
  case Nil
  then show ?case by (simp add: ix_report_def)
next
  case (Cons h hs)
  have "tables_inv (q_UpsertChunk h i ts t)" "tables_view (q_UpsertChunk h i ts t) =
      (tables_view t)\<lparr>ix_chunks := (ix_chunks (tables_view t))(h := insert i (ix_chunks (tables_view t) h))\<rparr>"
    using Cons.prems
    by (auto simp: q_UpsertChunk_def tables_inv_def tables_view_def dom_update fun_eq_iff intro!: index.equality)
  with Cons show ?case by (auto simp: ix_report_def fun_eq_iff)
qed

lemma nodes_of_key:
  assumes "wf_alist m"
  shows "distinct (map (\<lambda>((a, i), ts). i) (filter (\<lambda>((a, i), ts). a = k) m))"
    and "set (map (\<lambda>((a, i), ts). i) (filter (\<lambda>((a, i), ts). a = k) m)) = {i. (k, i) \<in> fst ` set m}"
proof -
  show "set (map (\<lambda>((a, i), ts). i) (filter (\<lambda>((a, i), ts). a = k) m)) = {i. (k, i) \<in> fst ` set m}"
    by (induction m) auto
  show "distinct (map (\<lambda>((a, i), ts). i) (filter (\<lambda>((a, i), ts). a = k) m))"
    using assms
  proof (induction m)
    case (Cons x m)
    obtain a i ts where x: "x = ((a, i), ts)" by (metis prod.exhaust)
    have "((a, i), u) \<notin> set m" for u using Cons.prems x by (auto simp: rev_image_eqI)
    with Cons x show ?case by auto
  qed simp
qed

lemma scan_fields: "pr_NodeID (scanPeer (i, row)) = i" "pr_LastHeartbeat (scanPeer (i, row)) = Some (rw_last_heartbeat row * 1000000000)"
  by (simp_all add: scanPeer_def)

lemma list_scan:
  assumes "tables_inv t"
  shows "distinct (map pr_NodeID (map scanPeer (q_ListPeers c t)))"
    and "(p \<in> set (map scanPeer (q_ListPeers c t))) =
      (ix_peers (tables_view t) (pr_NodeID p) = Some p \<and> c * 1000000000 \<le> the (pr_LastHeartbeat p))"
proof -
  have wf: "wf_alist (tb_peers t)" using assms by (simp add: tables_inv_def)
  have "map pr_NodeID (map scanPeer (q_ListPeers c t)) = map fst (q_ListPeers c t)"
    by (simp add: scanPeer_def case_prod_beta)
  then show "distinct (map pr_NodeID (map scanPeer (q_ListPeers c t)))"
    unfolding q_ListPeers_def using wf_alist_filter [OF wf] by (simp only:)
  have "p \<in> set (map scanPeer (q_ListPeers c t)) \<longleftrightarrow>
      (\<exists>i row. (i, row) \<in> set (tb_peers t) \<and> rw_last_heartbeat row \<ge> c \<and> p = scanPeer (i, row))"
    unfolding q_ListPeers_def set_map set_filter image_iff by auto
  also have "\<dots> \<longleftrightarrow> (\<exists>i row. map_of (tb_peers t) i = Some row \<and> rw_last_heartbeat row \<ge> c \<and> p = scanPeer (i, row))"
    using in_set_map_of [OF wf] by simp
  also have "\<dots> \<longleftrightarrow> ix_peers (tables_view t) (pr_NodeID p) = Some p \<and> c * 1000000000 \<le> the (pr_LastHeartbeat p)"
  proof (intro iffI, goal_cases)
    case 2
    then obtain row where "map_of (tb_peers t) (pr_NodeID p) = Some row" "p = scanPeer (pr_NodeID p, row)"
      by (auto simp: tables_view_def)
    moreover from this(2) have "the (pr_LastHeartbeat p) = rw_last_heartbeat row * 1000000000"
      by (metis scan_fields(2) option.sel)
    ultimately show ?case using 2 by auto
  qed (auto simp: tables_view_def scan_fields)
  finally show "(p \<in> set (map scanPeer (q_ListPeers c t))) =
      (ix_peers (tables_view t) (pr_NodeID p) = Some p \<and> c * 1000000000 \<le> the (pr_LastHeartbeat p))" .
qed

section \<open>Batches\<close>

abbreviation add_row :: "string \<times> string \<Rightarrow> (string \<times> string list) list \<Rightarrow> (string \<times> string list) list" where
  "add_row \<equiv> \<lambda>(hash, i) out. AList.update hash ((case map_of out hash of None \<Rightarrow> [] | Some ids \<Rightarrow> ids) @ [i]) out"

lemma add_rows:
  "wf_alist out \<Longrightarrow> wf_alist (fold add_row rows out)"
  "map_of out h = Some ids \<Longrightarrow> map_of (fold add_row rows out) h = Some (ids @ map snd (filter (\<lambda>r. fst r = h) rows))"
  "map_of out h = None \<Longrightarrow> h \<notin> fst ` set rows \<Longrightarrow> map_of (fold add_row rows out) h = None"
proof -
  show "wf_alist out \<Longrightarrow> wf_alist (fold add_row rows out)"
    by (induction rows arbitrary: out) auto
  show "map_of out h = Some ids \<Longrightarrow> map_of (fold add_row rows out) h = Some (ids @ map snd (filter (\<lambda>r. fst r = h) rows))"
    by (induction rows arbitrary: out ids) auto
  show "map_of out h = None \<Longrightarrow> h \<notin> fst ` set rows \<Longrightarrow> map_of (fold add_row rows out) h = None"
    by (induction rows arbitrary: out) (auto simp: case_prod_beta)
qed

lemma fold_batches: "fold (\<lambda>b. fold f (g b)) bs = fold f (concat (map g bs))"
  by (induction bs) auto

lemma init_rows: "wf_alist (fold (\<lambda>h. AList.update h []) hs out) = wf_alist out"
  "map_of (fold (\<lambda>h. AList.update h []) hs out) h = (if h \<in> set hs then Some [] else map_of out h)"
  if "wf_alist out"
  using that by (induction hs arbitrary: out) auto

lemma rows_at_key:
  "map snd (filter (\<lambda>r. fst r = h) (q_LocateIN b t)) = (if h \<in> set b then q_LocateChunkNodes h t else [])"
proof -
  have "map snd (filter (\<lambda>r. fst r = h) (map fst (filter (\<lambda>((k, i), ts). k \<in> set b) m))) =
      (if h \<in> set b then map (\<lambda>((k, i), ts). i) (filter (\<lambda>((k, i), ts). k = h) m) else [])"
    for m :: "((string \<times> string) \<times> int) list"
    by (induction m) auto
  then show ?thesis by (simp add: q_LocateIN_def q_LocateChunkNodes_def)
qed

lemma repeated:
  "concat (map (\<lambda>b. if h \<in> set b then ns else []) bs) = concat (replicate (length (filter (\<lambda>b. h \<in> set b) bs)) ns)"
  by (induction bs) auto

lemma in_one_batch:
  assumes "distinct hs \<or> length hs \<le> sqlINBatch" and "h \<in> set hs"
  shows "length (filter (\<lambda>b. h \<in> set b) (batches hs)) = 1"
proof -
  have "distinct (concat bs) \<Longrightarrow> h \<in> set (concat bs) \<Longrightarrow> length (filter (\<lambda>b. h \<in> set b) bs) = 1" for bs
  proof (induction bs)
    case (Cons b bs)
    show ?case
    proof (cases "h \<in> set b")
      case True
      then have "filter (\<lambda>b. h \<in> set b) bs = []" using Cons.prems by (auto simp: filter_empty_conv)
      with True show ?thesis by simp
    next
      case False
      with Cons show ?thesis by simp
    qed
  qed simp
  from this [of "batches hs"] assms show ?thesis by (auto simp: batches_short)
qed

text \<open>The answer of \<open>LocateChunkNodesBatch\<close>: the holders of a hash, once for every batch that contains it.\<close>

definition located :: "string list \<Rightarrow> sql_tables \<Rightarrow> (string \<times> string list) list" where
  "located hs t = fold add_row (concat (map (\<lambda>b. q_LocateIN b t) (batches hs))) (fold (\<lambda>h. AList.update h []) hs [])"

lemma located_at:
  "wf_alist (located hs t)"
  "map_of (located hs t) h =
     (if h \<in> set hs
      then Some (concat (replicate (length (filter (\<lambda>b. h \<in> set b) (batches hs))) (q_LocateChunkNodes h t))) else None)"
proof -
  let ?rows = "concat (map (\<lambda>b. q_LocateIN b t) (batches hs))" and ?init = "fold (\<lambda>h. AList.update h []) hs []"
  have wf: "wf_alist ?init" using init_rows(1) [where out = "[]"] by simp
  show "wf_alist (located hs t)" unfolding located_def by (rule add_rows(1) [OF wf])
  have "fst ` set ?rows \<subseteq> (\<Union>b \<in> set (batches hs). set b)" by (auto simp: q_LocateIN_def)
  then have keys: "fst ` set ?rows \<subseteq> set hs" by (simp only: batches_cover)
  have "map snd (filter (\<lambda>r. fst r = h) ?rows) = concat (map (\<lambda>b. if h \<in> set b then q_LocateChunkNodes h t else []) (batches hs))"
    by (simp add: filter_concat map_concat rows_at_key comp_def)
  then have rows: "map snd (filter (\<lambda>r. fst r = h) ?rows) =
      concat (replicate (length (filter (\<lambda>b. h \<in> set b) (batches hs))) (q_LocateChunkNodes h t))"
    by (simp only: repeated)
  show "map_of (located hs t) h =
     (if h \<in> set hs
      then Some (concat (replicate (length (filter (\<lambda>b. h \<in> set b) (batches hs))) (q_LocateChunkNodes h t))) else None)"
  proof (cases "h \<in> set hs")
    case True
    then have "map_of ?init h = Some []" by (simp add: init_rows(2))
    from add_rows(2) [OF this, of ?rows] True rows show ?thesis by (simp add: located_def)
  next
    case False
    then have "map_of ?init h = None" "h \<notin> fst ` set ?rows" using keys by (auto simp: init_rows(2))
    from add_rows(3) [OF this] False show ?thesis by (simp only: located_def if_False)
  qed
qed

lemma located_spec:
  assumes "tables_inv t"
  shows "fst ` set (located hs t) = set hs"
    and "(h, ids) \<in> set (located hs t) \<Longrightarrow> (distinct hs \<or> length hs \<le> sqlINBatch \<longrightarrow> distinct ids) \<and>
      set ids = ix_chunks (tables_view t) h"
proof -
  show "fst ` set (located hs t) = set hs"
    unfolding dom_map_of_conv_image_fst [symmetric] by (auto simp: located_at(2) split: if_splits)
  assume "(h, ids) \<in> set (located hs t)"
  then have at: "map_of (located hs t) h = Some ids" using located_at(1) by simp
  then have h: "h \<in> set hs" and ids: "ids = concat (replicate (length (filter (\<lambda>b. h \<in> set b) (batches hs))) (q_LocateChunkNodes h t))"
    by (auto simp: located_at(2) split: if_splits)
  have ns: "distinct (q_LocateChunkNodes h t)" "set (q_LocateChunkNodes h t) = ix_chunks (tables_view t) h"
    using nodes_of_key [of "tb_chunk_locations t" h] assms
    by (simp_all add: q_LocateChunkNodes_def tables_view_def tables_inv_def)
  have "filter (\<lambda>b. h \<in> set b) (batches hs) \<noteq> []"
    using h batches_cover [of hs] by (auto simp: filter_empty_conv)
  then have "set ids = set (q_LocateChunkNodes h t)" unfolding ids by (cases "filter (\<lambda>b. h \<in> set b) (batches hs)") auto
  moreover have "distinct ids" if "distinct hs \<or> length hs \<le> sqlINBatch"
    unfolding ids in_one_batch [OF that h] using ns(1) by simp
  ultimately show "(distinct hs \<or> length hs \<le> sqlINBatch \<longrightarrow> distinct ids) \<and> set ids = ix_chunks (tables_view t) h"
    using ns(2) by blast
qed

definition fetched :: "string list \<Rightarrow> sql_tables \<Rightarrow> (string \<times> peer) list" where
  "fetched ids t =
     fold (\<lambda>row. AList.update (pr_NodeID (scanPeer row)) (scanPeer row)) (concat (map (\<lambda>b. q_PeersIN b t) (batches ids))) []"

lemma add_peers:
  assumes "wf_alist out"
  shows "wf_alist (fold (\<lambda>row. AList.update (pr_NodeID (scanPeer row)) (scanPeer row)) rows out)"
    and "\<forall>r \<in> set rows. map_of m (fst r) = Some (snd r) \<Longrightarrow>
      map_of (fold (\<lambda>row. AList.update (pr_NodeID (scanPeer row)) (scanPeer row)) rows out) i =
      (if i \<in> fst ` set rows then map_option (\<lambda>row. scanPeer (i, row)) (map_of m i) else map_of out i)"
  using assms by (induction rows arbitrary: out) (auto simp: scan_fields)

lemma fetched_spec:
  assumes "tables_inv t"
  shows "wf_alist (fetched ids t)" and "fst ` set (fetched ids t) \<subseteq> set ids"
    and "i \<in> set ids \<Longrightarrow> map_of (fetched ids t) i = ix_peers (tables_view t) i"
proof -
  let ?rows = "concat (map (\<lambda>b. q_PeersIN b t) (batches ids))"
  have wf: "wf_alist (tb_peers t)" using assms by (simp add: tables_inv_def)
  have rows: "set ?rows = {r \<in> set (tb_peers t). fst r \<in> (\<Union>b \<in> set (batches ids). set b)}"
    by (auto simp: q_PeersIN_def)
  then have rows': "set ?rows = {r \<in> set (tb_peers t). fst r \<in> set ids}" by (simp only: batches_cover)
  have "\<forall>r \<in> set ?rows. map_of (tb_peers t) (fst r) = Some (snd r)"
    unfolding rows' using in_set_map_of [OF wf] by simp
  note at = add_peers(2) [OF _ this, of "[]"]
  show "wf_alist (fetched ids t)" unfolding fetched_def by (rule add_peers(1)) simp
  have at': "map_of (fetched ids t) j = (if j \<in> fst ` set ?rows then map_option (\<lambda>row. scanPeer (j, row)) (map_of (tb_peers t) j) else None)" for j
    unfolding fetched_def using at by simp
  show "fst ` set (fetched ids t) \<subseteq> set ids"
    unfolding dom_map_of_conv_image_fst [symmetric] using rows' by (auto simp: at' split: if_splits)
  show "map_of (fetched ids t) i = ix_peers (tables_view t) i" if "i \<in> set ids"
  proof (cases "map_of (tb_peers t) i")
    case None
    then show ?thesis by (simp add: at' tables_view_def)
  next
    case (Some row)
    then have "(i, row) \<in> set ?rows" unfolding rows' using that in_set_map_of [OF wf] by simp
    then have "i \<in> fst ` set ?rows" by (metis fst_conv imageI)
    then show ?thesis by (simp only: at' tables_view_def if_True index.simps)
  qed
qed

section \<open>The operations, on the tables\<close>

lemma runs_operations:
  "pr_NodeID p \<noteq> [] \<Longrightarrow> runs (sql_UpsertPeer now p) (\<lambda>t. (q_UpsertPeer (pr_NodeID p) (row_of (fill_peer now p)) t, ()))"
  "runs (sql_Heartbeat now i) (\<lambda>t. case q_Heartbeat (secs now) i t of (t', n) \<Rightarrow> (t', n > 0))"
  "runs (sql_GetPeer now i) (\<lambda>t. (t, case q_GetPeer i t of [] \<Rightarrow> None | row # _ \<Rightarrow> Some (scanPeer row)))"
  "runs (sql_ListPeers now d) (\<lambda>t. (t, map scanPeer (q_ListPeers (if d > 0 then secs (now + neg64 d) else 0) t)))"
  "runs (sql_DeregisterPeer now i) (\<lambda>t. (q_DeletePeer i (q_DeleteChunksForNode i (q_DeleteSeedsForNode i t)), ()))"
  "runs (sql_PruneExpiredPeers now d) (\<lambda>t. q_DeletePeersExpired (secs (now + neg64 d))
     (q_DeleteChunksExpired (secs (now + neg64 d)) (q_DeleteSeedsExpired (secs (now + neg64 d)) t)))"
  "runs (sql_PutArtifact now a) (\<lambda>t. (q_PutArtifact (ar_ArtifactID a) (ar_Name a) (ar_Version a) (ar_ManifestJSON a) t, ()))"
  "runs (sql_ReportSeed now k i) (\<lambda>t. (q_ReportSeed k i (secs now) t, ()))"
  "runs (sql_ListSeeds now k) (\<lambda>t. (t, q_ListSeeds k t))"
  "runs (sql_LocateChunkNodes now h) (\<lambda>t. (t, q_LocateChunkNodes h t))"
  "runs (sql_ReportChunks now i hs) (\<lambda>t. (fold (\<lambda>h t. if h = [] then t else q_UpsertChunk h i (secs now) t) hs
     (q_TouchPeer (secs now) i t), int (length (filter (\<lambda>h. h \<noteq> []) hs))))"
  "runs (sql_LocateChunkNodesBatch now hs) (\<lambda>t. (t, located hs t))"
  "runs (sql_GetPeersBatch now ids) (\<lambda>t. (t, fetched ids t))"
proof -
  have "sql_UpsertPeer now p = errorf ''upsert peer'' (statement [unix (pr_LastHeartbeat (fill_peer now p))]
      (\<lambda>t. (q_UpsertPeer (pr_NodeID p) (row_of (fill_peer now p)) t, ())))" if "pr_NodeID p \<noteq> []"
    using that by (simp add: fun_eq_iff sql_UpsertPeer_def Let_def unix_fill(2))
  then show "pr_NodeID p \<noteq> [] \<Longrightarrow> runs (sql_UpsertPeer now p) (\<lambda>t. (q_UpsertPeer (pr_NodeID p) (row_of (fill_peer now p)) t, ()))"
    by (simp add: runs_errorf runs_statement)
  show "runs (sql_Heartbeat now i) (\<lambda>t. case q_Heartbeat (secs now) i t of (t', n) \<Rightarrow> (t', n > 0))"
    unfolding sql_Heartbeat_def [abs_def] by (intro sql_runs)
  show "runs (sql_GetPeer now i) (\<lambda>t. (t, case q_GetPeer i t of [] \<Rightarrow> None | row # _ \<Rightarrow> Some (scanPeer row)))"
    unfolding sql_GetPeer_def [abs_def]
    using runs_then_pure [OF runs_errorf [OF runs_statement]] by (rule runs_cong) simp
  show "runs (sql_ListPeers now d) (\<lambda>t. (t, map scanPeer (q_ListPeers (if d > 0 then secs (now + neg64 d) else 0) t)))"
    unfolding sql_ListPeers_def [abs_def] Let_def by (rule runs_then_scan [OF runs_errorf [OF runs_statement]])
  show "runs (sql_DeregisterPeer now i) (\<lambda>t. (q_DeletePeer i (q_DeleteChunksForNode i (q_DeleteSeedsForNode i t)), ()))"
    unfolding sql_DeregisterPeer_def by (rule runs_cong, rule runs_in_tx, (rule runs_tx_steps)+) simp
  show "runs (sql_PruneExpiredPeers now d) (\<lambda>t. q_DeletePeersExpired (secs (now + neg64 d))
     (q_DeleteChunksExpired (secs (now + neg64 d)) (q_DeleteSeedsExpired (secs (now + neg64 d)) t)))"
    unfolding sql_PruneExpiredPeers_def Let_def by (rule runs_cong, rule runs_in_tx, (rule runs_tx_steps)+) simp
  show "runs (sql_PutArtifact now a) (\<lambda>t. (q_PutArtifact (ar_ArtifactID a) (ar_Name a) (ar_Version a) (ar_ManifestJSON a) t, ()))"
    "runs (sql_ReportSeed now k i) (\<lambda>t. (q_ReportSeed k i (secs now) t, ()))"
    unfolding sql_PutArtifact_def sql_ReportSeed_def by (rule runs_errorf [OF runs_statement])+
  show "runs (sql_ListSeeds now k) (\<lambda>t. (t, q_ListSeeds k t))" "runs (sql_LocateChunkNodes now h) (\<lambda>t. (t, q_LocateChunkNodes h t))"
    unfolding sql_ListSeeds_def sql_LocateChunkNodes_def by (rule runs_then_scan [OF runs_errorf [OF runs_statement]])+
  show "runs (sql_ReportChunks now i hs) (\<lambda>t. (fold (\<lambda>h t. if h = [] then t else q_UpsertChunk h i (secs now) t) hs
      (q_TouchPeer (secs now) i t), int (length (filter (\<lambda>h. h \<noteq> []) hs))))"
    unfolding sql_ReportChunks_def by (rule runs_cong, rule runs_in_tx, (rule runs_tx_steps)+) simp
  have "runs (locate_batch_step b out) (\<lambda>t. (t, fold add_row (q_LocateIN b t) out))" for b out
    unfolding locate_batch_step_def by (rule runs_then_scan [OF runs_errorf [OF runs_statement]])
  from runs_in_batches [of locate_batch_step, OF this] show "runs (sql_LocateChunkNodesBatch now hs) (\<lambda>t. (t, located hs t))"
    unfolding sql_LocateChunkNodesBatch_def located_def by (simp only: fold_batches)
  have "runs (peers_batch_step b out) (\<lambda>t. (t, fold (\<lambda>row. AList.update (pr_NodeID (scanPeer row)) (scanPeer row)) (q_PeersIN b t) out))" for b out
    unfolding peers_batch_step_def by (rule runs_then_scan [OF runs_errorf [OF runs_statement]])
  from runs_in_batches [of peers_batch_step, OF this] show "runs (sql_GetPeersBatch now ids) (\<lambda>t. (t, fetched ids t))"
    unfolding sql_GetPeersBatch_def fetched_def by (simp only: fold_batches)
qed

definition sql_once :: "string list \<Rightarrow> bool" where
  "sql_once hs = (distinct hs \<or> length hs \<le> sqlINBatch)"

lemma sql_once_filter: "sql_once hs \<Longrightarrow> sql_once (filter P hs)"
  using le_trans [OF length_filter_le [of P hs]] by (auto simp: sql_once_def)

lemma sql_upsert:
  assumes "sql_inv s" and "sql_UpsertPeer now p s = (s', r)"
  shows "sql_inv s' \<and> sql_view s' = (if isl r then sql_view s else ix_upsert sql_clk now p (sql_view s))"
proof (cases "pr_NodeID p = []")
  case True
  then show ?thesis using assms by (auto simp: sql_UpsertPeer_def ix_upsert_def)
next
  case False
  from sql_write [OF runs_operations(1) [OF False] _ assms, of "ix_upsert sql_clk now p"] upsert_tables [OF _ False]
  show ?thesis by simp
qed

lemma sql_heartbeat:
  assumes "sql_inv s" and "sql_Heartbeat now i s = (s', r)"
  shows "sql_inv s' \<and> sql_view s' = (if isl r then sql_view s else ix_touch sql_clk now i (sql_view s)) \<and>
    (\<forall>b. r = Inr b \<longrightarrow> b = (ix_peers (sql_view s) i \<noteq> None))"
proof -
  have "fst (case q_Heartbeat (secs now) i t of (t', n) \<Rightarrow> (t', n > 0)) = q_TouchPeer (secs now) i t"
    "snd (case q_Heartbeat (secs now) i t of (t', n) \<Rightarrow> (t', n > 0)) = (snd (q_Heartbeat (secs now) i t) > 0)" for t
    using heartbeat_tables [of "secs now" i t] by (simp_all add: case_prod_beta)
  with sql_write [OF runs_operations(2) _ assms, of "ix_touch sql_clk now i"] touch_tables heartbeat_rows assms(1)
  show ?thesis by (simp add: sql_inv_def sql_view_def)
qed

lemma sql_get_peer:
  assumes "sql_inv s" and "sql_GetPeer now i s = (s', r)"
  shows "sql_inv s' \<and> sql_view s' = sql_view s \<and> (\<forall>p. r = Inr p \<longrightarrow> p = ix_peers (sql_view s) i)"
proof -
  have "wf_alist (tb_peers (ss_tables s))" using assms(1) by (simp add: sql_inv_def tables_inv_def)
  then have "(case q_GetPeer i (ss_tables s) of [] \<Rightarrow> None | row # _ \<Rightarrow> Some (scanPeer row)) = ix_peers (sql_view s) i"
    unfolding q_GetPeer_def filter_key [OF \<open>wf_alist (tb_peers (ss_tables s))\<close>]
    by (simp add: sql_view_def tables_view_def split: option.splits)
  with sql_read [OF runs_operations(3) assms] show ?thesis by simp
qed

lemma sql_get_artifact:
  assumes "sql_inv s" and "sql_GetArtifact now k s = (s', r)"
  shows "sql_inv s' \<and> sql_view s' = sql_view s \<and> (\<forall>a. r = Inr a \<longrightarrow> a = ix_arts (sql_view s) k)"
proof -
  let ?f = "\<lambda>rows. case rows of [] \<Rightarrow> None | (a, name, version, json) # _ \<Rightarrow>
      Some \<lparr>ar_ArtifactID = a, ar_Name = name, ar_Version = version, ar_ManifestJSON = json\<rparr>"
  have runs: "runs (sql_GetArtifact now k) (\<lambda>t. (t, ?f (q_GetArtifact k t)))"
    unfolding sql_GetArtifact_def
    using runs_then_pure [OF runs_errorf [OF runs_statement]] by (rule runs_cong) simp
  have wf: "wf_alist (tb_artifacts (ss_tables s))" using assms(1) by (simp add: sql_inv_def tables_inv_def)
  have "?f (q_GetArtifact k (ss_tables s)) = ix_arts (sql_view s) k"
    unfolding q_GetArtifact_def filter_key [OF wf] by (simp add: sql_view_def tables_view_def split: option.splits)
  then show ?thesis using sql_read [OF runs assms] by simp
qed

lemma sql_list:
  assumes "sql_inv s" and "sql_ListPeers now d s = (s', r)"
  shows "sql_inv s' \<and> sql_view s' = sql_view s \<and>
    (\<forall>ps. r = Inr ps \<longrightarrow> distinct (map pr_NodeID ps) \<and>
       (\<forall>p. p \<in> set ps \<longleftrightarrow> ix_peers (sql_view s) (pr_NodeID p) = Some p \<and>
          (if d > 0 then secs (now + neg64 d) else 0) * 1000000000 \<le> the (pr_LastHeartbeat p)))"
proof -
  have inv: "tables_inv (ss_tables s)" using assms(1) by (simp add: sql_inv_def)
  show ?thesis
    using sql_read [OF runs_operations(4) assms] list_scan(1) [OF inv] list_scan(2) [OF inv]
    unfolding sql_view_def by metis
qed

lemma sql_drop:
  assumes "sql_inv s" and "sql_DeregisterPeer now i s = (s', r)"
  shows "sql_inv s' \<and> sql_view s' = (if isl r then sql_view s else ix_drop {i} (sql_view s))"
  using sql_write [OF runs_operations(5) _ assms, of "ix_drop {i}"] drop_tables by simp

lemma sql_prune:
  assumes "sql_inv s" and "sql_PruneExpiredPeers now d s = (s', r)"
  shows "sql_inv s' \<and> (case r of
      Inl e \<Rightarrow> sql_view s' = sql_view s
    | Inr n \<Rightarrow> sql_view s' = ix_drop (set (expired_nodes (secs (now + neg64 d)) (ss_tables s))) (sql_view s) \<and>
        n = card (set (expired_nodes (secs (now + neg64 d)) (ss_tables s))))"
  using runsD [OF runs_operations(6) assms(2)] prune_tables assms(1)
  by (auto simp: sql_inv_def sql_view_def split: sum.splits)

lemma sql_put_artifact:
  assumes "sql_inv s" and "sql_PutArtifact now a s = (s', r)"
  shows "sql_inv s' \<and> sql_view s' = (if isl r then sql_view s
    else (sql_view s)\<lparr>ix_arts := (ix_arts (sql_view s))(ar_ArtifactID a \<mapsto> a)\<rparr>)"
  using sql_write [OF runs_operations(7) _ assms, of "\<lambda>ix. ix\<lparr>ix_arts := (ix_arts ix)(ar_ArtifactID a \<mapsto> a)\<rparr>"]
    put_artifact_tables by simp

lemma sql_report_seed:
  assumes "sql_inv s" and "sql_ReportSeed now k i s = (s', r)"
  shows "sql_inv s' \<and> sql_view s' = (if isl r then sql_view s else ix_seed k i (sql_view s))"
  using sql_write [OF runs_operations(8) _ assms, of "ix_seed k i"] seed_tables by simp

lemma sql_nodes:
  assumes "sql_inv s"
  shows "distinct (q_ListSeeds k (ss_tables s)) \<and> set (q_ListSeeds k (ss_tables s)) = ix_seeds (sql_view s) k"
    and "distinct (q_LocateChunkNodes k (ss_tables s)) \<and> set (q_LocateChunkNodes k (ss_tables s)) = ix_chunks (sql_view s) k"
  using nodes_of_key [of "tb_artifact_seeds (ss_tables s)" k] nodes_of_key [of "tb_chunk_locations (ss_tables s)" k] assms
  by (simp_all add: q_ListSeeds_def q_LocateChunkNodes_def sql_inv_def sql_view_def tables_inv_def tables_view_def)

lemma sql_report:
  assumes "sql_inv s" and "sql_ReportChunks now i hs s = (s', r)"
  shows "sql_inv s' \<and> sql_view s' = (if isl r then sql_view s else ix_report i hs (ix_touch sql_clk now i (sql_view s))) \<and>
    (\<forall>n. r = Inr n \<longrightarrow> n = int (length (filter (\<lambda>h. h \<noteq> []) hs)))"
  using sql_write [OF runs_operations(11) _ assms, of "\<lambda>ix. ix_report i hs (ix_touch sql_clk now i ix)"]
    chunks_tables touch_tables by simp

lemma expired_registered: "sql_inv s \<Longrightarrow> set (expired_nodes c (ss_tables s)) \<subseteq> dom (ix_peers (sql_view s))"
  using in_expired [of "ss_tables s" _ c] by (auto simp: sql_inv_def sql_view_def tables_view_def dom_def)

lemma sql_locate_batch:
  assumes "sql_inv s" and "sql_LocateChunkNodesBatch now hs s = (s', r)"
  shows "sql_inv s' \<and> sql_view s' = sql_view s \<and>
    (\<forall>out. r = Inr out \<longrightarrow> wf_alist out \<and> fst ` set out = set hs \<and>
       (\<forall>(h, ids) \<in> set out. (sql_once hs \<longrightarrow> distinct ids) \<and> set ids = ix_chunks (sql_view s) h))"
proof -
  have inv: "tables_inv (ss_tables s)" using assms(1) by (simp add: sql_inv_def)
  have "\<forall>(h, ids) \<in> set (located hs (ss_tables s)). (sql_once hs \<longrightarrow> distinct ids) \<and> set ids = ix_chunks (sql_view s) h"
    using located_spec(2) [OF inv] unfolding sql_once_def sql_view_def by blast
  then have each: "wf_alist out \<and> fst ` set out = set hs \<and>
      (\<forall>(h, ids) \<in> set out. (sql_once hs \<longrightarrow> distinct ids) \<and> set ids = ix_chunks (sql_view s) h)"
    if "out = located hs (ss_tables s)" for out
    unfolding that using located_at(1) [of hs "ss_tables s"] located_spec(1) [OF inv, of hs] by blast
  note rd = sql_read [OF runs_operations(12) assms]
  show ?thesis using each rd [THEN conjunct2, THEN conjunct2, rule_format]
    by (intro conjI rd [THEN conjunct1] rd [THEN conjunct2, THEN conjunct1]) iprover
qed

lemma sql_get_peers:
  assumes "sql_inv s" and "sql_GetPeersBatch now ids s = (s', r)"
  shows "sql_inv s' \<and> sql_view s' = sql_view s \<and>
    (\<forall>out. r = Inr out \<longrightarrow> wf_alist out \<and> fst ` set out \<subseteq> set ids \<and>
       (\<forall>i \<in> set ids. map_of out i = ix_peers (sql_view s) i))"
proof -
  have inv: "tables_inv (ss_tables s)" using assms(1) by (simp add: sql_inv_def)
  then have each: "wf_alist out \<and> fst ` set out \<subseteq> set ids \<and> (\<forall>i \<in> set ids. map_of out i = ix_peers (sql_view s) i)"
    if "out = fetched ids (ss_tables s)" for out
    unfolding that sql_view_def using fetched_spec [OF inv, where ids = ids] by blast
  note rd = sql_read [OF runs_operations(13) assms]
  show ?thesis using each rd [THEN conjunct2, THEN conjunct2, rule_format]
    by (intro conjI rd [THEN conjunct1] rd [THEN conjunct2, THEN conjunct1]) iprover
qed

lemma sql_location_store: "location_store (sql_methods driver) sql_inv sql_view (\<lambda>p. p) sql_clk sql_once"
  apply (unfold_locales; (simp add: sql_methods_def option.map_ident sql_once_filter)?)
  subgoal by (auto simp: sql_view_def tables_view_def scan_fields)
  subgoal by (drule (1) sql_upsert) simp
  subgoal by (drule (1) sql_heartbeat) simp
  subgoal by (drule (1) sql_get_peer) simp
  subgoal by (drule (1) sql_list) simp
  subgoal by (drule (1) sql_drop) simp
  subgoal for s now d s' r
    using sql_prune [of s now d s' r] expired_registered [of s "secs (now + neg64 d)"]
    by (cases r) (auto intro: exI [of _ "{}"] simp: ix_drop_none)
  subgoal by (drule (1) sql_put_artifact) simp
  subgoal by (drule (1) sql_get_artifact) simp
  subgoal by (drule (1) sql_report_seed) simp
  subgoal for s now k s' r using sql_read [OF runs_operations(9), of s now k s' r] sql_nodes(1) [of s k] by auto
  subgoal by (drule (1) sql_report) simp
  subgoal for s now h s' r using sql_read [OF runs_operations(10), of s now h s' r] sql_nodes(2) [of s h] by auto
  subgoal by (drule (1) sql_locate_batch) simp
  subgoal by (drule (1) sql_get_peers) simp
  done

text \<open>Cut-offs in whole seconds.\<close>

lemma cutoff_le: "0 < d \<Longrightarrow> now - t * 1000000000 \<le> d \<Longrightarrow> secs (now + neg64 d) \<le> t"
  using zdiv_mono1 [of "now - d" "t * 1000000000" 1000000000] by (simp add: secs_def neg64_def)

lemma cutoff_gt: "0 < d \<Longrightarrow> secs (now + neg64 d) * 1000000000 \<le> t \<Longrightarrow> now - t < d + 1000000000"
  using pos_mod_bound [of 1000000000 "now - d"] div_mult_mod_eq [of "now - d" 1000000000]
  by (simp add: secs_def neg64_def)

lemma viewed_row:
  assumes "ix_peers (sql_view s) i = Some p"
  obtains row where "map_of (tb_peers (ss_tables s)) i = Some row" "p = scanPeer (i, row)"
    "pr_LastHeartbeat p = Some (rw_last_heartbeat row * 1000000000)"
  using assms by (auto simp: sql_view_def tables_view_def scan_fields)

interpretation sql: metadata_store "sql_methods driver" sql_inv sql_view sql_clk sql_once
  for driver
proof (intro metadata_store.intro sql_location_store metadata_store_axioms.intro)
  fix s s' :: sql_store and now d i ps p t and n :: nat
  assume inv: "sql_inv s"
  show "p \<in> set ps" if a: "ListPeers (sql_methods driver) now d s = (s', Inr ps)" "ix_peers (sql_view s) i = Some p"
    "pr_LastHeartbeat p = Some t" "if d \<le> 0 then 0 \<le> t else now - t \<le> d"
  proof -
    have l: "sql_ListPeers now d s = (s', Inr ps)" using a(1) by (simp add: sql_methods_def)
    obtain row where row: "p = scanPeer (i, row)" "t = rw_last_heartbeat row * 1000000000"
      using viewed_row [OF a(2)] a(3) by (metis option.inject)
    have "pr_NodeID p = i" by (simp add: row(1) scan_fields)
    moreover have "(if d > 0 then secs (now + neg64 d) else 0) * 1000000000 \<le> t"
      using a(4) cutoff_le [of d now "rw_last_heartbeat row"] row(2) by (auto split: if_splits)
    ultimately show ?thesis using sql_list [OF inv l] a(2,3) by simp
  qed
  show "now - t < d + 1000000000" if "ListPeers (sql_methods driver) now d s = (s', Inr ps)" "p \<in> set ps"
    "pr_LastHeartbeat p = Some t" "0 < d" "d < 2 ^ 63 - 1"
    using sql_list [OF inv, of now d s' "Inr ps"] that cutoff_gt [of d now t] by (simp add: sql_methods_def)
  have pruned: "sql_view s' = ix_drop (set (expired_nodes (secs (now + neg64 d)) (ss_tables s))) (sql_view s)"
    if "PruneExpiredPeers (sql_methods driver) now d s = (s', Inr n)"
    using sql_prune [OF inv, of now d s' "Inr n"] that by (simp add: sql_methods_def)
  note dead = in_expired [OF inv [unfolded sql_inv_def], of _ "secs (now + neg64 d)"]
  show "ix_peers (sql_view s') i = Some p" if a: "PruneExpiredPeers (sql_methods driver) now d s = (s', Inr n)"
    "ix_peers (sql_view s) i = Some p" "pr_LastHeartbeat p = Some t" "now - t \<le> d" "0 < d"
  proof -
    obtain row where row: "map_of (tb_peers (ss_tables s)) i = Some row" "t = rw_last_heartbeat row * 1000000000"
      using viewed_row [OF a(2)] a(3) by (metis option.inject)
    then have "i \<notin> set (expired_nodes (secs (now + neg64 d)) (ss_tables s))"
      using dead [of i] cutoff_le [of d now "rw_last_heartbeat row"] a(4,5) by simp
    then show ?thesis using pruned [OF a(1)] a(2) by (simp add: ix_drop_def)
  qed
  show "now - t < d + 1000000000" if a: "PruneExpiredPeers (sql_methods driver) now d s = (s', Inr n)"
    "ix_peers (sql_view s') i = Some p" "pr_LastHeartbeat p = Some t" "0 < d" "d < 2 ^ 63 - 1"
  proof -
    have left: "i \<notin> set (expired_nodes (secs (now + neg64 d)) (ss_tables s))" "ix_peers (sql_view s) i = Some p"
      using pruned [OF a(1)] a(2) by (auto simp: ix_drop_def split: if_splits)
    obtain row where row: "map_of (tb_peers (ss_tables s)) i = Some row" "t = rw_last_heartbeat row * 1000000000"
      using viewed_row [OF left(2)] a(3) by (metis option.inject)
    then have "secs (now + neg64 d) * 1000000000 \<le> t" using dead [of i] left(1) by simp
    then show ?thesis by (rule cutoff_gt [OF a(4)])
  qed
qed

section \<open>Placeholders\<close>

lemma queryIN_postgres:
  assumes "CHR ''?'' \<notin> set prefix"
  shows "queryIN_text ''postgres'' prefix ids =
    prefix @ intercalate '','' (map (\<lambda>k. ''$'' @ show_nat k) [1..<length ids + 1]) @ '')''"
proof -
  have "queryIN_text ''postgres'' prefix ids = number_placeholders 0 (prefix @ intercalate '','' (map (\<lambda>_. ''?'') ids) @ '')'')"
    by (simp add: queryIN_text_def placeholdersPostgres_def)
  also have "\<dots> = prefix @ intercalate '','' (map (\<lambda>k. ''$'' @ show_nat k) [0 + 1..<0 + 1 + length ids]) @ number_placeholders (0 + length ids) '')''"
    by (simp only: number_append [OF assms] number_list)
  finally show ?thesis by simp
qed

section \<open>Properties\<close>


definition sample_sql :: "string \<Rightarrow> go_error option list \<Rightarrow> sql_store" where
  "sample_sql driver faults =
     \<lparr>ss_driver = driver, ss_queries = [],
      ss_tables = \<lparr>tb_peers = [(''n'', \<lparr>rw_address = ''n:1'', rw_region = [], rw_zone = [], rw_rack = [], rw_host = [],
        rw_last_heartbeat = 1, rw_status = ''HEALTHY''\<rparr>)], tb_artifacts = [], tb_artifact_seeds = [],
        tb_chunk_locations = [((''c'', ''n''), 1)]\<rparr>,
      ss_faults = faults\<rparr>"



text \<open>
  C35. Every query that the driver asks for by name is defined in the embedded file of queries: a store that
  \<open>openSQL\<close> returns never panics in \<open>q\<close>.
\<close>

theorem sql_queries_defined:
  assumes "openSQL db_at driver opts = (Inr s, calls)" and "name \<in> set used_queries"
  shows "query_text s name \<noteq> None"
proof -
  have rt: "ss_queries s' = ss_queries s" if "errorf w round_trip s = (s', x)" for w s s' x
    using that by (auto simp: errorf_def round_trip_def split: prod.splits sum.splits list.splits)
  have "ss_queries s = parseNamedQueries loadSQL_queries \<or>
      ss_queries s = map (\<lambda>(k, v). (k, placeholdersPostgres v)) (parseNamedQueries loadSQL_queries)"
    using assms(1) by (auto simp: openSQL_def Let_def split: prod.splits sum.splits if_splits dest!: rt)
  then show ?thesis using queries_defined [OF assms(2)] by (auto simp: query_text_def map_of_map)
qed

theorem sql_queries_defined_witness:
  "query_text (case openSQL (\<lambda>driver dsn. (ss_tables (sample_sql ''sqlite'' []), [])) ''pgx''
       \<lparr>so_DSN = [], so_Pool = \<lparr>po_MaxOpenConns = 0, po_MaxIdleConns = 0, po_ConnMaxLifetime = 0, po_ConnMaxIdleTime = 0\<rparr>\<rparr> of
     (Inr s, calls) \<Rightarrow> s | (Inl e, calls) \<Rightarrow> sample_sql [] []) ''UpsertChunk'' \<noteq> None"
proof -
  let ?o = "openSQL (\<lambda>driver dsn. (ss_tables (sample_sql ''sqlite'' []), [])) ''pgx''
    \<lparr>so_DSN = [], so_Pool = \<lparr>po_MaxOpenConns = 0, po_MaxIdleConns = 0, po_ConnMaxLifetime = 0, po_ConnMaxIdleTime = 0\<rparr>\<rparr>"
  obtain s calls where o: "?o = (Inr s, calls)"
    by (simp add: openSQL_def Let_def errorf_def round_trip_def)
  then show ?thesis using sql_queries_defined [OF o, of "''UpsertChunk''"] by (simp add: used_queries_def)
qed

text \<open>
  C36. The columns of times are \<open>INTEGER\<close>, which has four bytes in Postgres: from 2038-01-19 03:14:08 UTC on a tracker
  over Postgres refuses every heartbeat, and no node can stay registered, while SQLite goes on.
\<close>

theorem postgres_heartbeats_end_2038:
  assumes "ss_driver s = ''postgres''" and "2 ^ 31 * 1000000000 \<le> now"
  shows "isl (snd (sql_Heartbeat now i s)) \<and> sql_view (fst (sql_Heartbeat now i s)) = sql_view s"
proof -
  have "2 ^ 31 \<le> secs now" using zdiv_mono1 [OF assms(2), of 1000000000] by (simp add: secs_def)
  then have fails: "isl (snd (sql_Heartbeat now i s))"
    using assms(1)
    by (auto simp: sql_Heartbeat_def and_then_def errorf_def statement_def int_column_def split: prod.splits sum.splits)
  obtain s' r where h: "sql_Heartbeat now i s = (s', r)" by force
  from runsD(1) [OF runs_operations(2) h] fails h show ?thesis by (simp add: sql_view_def)
qed

theorem postgres_heartbeats_end_2038_witness:
  "isl (snd (sql_Heartbeat (2 ^ 31 * 1000000000) ''n'' (sample_sql ''postgres'' []))) \<and>
   \<not> isl (snd (sql_Heartbeat (2 ^ 31 * 1000000000) ''n'' (sample_sql ''sqlite'' [])))"
proof
  show "isl (snd (sql_Heartbeat (2 ^ 31 * 1000000000) ''n'' (sample_sql ''postgres'' [])))"
    using postgres_heartbeats_end_2038 [of "sample_sql ''postgres'' []" "2 ^ 31 * 1000000000" "''n''"] by (simp add: sample_sql_def)
  show "\<not> isl (snd (sql_Heartbeat (2 ^ 31 * 1000000000) ''n'' (sample_sql ''sqlite'' [])))" by code_simp
qed

end
