(* ===== verification/MetaCache.thy ===== *)
theory MetaCache
  imports Prelude
begin

text \<open>
  \<open>pkg/metacache\<close>: the interface \<open>Cache\<close> of the tracker's metadata cache as a table of operations, what it promises
  (locale \<open>meta_cache\<close>), the in-process driver (\<open>memory.go\<close>), the empty one (\<open>none.go\<close>) and the choice of a
  driver by name (\<open>cache.go\<close>). Values are of any type; the clock is an argument, in nanoseconds.
\<close>

record ('c, 'v) cache =
  cGet :: "int \<Rightarrow> string \<Rightarrow> 'c \<Rightarrow> 'c \<times> 'v option result"
  cSet :: "int \<Rightarrow> string \<Rightarrow> 'v \<Rightarrow> int \<Rightarrow> 'c \<Rightarrow> 'c \<times> unit result"
  cMGet :: "int \<Rightarrow> string list \<Rightarrow> 'c \<Rightarrow> 'c \<times> (string \<times> 'v) list result"
  cMSet :: "int \<Rightarrow> (string \<times> 'v) list \<Rightarrow> int \<Rightarrow> 'c \<Rightarrow> 'c \<times> unit result"
  cDelete :: "int \<Rightarrow> string \<Rightarrow> 'c \<Rightarrow> 'c \<times> unit result"
  cDeletePrefix :: "int \<Rightarrow> string \<Rightarrow> 'c \<Rightarrow> 'c \<times> unit result"

section \<open>The in-process driver\<close>

record 'v mem_entry =
  me_value :: 'v
  me_expiresAt :: int

record 'v mem_cache =
  mc_items :: "(string \<times> 'v mem_entry) list"
  mc_defaultTTL :: int

definition NewMemCache :: "int \<Rightarrow> 'v mem_cache" where
  "NewMemCache ttl = \<lparr>mc_items = [], mc_defaultTTL = (if ttl \<le> 0 then 10 * 1000000000 else ttl)\<rparr>"

text \<open>A round of the janitor.\<close>

definition janitor_round :: "int \<Rightarrow> 'v mem_cache \<Rightarrow> 'v mem_cache" where
  "janitor_round now m = m\<lparr>mc_items := filter (\<lambda>(k, e). \<not> now > me_expiresAt e) (mc_items m)\<rparr>"

definition mc_Get :: "int \<Rightarrow> string \<Rightarrow> 'v mem_cache \<Rightarrow> 'v mem_cache \<times> 'v option result" where
  "mc_Get now key m =
     (case map_of (mc_items m) key of
        None \<Rightarrow> (m, Inr None)
      | Some e \<Rightarrow>
          if now > me_expiresAt e then (m\<lparr>mc_items := AList.delete key (mc_items m)\<rparr>, Inr None)
          else (m, Inr (Some (me_value e))))"

definition mc_Set :: "int \<Rightarrow> string \<Rightarrow> 'v \<Rightarrow> int \<Rightarrow> 'v mem_cache \<Rightarrow> 'v mem_cache \<times> unit result" where
  "mc_Set now key v ttl m =
     (let ttl = (if ttl \<le> 0 then mc_defaultTTL m else ttl)
      in (m\<lparr>mc_items := AList.update key \<lparr>me_value = v, me_expiresAt = now + ttl\<rparr> (mc_items m)\<rparr>, Inr ()))"

fun mc_mget_loop ::
    "int \<Rightarrow> string list \<Rightarrow> (string \<times> 'v) list \<Rightarrow> 'v mem_cache \<Rightarrow> 'v mem_cache \<times> (string \<times> 'v) list result" where
  "mc_mget_loop now [] out m = (m, Inr out)"
| "mc_mget_loop now (k # ks) out m =
     (case mc_Get now k m of
        (m', Inl e) \<Rightarrow> (m', Inl e)
      | (m', Inr None) \<Rightarrow> mc_mget_loop now ks out m'
      | (m', Inr (Some v)) \<Rightarrow> mc_mget_loop now ks (AList.update k v out) m')"

definition mc_MGet :: "int \<Rightarrow> string list \<Rightarrow> 'v mem_cache \<Rightarrow> 'v mem_cache \<times> (string \<times> 'v) list result" where
  "mc_MGet now keys m = mc_mget_loop now keys [] m"

fun mc_MSet :: "int \<Rightarrow> (string \<times> 'v) list \<Rightarrow> int \<Rightarrow> 'v mem_cache \<Rightarrow> 'v mem_cache \<times> unit result" where
  "mc_MSet now [] ttl m = (m, Inr ())"
| "mc_MSet now ((k, v) # items) ttl m =
     (case mc_Set now k v ttl m of
        (m', Inl e) \<Rightarrow> (m', Inl e)
      | (m', Inr _) \<Rightarrow> mc_MSet now items ttl m')"

definition mc_Delete :: "int \<Rightarrow> string \<Rightarrow> 'v mem_cache \<Rightarrow> 'v mem_cache \<times> unit result" where
  "mc_Delete now key m = (m\<lparr>mc_items := AList.delete key (mc_items m)\<rparr>, Inr ())"

definition mc_DeletePrefix :: "int \<Rightarrow> string \<Rightarrow> 'v mem_cache \<Rightarrow> 'v mem_cache \<times> unit result" where
  "mc_DeletePrefix now prefix m =
     (m\<lparr>mc_items := filter (\<lambda>(k, e). \<not> has_prefix k prefix) (mc_items m)\<rparr>, Inr ())"

definition memory_cache :: "('v mem_cache, 'v) cache" where
  "memory_cache =
     \<lparr>cGet = mc_Get, cSet = mc_Set, cMGet = mc_MGet, cMSet = mc_MSet, cDelete = mc_Delete,
      cDeletePrefix = mc_DeletePrefix\<rparr>"

section \<open>The empty driver\<close>

definition Nop :: "(unit, 'v) cache" where
  "Nop =
     \<lparr>cGet = (\<lambda>now k c. (c, Inr None)), cSet = (\<lambda>now k v ttl c. (c, Inr ())), cMGet = (\<lambda>now ks c. (c, Inr [])),
      cMSet = (\<lambda>now items ttl c. (c, Inr ())), cDelete = (\<lambda>now k c. (c, Inr ())),
      cDeletePrefix = (\<lambda>now p c. (c, Inr ()))\<rparr>"

section \<open>Drivers by name\<close>

record cache_pool =
  cp_MaxOpenConns :: int
  cp_MaxIdleConns :: int
  cp_MinIdleConns :: int
  cp_ConnMaxLifetime :: int
  cp_ConnMaxIdleTime :: int
  cp_DialTimeout :: int
  cp_ReadTimeout :: int
  cp_WriteTimeout :: int
  cp_PoolTimeout :: int

record cache_options =
  co_TTL :: int
  co_URL :: string
  co_Addr :: string
  co_Password :: string
  co_DB :: int
  co_Prefix :: string
  co_Pool :: cache_pool

datatype 'v cache_driver = NopDriver | MemoryDriver "'v mem_cache" | OtherDriver string

definition cache_Register :: "string \<Rightarrow> 'f \<Rightarrow> (string \<times> 'f) list \<Rightarrow> (string \<times> 'f) list" where
  "cache_Register name fn openers = AList.update name fn openers"

definition cache_Open ::
    "(string \<times> (cache_options \<Rightarrow> 'd result)) list \<Rightarrow> string \<Rightarrow> cache_options \<Rightarrow> 'd result" where
  "cache_Open openers driver opts =
     (let opts = (if co_TTL opts \<le> 0 then opts\<lparr>co_TTL := 10 * 1000000000\<rparr> else opts);
          opts = (if co_Prefix opts = [] then opts\<lparr>co_Prefix := ''spider:''\<rparr> else opts)
      in case map_of openers driver of
           None \<Rightarrow> Inl (Err ''unknown cache driver (registered: memory, redis, none)'')
         | Some fn \<Rightarrow> fn opts)"

definition cache_init :: "(string \<times> (cache_options \<Rightarrow> 'v cache_driver result)) list" where
  "cache_init =
     cache_Register ''memory'' (\<lambda>opts. Inr (MemoryDriver (NewMemCache (co_TTL opts))))
       (cache_Register ''none'' (\<lambda>opts. Inr NopDriver) [])"

section \<open>What the interface promises\<close>

text \<open>
  \<open>look c\<close> is what the cache may still deliver. A cache may drop what it likes, at any time; it delivers no more than
  was set and not deleted since.
\<close>

locale meta_cache =
  fixes C :: "('c, 'v) cache" and look :: "'c \<Rightarrow> string \<Rightarrow> 'v option"
  assumes get: "cGet C now k c = (c', r) \<Longrightarrow> look c' \<subseteq>\<^sub>m look c \<and> (\<forall>v. r = Inr (Some v) \<longrightarrow> look c k = Some v)"
    and set: "cSet C now k v ttl c = (c', ru) \<Longrightarrow> look c' \<subseteq>\<^sub>m (look c)(k \<mapsto> v)"
    and mget: "cMGet C now ks c = (c', rm) \<Longrightarrow> look c' \<subseteq>\<^sub>m look c \<and>
      (\<forall>out. rm = Inr out \<longrightarrow> (\<forall>k v. map_of out k = Some v \<longrightarrow> k \<in> set ks \<and> look c k = Some v))"
    and mset: "wf_alist items \<Longrightarrow> cMSet C now items ttl c = (c', ru) \<Longrightarrow> look c' \<subseteq>\<^sub>m look c ++ map_of items"
    and delete: "cDelete C now k c = (c', ru) \<Longrightarrow> look c' \<subseteq>\<^sub>m (look c)(k := None)"
    and delete_prefix: "cDeletePrefix C now p c = (c', ru) \<Longrightarrow> look c' \<subseteq>\<^sub>m look c |` {k. \<not> has_prefix k p}"

definition mc_look :: "'v mem_cache \<Rightarrow> string \<Rightarrow> 'v option" where
  "mc_look m k = map_option me_value (map_of (mc_items m) k)"

lemma mc_get:
  assumes "mc_Get now k m = (m', r)"
  shows "mc_look m' \<subseteq>\<^sub>m mc_look m \<and> (\<forall>v. r = Inr (Some v) \<longrightarrow> mc_look m k = Some v) \<and> \<not> isl r"
  using assms by (auto simp: mc_Get_def mc_look_def map_le_def split: option.splits if_splits)

lemma mc_set: "mc_Set now k v ttl m = (m', r) \<Longrightarrow> mc_look m' = (mc_look m)(k \<mapsto> v) \<and> r = Inr ()"
  by (auto simp: mc_Set_def mc_look_def fun_eq_iff)

lemma mc_mget:
  assumes "mc_mget_loop now ks out m = (m', r)"
  shows "mc_look m' \<subseteq>\<^sub>m mc_look m \<and>
    (\<exists>out'. r = Inr out' \<and> (\<forall>k v. map_of out' k = Some v \<longrightarrow> map_of out k = Some v \<or> (k \<in> set ks \<and> mc_look m k = Some v)))"
  using assms
proof (induction ks arbitrary: out m)
  case (Cons k ks)
  obtain m1 x where one: "mc_Get now k m = (m1, x)" by force
  note g = mc_get [OF one]
  obtain y where x: "x = Inr y" using g by (cases x) auto
  let ?out = "case y of None \<Rightarrow> out | Some v \<Rightarrow> AList.update k v out"
  have "mc_mget_loop now ks ?out m1 = (m', r)" using Cons.prems one x by (cases y) simp_all
  note rest = Cons.IH [OF this]
  have sub: "mc_look m1 k' = Some v \<Longrightarrow> mc_look m k' = Some v" for k' v
    using g by (metis domI map_le_def)
  have "map_of ?out k' = Some v \<Longrightarrow> map_of out k' = Some v \<or> (k' = k \<and> mc_look m k' = Some v)" for k' v
    using g x by (cases y) (auto split: if_splits)
  with rest sub have "\<exists>out'. r = Inr out' \<and> (\<forall>k' v. map_of out' k' = Some v \<longrightarrow>
      map_of out k' = Some v \<or> (k' \<in> set (k # ks) \<and> mc_look m k' = Some v))"
    by (metis list.set_intros)
  moreover have "mc_look m' \<subseteq>\<^sub>m mc_look m" using rest g map_le_trans by blast
  ultimately show ?case by blast
qed auto

lemma mc_mset: "wf_alist items \<Longrightarrow> mc_MSet now items ttl m = (m', r) \<Longrightarrow> mc_look m' = mc_look m ++ map_of items"
proof (induction items arbitrary: m)
  case (Cons x items)
  obtain k v where x: "x = (k, v)" by force
  obtain m1 y where one: "mc_Set now k v ttl m = (m1, y)" by force
  note st = mc_set [OF one]
  have "mc_MSet now items ttl m1 = (m', r)" using Cons.prems(2) x one st by simp
  from Cons.IH [OF _ this] Cons.prems(1) have "mc_look m' = mc_look m1 ++ map_of items" by simp
  then have "mc_look m' = (mc_look m)(k \<mapsto> v) ++ map_of items" by (simp only: conjunct1 [OF st])
  moreover have "k \<notin> dom (map_of items)" using Cons.prems(1) x by (simp add: dom_map_of_conv_image_fst)
  ultimately show ?case by (auto simp: x fun_eq_iff map_add_def split: option.splits)
qed simp

interpretation mcache: meta_cache memory_cache mc_look
proof
  fix now ttl and k p :: string and c c' :: "'a mem_cache" and v :: 'a and r ru rm ks and items :: "(string \<times> 'a) list"
  show "cGet memory_cache now k c = (c', r) \<Longrightarrow> mc_look c' \<subseteq>\<^sub>m mc_look c \<and> (\<forall>v. r = Inr (Some v) \<longrightarrow> mc_look c k = Some v)"
    using mc_get [of now k c c' r] by (simp add: memory_cache_def)
  show "cSet memory_cache now k v ttl c = (c', ru) \<Longrightarrow> mc_look c' \<subseteq>\<^sub>m (mc_look c)(k \<mapsto> v)"
    using mc_set [of now k v ttl c c' ru] by (simp add: memory_cache_def)
  show "cMGet memory_cache now ks c = (c', rm) \<Longrightarrow> mc_look c' \<subseteq>\<^sub>m mc_look c \<and>
      (\<forall>out. rm = Inr out \<longrightarrow> (\<forall>k v. map_of out k = Some v \<longrightarrow> k \<in> set ks \<and> mc_look c k = Some v))"
    using mc_mget [of now ks "[]" c c' rm] by (auto simp: memory_cache_def mc_MGet_def)
  show "wf_alist items \<Longrightarrow> cMSet memory_cache now items ttl c = (c', ru) \<Longrightarrow> mc_look c' \<subseteq>\<^sub>m mc_look c ++ map_of items"
    using mc_mset [of items now ttl c c' ru] by (simp add: memory_cache_def)
  show "cDelete memory_cache now k c = (c', ru) \<Longrightarrow> mc_look c' \<subseteq>\<^sub>m (mc_look c)(k := None)"
    by (auto simp: memory_cache_def mc_Delete_def mc_look_def map_le_def)
  have "map_of (filter (\<lambda>(k, e). \<not> has_prefix k p) m) k = (if has_prefix k p then None else map_of m k)"
    for m :: "(string \<times> 'a mem_entry) list" and k
    by (induction m) auto
  then show "cDeletePrefix memory_cache now p c = (c', ru) \<Longrightarrow> mc_look c' \<subseteq>\<^sub>m mc_look c |` {k. \<not> has_prefix k p}"
    by (auto simp: memory_cache_def mc_DeletePrefix_def mc_look_def map_le_def restrict_map_def)
qed

interpretation nop: meta_cache Nop "\<lambda>c k. None"
  by unfold_locales (auto simp: Nop_def)

text \<open>A round of the janitor drops only what \<open>Get\<close> no longer delivers.\<close>

lemma janitor_invisible:
  assumes "wf_alist (mc_items m)" and "now \<le> t"
  shows "snd (mc_Get t k (janitor_round now m)) = snd (mc_Get t k m)"
proof -
  have "map_of (filter (\<lambda>(k, e). \<not> now > me_expiresAt e) m') k =
      (case map_of m' k of None \<Rightarrow> None | Some e \<Rightarrow> if now > me_expiresAt e then None else Some e)"
    if "wf_alist m'" for m' :: "(string \<times> 'a mem_entry) list"
    using that by (induction m') (auto split: option.splits simp: rev_image_eqI dest: map_of_SomeD)
  from this [OF assms(1)] assms(2) show ?thesis
    by (auto simp: mc_Get_def janitor_round_def split: option.splits)
qed

end
