(* ===== verification/CachedStore.thy ===== *)
theory CachedStore
  imports Tracker SqlStore MetaCache
begin

text \<open>
  \<open>pkg/store/cached.go\<close>: the read-through cache in front of any store, and the encoding helpers of
  \<open>store.go\<close> it uses. A cached value is kept as the value it encodes, since JSON gives back what it was given for
  these records (their strings are the UTF-8 of protocol messages); a value of the wrong kind does not decode. The contract of the inner store and that of the cache
  give the contract \<open>location_store\<close> for the whole, with peers shown up to their heartbeat.
\<close>

section \<open>Cached values\<close>

datatype cval = CPeer peer | CPeers "peer list" | CArtifact artifact_record | CStrings "string list"

definition unmarshalPeer :: "cval \<Rightarrow> peer result" where
  "unmarshalPeer v = (case v of CPeer p \<Rightarrow> Inr p | _ \<Rightarrow> Inl (Err ''json: cannot unmarshal''))"

definition unmarshalArtifact :: "cval \<Rightarrow> artifact_record result" where
  "unmarshalArtifact v = (case v of CArtifact a \<Rightarrow> Inr a | _ \<Rightarrow> Inl (Err ''json: cannot unmarshal''))"

text \<open>\<open>unmarshalStrings\<close> and the list of peers drop the error and keep the zero value.\<close>

definition unmarshalStrings :: "cval \<Rightarrow> string list" where
  "unmarshalStrings v = (case v of CStrings ss \<Rightarrow> ss | _ \<Rightarrow> [])"

definition unmarshalPeers :: "cval \<Rightarrow> peer list" where
  "unmarshalPeers v = (case v of CPeers ps \<Rightarrow> ps | _ \<Rightarrow> [])"

section \<open>The store\<close>

definition keyPeerPrefix :: string where "keyPeerPrefix = ''peer:''"
definition keyPeersList :: string where "keyPeersList = ''peers:list''"
definition keyArtifactPrefix :: string where "keyArtifactPrefix = ''artifact:''"
definition keySeedsPrefix :: string where "keySeedsPrefix = ''seeds:''"
definition keyLocatePrefix :: string where "keyLocatePrefix = ''locate:''"
definition keyChunksPrefix :: string where "keyChunksPrefix = ''chunks:''"

record ('s, 'c) cached =
  cs_inner :: 's
  cs_cache :: 'c
  cs_ttl :: int
  cs_hbEvery :: int
  cs_lastHBFlush :: "(string \<times> int) list"


text \<open>Calls of the inner store and of the cache.\<close>

definition inner_call :: "('s \<Rightarrow> 's \<times> 'a) \<Rightarrow> ('s, 'c) cached \<Rightarrow> ('s, 'c) cached \<times> 'a" where
  "inner_call op c = (case op (cs_inner c) of (s, x) \<Rightarrow> (c\<lparr>cs_inner := s\<rparr>, x))"

definition cache_call :: "('c \<Rightarrow> 'c \<times> 'a) \<Rightarrow> ('s, 'c) cached \<Rightarrow> ('s, 'c) cached \<times> 'a" where
  "cache_call op c = (case op (cs_cache c) of (m, x) \<Rightarrow> (c\<lparr>cs_cache := m\<rparr>, x))"

text \<open>A call of the cache whose result is dropped.\<close>

definition quietly :: "('c \<Rightarrow> 'c \<times> 'a) \<Rightarrow> ('s, 'c) cached \<Rightarrow> ('s, 'c) cached" where
  "quietly op c = fst (cache_call op c)"

definition cached_UpsertPeer ::
    "'s store \<Rightarrow> ('c, cval) cache \<Rightarrow> int \<Rightarrow> peer \<Rightarrow> ('s, 'c) cached \<Rightarrow> ('s, 'c) cached \<times> unit result" where
  "cached_UpsertPeer S C now peer c =
     (case inner_call (UpsertPeer S now peer) c of
        (c, Inl e) \<Rightarrow> (c, Inl e)
      | (c, Inr _) \<Rightarrow>
          (quietly (cDelete C now keyPeersList) (quietly (cDelete C now (keyPeerPrefix @ pr_NodeID peer)) c), Inr ()))"

definition refresh_peer ::
    "('c, cval) cache \<Rightarrow> int \<Rightarrow> string \<Rightarrow> ('s, 'c) cached \<Rightarrow> ('s, 'c) cached \<times> bool" where
  "refresh_peer C now nodeID c =
     (case cache_call (cGet C now (keyPeerPrefix @ nodeID)) c of
        (c, Inr (Some raw)) \<Rightarrow>
          (case unmarshalPeer raw of
             Inl e \<Rightarrow> (c, False)
           | Inr p \<Rightarrow>
               (quietly (cSet C now (keyPeerPrefix @ nodeID) (CPeer (p\<lparr>pr_LastHeartbeat := Some now\<rparr>)) (cs_ttl c)) c, True))
      | (c, _) \<Rightarrow> (c, False))"

definition cached_Heartbeat ::
    "'s store \<Rightarrow> ('c, cval) cache \<Rightarrow> int \<Rightarrow> string \<Rightarrow> ('s, 'c) cached \<Rightarrow> ('s, 'c) cached \<times> bool result" where
  "cached_Heartbeat S C now nodeID c =
     (let flush = time_Sub now (map_of (cs_lastHBFlush c) nodeID) \<ge> cs_hbEvery c;
          c = (if flush then c\<lparr>cs_lastHBFlush := AList.update nodeID now (cs_lastHBFlush c)\<rparr> else c);
          (c, hit) = (if flush then (c, False) else refresh_peer C now nodeID c)
      in if hit then (c, Inr True)
         else case inner_call (Heartbeat S now nodeID) c of
             (c, Inl e) \<Rightarrow> (c, Inl e)
           | (c, Inr ok) \<Rightarrow> if \<not> ok then (c, Inr ok) else (fst (refresh_peer C now nodeID c), Inr True))"

definition cached_GetPeer ::
    "'s store \<Rightarrow> ('c, cval) cache \<Rightarrow> int \<Rightarrow> string \<Rightarrow> ('s, 'c) cached \<Rightarrow> ('s, 'c) cached \<times> peer option result" where
  "cached_GetPeer S C now nodeID c =
     (case cache_call (cGet C now (keyPeerPrefix @ nodeID)) c of
        (c, Inr (Some raw)) \<Rightarrow> (c, case unmarshalPeer raw of Inl e \<Rightarrow> Inl e | Inr p \<Rightarrow> Inr (Some p))
      | (c, _) \<Rightarrow>
          (case inner_call (GetPeer S now nodeID) c of
             (c, Inr (Some p)) \<Rightarrow>
               (quietly (cSet C now (keyPeerPrefix @ nodeID) (CPeer p) (cs_ttl c)) c, Inr (Some p))
           | (c, r) \<Rightarrow> (c, r)))"

definition filterExpiry :: "int \<Rightarrow> peer list \<Rightarrow> int \<Rightarrow> peer list" where
  "filterExpiry now peers expiry =
     (if expiry \<le> 0 then peers else filter (\<lambda>p. time_Sub now (pr_LastHeartbeat p) \<le> expiry) peers)"

definition cached_ListPeers ::
    "'s store \<Rightarrow> ('c, cval) cache \<Rightarrow> int \<Rightarrow> int \<Rightarrow> ('s, 'c) cached \<Rightarrow> ('s, 'c) cached \<times> peer list result" where
  "cached_ListPeers S C now expiry c =
     (case cache_call (cGet C now keyPeersList) c of
        (c, Inr (Some raw)) \<Rightarrow> (c, Inr (filterExpiry now (unmarshalPeers raw) expiry))
      | (c, _) \<Rightarrow>
          (case inner_call (ListPeers S now 0) c of
             (c, Inl e) \<Rightarrow> (c, Inl e)
           | (c, Inr peers) \<Rightarrow>
               (quietly (cSet C now keyPeersList (CPeers peers) (cs_ttl c)) c, Inr (filterExpiry now peers expiry))))"

definition drop_prefixes :: "('c, cval) cache \<Rightarrow> int \<Rightarrow> string list \<Rightarrow> ('s, 'c) cached \<Rightarrow> ('s, 'c) cached" where
  "drop_prefixes C now ps c = fold (\<lambda>p. quietly (cDeletePrefix C now p)) ps c"

definition cached_DeregisterPeer ::
    "'s store \<Rightarrow> ('c, cval) cache \<Rightarrow> int \<Rightarrow> string \<Rightarrow> ('s, 'c) cached \<Rightarrow> ('s, 'c) cached \<times> unit result" where
  "cached_DeregisterPeer S C now nodeID c =
     (case inner_call (DeregisterPeer S now nodeID) c of
        (c, Inl e) \<Rightarrow> (c, Inl e)
      | (c, Inr _) \<Rightarrow>
          let c = quietly (cDelete C now (keyPeerPrefix @ nodeID)) c;
              c = quietly (cDelete C now keyPeersList) c
          in (drop_prefixes C now [keySeedsPrefix, keyLocatePrefix, keyChunksPrefix] c, Inr ()))"

definition cached_PruneExpiredPeers ::
    "'s store \<Rightarrow> ('c, cval) cache \<Rightarrow> int \<Rightarrow> int \<Rightarrow> ('s, 'c) cached \<Rightarrow> ('s, 'c) cached \<times> nat result" where
  "cached_PruneExpiredPeers S C now expiry c =
     (case inner_call (PruneExpiredPeers S now expiry) c of
        (c, Inl e) \<Rightarrow> (c, Inl e)
      | (c, Inr n) \<Rightarrow>
          if n = 0 then (c, Inr n)
          else (drop_prefixes C now [keyPeerPrefix, keySeedsPrefix, keyLocatePrefix, keyChunksPrefix]
                  (quietly (cDelete C now keyPeersList) c), Inr n))"

definition cached_PutArtifact ::
    "'s store \<Rightarrow> ('c, cval) cache \<Rightarrow> int \<Rightarrow> artifact_record \<Rightarrow> ('s, 'c) cached \<Rightarrow> ('s, 'c) cached \<times> unit result" where
  "cached_PutArtifact S C now rec c =
     (case inner_call (PutArtifact S now rec) c of
        (c, Inl e) \<Rightarrow> (c, Inl e)
      | (c, Inr _) \<Rightarrow> (quietly (cDelete C now (keyArtifactPrefix @ ar_ArtifactID rec)) c, Inr ()))"

definition cached_GetArtifact ::
    "'s store \<Rightarrow> ('c, cval) cache \<Rightarrow> int \<Rightarrow> string \<Rightarrow> ('s, 'c) cached \<Rightarrow>
     ('s, 'c) cached \<times> artifact_record option result" where
  "cached_GetArtifact S C now artifactID c =
     (case cache_call (cGet C now (keyArtifactPrefix @ artifactID)) c of
        (c, Inr (Some raw)) \<Rightarrow> (c, case unmarshalArtifact raw of Inl e \<Rightarrow> Inl e | Inr a \<Rightarrow> Inr (Some a))
      | (c, _) \<Rightarrow>
          (case inner_call (GetArtifact S now artifactID) c of
             (c, Inr (Some a)) \<Rightarrow>
               (quietly (cSet C now (keyArtifactPrefix @ artifactID) (CArtifact a) (cs_ttl c)) c, Inr (Some a))
           | (c, r) \<Rightarrow> (c, r)))"

definition cached_ReportSeed ::
    "'s store \<Rightarrow> ('c, cval) cache \<Rightarrow> int \<Rightarrow> string \<Rightarrow> string \<Rightarrow> ('s, 'c) cached \<Rightarrow> ('s, 'c) cached \<times> unit result" where
  "cached_ReportSeed S C now artifactID nodeID c =
     (case inner_call (ReportSeed S now artifactID nodeID) c of
        (c, Inl e) \<Rightarrow> (c, Inl e)
      | (c, Inr _) \<Rightarrow>
          (quietly (cDelete C now (keyLocatePrefix @ artifactID)) (quietly (cDelete C now (keySeedsPrefix @ artifactID)) c),
           Inr ()))"

definition cached_strings ::
    "('c, cval) cache \<Rightarrow> int \<Rightarrow> string \<Rightarrow> ('s \<Rightarrow> 's \<times> string list result) \<Rightarrow> ('s, 'c) cached \<Rightarrow>
     ('s, 'c) cached \<times> string list result" where
  "cached_strings C now key op c =
     (case cache_call (cGet C now key) c of
        (c, Inr (Some raw)) \<Rightarrow> (c, Inr (unmarshalStrings raw))
      | (c, _) \<Rightarrow>
          (case inner_call op c of
             (c, Inl e) \<Rightarrow> (c, Inl e)
           | (c, Inr ids) \<Rightarrow> (quietly (cSet C now key (CStrings ids) (cs_ttl c)) c, Inr ids)))"

definition cached_ListSeeds ::
    "'s store \<Rightarrow> ('c, cval) cache \<Rightarrow> int \<Rightarrow> string \<Rightarrow> ('s, 'c) cached \<Rightarrow> ('s, 'c) cached \<times> string list result" where
  "cached_ListSeeds S C now artifactID = cached_strings C now (keySeedsPrefix @ artifactID) (ListSeeds S now artifactID)"

definition cached_ReportChunks ::
    "'s store \<Rightarrow> ('c, cval) cache \<Rightarrow> int \<Rightarrow> string \<Rightarrow> string list \<Rightarrow> ('s, 'c) cached \<Rightarrow> ('s, 'c) cached \<times> int result" where
  "cached_ReportChunks S C now nodeID hashes c =
     (case inner_call (ReportChunks S now nodeID hashes) c of
        (c, Inl e) \<Rightarrow> (c, Inl e)
      | (c, Inr n) \<Rightarrow> (fold (\<lambda>h. quietly (cDelete C now (keyChunksPrefix @ h))) hashes c, Inr n))"

definition cached_LocateChunkNodes ::
    "'s store \<Rightarrow> ('c, cval) cache \<Rightarrow> int \<Rightarrow> string \<Rightarrow> ('s, 'c) cached \<Rightarrow> ('s, 'c) cached \<times> string list result" where
  "cached_LocateChunkNodes S C now hash = cached_strings C now (keyChunksPrefix @ hash) (LocateChunkNodes S now hash)"

definition cached_LocateChunkNodesBatch ::
    "'s store \<Rightarrow> ('c, cval) cache \<Rightarrow> int \<Rightarrow> string list \<Rightarrow> ('s, 'c) cached \<Rightarrow>
     ('s, 'c) cached \<times> (string \<times> string list) list result" where
  "cached_LocateChunkNodesBatch S C now hashes c =
     (if hashes = [] then (c, Inr [])
      else case cache_call (cMGet C now (map (\<lambda>h. keyChunksPrefix @ h) hashes)) c of
          (c, Inl e) \<Rightarrow> (c, Inl e)
        | (c, Inr got) \<Rightarrow>
            let misses = filter (\<lambda>h. map_of got (keyChunksPrefix @ h) = None) hashes;
                out = fold (\<lambda>h out. case map_of got (keyChunksPrefix @ h) of
                        None \<Rightarrow> out | Some raw \<Rightarrow> AList.update h (unmarshalStrings raw) out) hashes []
            in if misses = [] then (c, Inr out)
               else case inner_call (LocateChunkNodesBatch S now misses) c of
                   (c, Inl e) \<Rightarrow> (c, Inl e)
                 | (c, Inr inner) \<Rightarrow>
                     (quietly (cMSet C now (map (\<lambda>(h, ids). (keyChunksPrefix @ h, CStrings ids)) inner) (cs_ttl c)) c,
                      Inr (fold (\<lambda>(h, ids). AList.update h ids) inner out)))"

definition cached_GetPeersBatch ::
    "'s store \<Rightarrow> ('c, cval) cache \<Rightarrow> int \<Rightarrow> string list \<Rightarrow> ('s, 'c) cached \<Rightarrow>
     ('s, 'c) cached \<times> (string \<times> peer) list result" where
  "cached_GetPeersBatch S C now nodeIDs c =
     (if nodeIDs = [] then (c, Inr [])
      else case cache_call (cMGet C now (map (\<lambda>i. keyPeerPrefix @ i) nodeIDs)) c of
          (c, Inl e) \<Rightarrow> (c, Inl e)
        | (c, Inr got) \<Rightarrow>
            let misses = filter (\<lambda>i. map_of got (keyPeerPrefix @ i) = None) nodeIDs;
                out = fold (\<lambda>i out. case map_of got (keyPeerPrefix @ i) of
                        None \<Rightarrow> out
                      | Some raw \<Rightarrow> (case unmarshalPeer raw of Inl e \<Rightarrow> out | Inr p \<Rightarrow> AList.update i p out)) nodeIDs []
            in if misses = [] then (c, Inr out)
               else case inner_call (GetPeersBatch S now misses) c of
                   (c, Inl e) \<Rightarrow> (c, Inl e)
                 | (c, Inr inner) \<Rightarrow>
                     (quietly (cMSet C now (map (\<lambda>(i, p). (keyPeerPrefix @ i, CPeer p)) inner) (cs_ttl c)) c,
                      Inr (fold (\<lambda>(i, p). AList.update i p) inner out)))"

definition cached_store :: "'s store \<Rightarrow> ('c, cval) cache \<Rightarrow> ('s, 'c) cached store" where
  "cached_store S C =
     \<lparr>Name = Name S, Ping = (\<lambda>c. Ping S (cs_inner c)), UpsertPeer = cached_UpsertPeer S C,
      Heartbeat = cached_Heartbeat S C, GetPeer = cached_GetPeer S C, ListPeers = cached_ListPeers S C,
      DeregisterPeer = cached_DeregisterPeer S C, PruneExpiredPeers = cached_PruneExpiredPeers S C,
      PutArtifact = cached_PutArtifact S C, GetArtifact = cached_GetArtifact S C,
      ReportSeed = cached_ReportSeed S C, ListSeeds = cached_ListSeeds S C,
      ReportChunks = cached_ReportChunks S C, LocateChunkNodes = cached_LocateChunkNodes S C,
      LocateChunkNodesBatch = cached_LocateChunkNodesBatch S C, GetPeersBatch = cached_GetPeersBatch S C\<rparr>"

section \<open>Coherence\<close>

lemmas key_defs = keyPeerPrefix_def keyPeersList_def keyArtifactPrefix_def keySeedsPrefix_def keyLocatePrefix_def keyChunksPrefix_def

text \<open>\<open>fits u ix k v\<close>: the value \<open>v\<close> under the key \<open>k\<close> says what the index \<open>ix\<close> says, up to heartbeats; \<open>u\<close> asks for
  holders without repetition.\<close>

definition fits :: "bool \<Rightarrow> index \<Rightarrow> string \<Rightarrow> cval \<Rightarrow> bool" where
  "fits u ix k v =
     ((\<forall>i. k = keyPeerPrefix @ i \<longrightarrow> (\<exists>p. v = CPeer p \<and> map_option forget (ix_peers ix i) = Some (forget p))) \<and>
      (k = keyPeersList \<longrightarrow> (\<exists>ps. v = CPeers ps \<and> distinct (map pr_NodeID ps) \<and>
         (\<forall>p \<in> set ps. map_option forget (ix_peers ix (pr_NodeID p)) = Some (forget p)))) \<and>
      (\<forall>a. k = keyArtifactPrefix @ a \<longrightarrow> (\<exists>rec. v = CArtifact rec \<and> ix_arts ix a = Some rec)) \<and>
      (\<forall>a. k = keySeedsPrefix @ a \<longrightarrow> (\<exists>ids. v = CStrings ids \<and> distinct ids \<and> set ids = ix_seeds ix a)) \<and>
      (\<forall>h. k = keyChunksPrefix @ h \<longrightarrow> (\<exists>ids. v = CStrings ids \<and> (u \<longrightarrow> distinct ids) \<and> set ids = ix_chunks ix h)))"

lemma fits_keys:
  "fits u ix (keyPeerPrefix @ i) v = (\<exists>p. v = CPeer p \<and> map_option forget (ix_peers ix i) = Some (forget p))"
  "fits u ix keyPeersList v = (\<exists>ps. v = CPeers ps \<and> distinct (map pr_NodeID ps) \<and>
     (\<forall>p \<in> set ps. map_option forget (ix_peers ix (pr_NodeID p)) = Some (forget p)))"
  "fits u ix (keyArtifactPrefix @ a) v = (\<exists>rec. v = CArtifact rec \<and> ix_arts ix a = Some rec)"
  "fits u ix (keySeedsPrefix @ a) v = (\<exists>ids. v = CStrings ids \<and> distinct ids \<and> set ids = ix_seeds ix a)"
  "fits u ix (keyChunksPrefix @ h) v = (\<exists>ids. v = CStrings ids \<and> (u \<longrightarrow> distinct ids) \<and> set ids = ix_chunks ix h)"
  by (simp_all add: fits_def key_defs)

lemma fits_seen: "seen forget ix = seen forget ix' \<Longrightarrow> fits u ix = fits u ix'"
proof -
  assume "seen forget ix = seen forget ix'"
  then have "ix_arts ix = ix_arts ix'" "ix_seeds ix = ix_seeds ix'" "ix_chunks ix = ix_chunks ix'"
    "map_option forget (ix_peers ix i) = map_option forget (ix_peers ix' i)" for i
    by (auto simp: seen_def dest: arg_cong [of _ _ ix_arts] arg_cong [of _ _ ix_seeds] arg_cong [of _ _ ix_chunks]
        arg_cong [of _ _ "\<lambda>ix. ix_peers ix i"])
  then show ?thesis by (simp add: fits_def fun_eq_iff)
qed

text \<open>The keys that a change of the index invalidates.\<close>

lemma fits_upsert:
  "fits u ix k v \<Longrightarrow> k \<notin> {keyPeerPrefix @ pr_NodeID p, keyPeersList} \<Longrightarrow> fits u (ix_upsert clk now p ix) k v"
  by (auto simp: fits_def ix_upsert_def Let_def)

lemma forget_touch: "seen forget (ix_touch clk now i ix) = seen forget ix"
  by (auto simp: ix_touch_def seen_def forget_def fun_eq_iff split: option.splits)

lemma fits_drop:
  "fits u ix k v \<Longrightarrow> \<not> has_prefix k keySeedsPrefix \<Longrightarrow> \<not> has_prefix k keyChunksPrefix \<Longrightarrow> k \<noteq> keyPeersList \<Longrightarrow>
   (\<And>i. i \<in> dead \<Longrightarrow> k \<noteq> keyPeerPrefix @ i) \<Longrightarrow> fits u (ix_drop dead ix) k v"
  by (auto simp: fits_def ix_drop_def)

lemma fits_put: "fits u ix k v \<Longrightarrow> k \<noteq> keyArtifactPrefix @ ar_ArtifactID a \<Longrightarrow>
  fits u (ix\<lparr>ix_arts := (ix_arts ix)(ar_ArtifactID a \<mapsto> a)\<rparr>) k v"
  by (auto simp: fits_def)

lemma fits_seed: "fits u ix k v \<Longrightarrow> k \<noteq> keySeedsPrefix @ a \<Longrightarrow> fits u (ix_seed a i ix) k v"
  by (auto simp: fits_def ix_seed_def)

lemma fits_report: "fits u ix k v \<Longrightarrow> k \<notin> (\<lambda>h. keyChunksPrefix @ h) ` set hs \<Longrightarrow> fits u (ix_report i hs ix) k v"
  by (auto simp: fits_def ix_report_def)

text \<open>\<open>coh X u ix m\<close>: what the cache may deliver fits, the keys \<open>X\<close> apart.\<close>

definition coh :: "string set \<Rightarrow> bool \<Rightarrow> index \<Rightarrow> (string \<Rightarrow> cval option) \<Rightarrow> bool" where
  "coh X u ix m = (\<forall>k v. m k = Some v \<longrightarrow> k \<notin> X \<longrightarrow> fits u ix k v)"

lemma coh_mono: "m' \<subseteq>\<^sub>m m \<Longrightarrow> coh X u ix m \<Longrightarrow> coh X u ix m'"
  by (metis coh_def domI map_le_def)

lemma coh_delete: "m' \<subseteq>\<^sub>m m(k := None) \<Longrightarrow> coh (insert k X) u ix m \<Longrightarrow> coh X u ix m'"
  by (rule coh_mono, assumption) (auto simp: coh_def)

lemma coh_delete_prefix:
  "m' \<subseteq>\<^sub>m m |` {k. \<not> has_prefix k p} \<Longrightarrow> coh (X \<union> {k. has_prefix k p}) u ix m \<Longrightarrow> coh X u ix m'"
  by (rule coh_mono, assumption) (auto simp: coh_def restrict_map_def)

lemma coh_set: "m' \<subseteq>\<^sub>m m(k \<mapsto> v) \<Longrightarrow> coh X u ix m \<Longrightarrow> fits u ix k v \<Longrightarrow> coh X u ix m'"
  by (rule coh_mono, assumption) (auto simp: coh_def)

lemma coh_mset:
  "m' \<subseteq>\<^sub>m m ++ map_of items \<Longrightarrow> coh X u ix m \<Longrightarrow> \<forall>(k, v) \<in> set items. fits u ix k v \<Longrightarrow> coh X u ix m'"
  by (rule coh_mono, assumption) (auto simp: coh_def map_add_Some_iff dest!: map_of_SomeD)

lemma coh_change:
  "coh {} u ix m \<Longrightarrow> (\<And>k v. fits u ix k v \<Longrightarrow> k \<notin> X \<Longrightarrow> fits u ix' k v) \<Longrightarrow> coh X u ix' m"
  by (auto simp: coh_def)

text \<open>The maps that the batch operations build.\<close>

lemma fold_hits:
  "wf_alist out \<Longrightarrow> wf_alist (fold (\<lambda>h out. case g h of None \<Rightarrow> out | Some raw \<Rightarrow> AList.update h (f raw) out) hs out)"
  "map_of (fold (\<lambda>h out. case g h of None \<Rightarrow> out | Some raw \<Rightarrow> AList.update h (f raw) out) hs out) k =
     (if k \<in> set hs \<and> g k \<noteq> None then Some (f (the (g k))) else map_of out k)"
proof -
  show "wf_alist out \<Longrightarrow> wf_alist (fold (\<lambda>h out. case g h of None \<Rightarrow> out | Some raw \<Rightarrow> AList.update h (f raw) out) hs out)"
    by (induction hs arbitrary: out) (auto split: option.splits)
  show "map_of (fold (\<lambda>h out. case g h of None \<Rightarrow> out | Some raw \<Rightarrow> AList.update h (f raw) out) hs out) k =
     (if k \<in> set hs \<and> g k \<noteq> None then Some (f (the (g k))) else map_of out k)"
    by (induction hs arbitrary: out) (auto split: option.splits)
qed

lemma fold_overwrite:
  "wf_alist out \<Longrightarrow> wf_alist (fold (\<lambda>(h, x). AList.update h x) m out)"
  "wf_alist m \<Longrightarrow> map_of (fold (\<lambda>(h, x). AList.update h x) m out) = map_of out ++ map_of m"
proof -
  show "wf_alist out \<Longrightarrow> wf_alist (fold (\<lambda>(h, x). AList.update h x) m out)"
    by (induction m arbitrary: out) auto
  show "wf_alist m \<Longrightarrow> map_of (fold (\<lambda>(h, x). AList.update h x) m out) = map_of out ++ map_of m"
  proof (induction m arbitrary: out)
    case (Cons y m)
    then have "fst y \<notin> dom (map_of m)" by (simp add: dom_map_of_conv_image_fst)
    with Cons show ?case by (cases y) (auto simp: fun_eq_iff map_add_def split: option.splits)
  qed simp
qed

lemma batch_items:
  assumes "wf_alist m" and "fst ` set m \<subseteq> set misses" and "\<And>h. h \<in> set misses \<Longrightarrow> R h (map_of m h)" and "inj key"
    and "\<And>h x. R h (Some x) \<Longrightarrow> F (key h) (enc x)"
  shows "wf_alist (map (\<lambda>(h, x). (key h, enc x)) m) \<and> (\<forall>(k, v) \<in> set (map (\<lambda>(h, x). (key h, enc x)) m). F k v)"
proof -
  have "map fst (map (\<lambda>(h, x). (key h, enc x)) m) = map key (map fst m)" by (simp add: case_prod_beta)
  moreover have "distinct (map key (map fst m))" using assms(1) inj_on_subset [OF assms(4)] by (simp only: distinct_map) simp
  moreover have "F (key h) (enc x)" if e: "(h, x) \<in> set m" for h x
  proof -
    have "map_of m h = Some x" "h \<in> set misses" using e assms(1,2) by (auto simp: rev_image_eqI)
    then show ?thesis using assms(3) [of h] assms(5) by simp
  qed
  ultimately show ?thesis by (simp only: set_map) auto
qed

lemma batch_out:
  assumes "wf_alist out" and "fst ` set out \<subseteq> set hs" and "wf_alist m" and "fst ` set m \<subseteq> set misses"
    and "\<And>h. h \<in> set misses \<Longrightarrow> R h (map_of m h)" and "set misses \<subseteq> set hs"
    and "\<And>h. h \<in> set misses \<Longrightarrow> map_of out h = None" and "\<And>h. h \<in> set hs \<Longrightarrow> h \<notin> set misses \<Longrightarrow> R h (map_of out h)"
  shows "wf_alist (fold (\<lambda>(h, x). AList.update h x) m out) \<and>
    fst ` set (fold (\<lambda>(h, x). AList.update h x) m out) \<subseteq> set hs \<and>
    (\<forall>h \<in> set hs. R h (map_of (fold (\<lambda>(h, x). AList.update h x) m out) h))"
proof -
  note at = fold_overwrite(2) [OF assms(3), of out]
  have dom: "dom (map_of m) \<subseteq> set misses" "dom (map_of out) \<subseteq> set hs"
    using assms(2,4) by (simp_all only: dom_map_of_conv_image_fst)
  have "R h ((map_of out ++ map_of m) h)" if "h \<in> set hs" for h
  proof (cases "h \<in> set misses")
    case True
    then show ?thesis using assms(5) [OF True] assms(7) [OF True] by (cases "map_of m h") (simp_all add: map_add_def)
  next
    case False
    then have "map_of m h = None" using dom(1) by blast
    then show ?thesis using assms(8) [OF that False] by (simp add: map_add_def)
  qed
  moreover have "fst ` set (fold (\<lambda>(h, x). AList.update h x) m out) \<subseteq> set hs"
    unfolding dom_map_of_conv_image_fst [symmetric] at using dom assms(6) by (auto simp: dom_map_add)
  ultimately show ?thesis using fold_overwrite(1) [OF assms(1)] at by simp
qed

lemma answered_entries:
  "wf_alist m \<Longrightarrow> fst ` set m = set hs \<Longrightarrow> \<forall>(h, ids) \<in> set m. P h ids \<Longrightarrow>
     \<forall>h \<in> set hs. \<exists>ids. map_of m h = Some ids \<and> P h ids"
  "wf_alist m \<Longrightarrow> fst ` set m \<subseteq> set hs \<Longrightarrow> \<forall>h \<in> set hs. \<exists>ids. map_of m h = Some ids \<and> P h ids \<Longrightarrow>
     fst ` set m = set hs \<and> (\<forall>(h, ids) \<in> set m. P h ids)"
proof -
  assume m: "wf_alist m" "fst ` set m = set hs" "\<forall>(h, ids) \<in> set m. P h ids"
  show "\<forall>h \<in> set hs. \<exists>ids. map_of m h = Some ids \<and> P h ids"
  proof
    fix h assume "h \<in> set hs"
    then have "h \<in> dom (map_of m)" using m(2) by (simp add: dom_map_of_conv_image_fst)
    then obtain ids where "map_of m h = Some ids" by blast
    moreover then have "P h ids" using m(3) map_of_SomeD by fastforce
    ultimately show "\<exists>ids. map_of m h = Some ids \<and> P h ids" by blast
  qed
next
  assume m: "wf_alist m" "fst ` set m \<subseteq> set hs" "\<forall>h \<in> set hs. \<exists>ids. map_of m h = Some ids \<and> P h ids"
  have "set hs \<subseteq> dom (map_of m)" using m(3) by blast
  then have "fst ` set m = set hs" using m(2) by (simp add: dom_map_of_conv_image_fst)
  moreover have "P h ids" if e: "(h, ids) \<in> set m" for h ids
  proof -
    have "map_of m h = Some ids" using in_set_map_of [OF m(1)] e by blast
    moreover have "h \<in> set hs" using m(2) e by (metis image_subset_iff fst_conv)
    ultimately show ?thesis using m(3) by force
  qed
  ultimately show "fst ` set m = set hs \<and> (\<forall>(h, ids) \<in> set m. P h ids)" by blast
qed

section \<open>A store behind a cache keeps the contract\<close>

definition cached_ok ::
    "('s \<Rightarrow> bool) \<Rightarrow> ('s \<Rightarrow> index) \<Rightarrow> ('c \<Rightarrow> string \<Rightarrow> cval option) \<Rightarrow> bool \<Rightarrow> string set \<Rightarrow> ('s, 'c) cached \<Rightarrow> bool" where
  "cached_ok I V look u X c = (I (cs_inner c) \<and> coh X u (V (cs_inner c)) (look (cs_cache c)))"

definition cached_view :: "('s \<Rightarrow> index) \<Rightarrow> ('s, 'c) cached \<Rightarrow> index" where
  "cached_view V c = V (cs_inner c)"

locale cached_over = location_store S inv view cmp clk once + meta_cache C look
  for S :: "'s store" and inv :: "'s \<Rightarrow> bool" and view :: "'s \<Rightarrow> index" and cmp :: "peer \<Rightarrow> peer"
    and clk :: "int \<Rightarrow> int" and once :: "string list \<Rightarrow> bool" and C :: "('c, cval) cache"
    and look :: "'c \<Rightarrow> string \<Rightarrow> cval option"
begin

abbreviation u where "u \<equiv> (\<forall>hs. once hs)"
abbreviation ok where "ok \<equiv> cached_ok inv view look u"
abbreviation ix where "ix \<equiv> cached_view view"

lemma forget_cmp: "map_option cmp x = map_option cmp y \<Longrightarrow> map_option forget x = map_option forget y"
  by (cases x; cases y) (auto dest: cmp_keeps)

lemma seen_forget: "seen cmp a = seen cmp b \<Longrightarrow> seen forget a = seen forget b"
proof -
  assume eq: "seen cmp a = seen cmp b"
  have "map_option forget (ix_peers a i) = map_option forget (ix_peers b i)" for i
    using arg_cong [OF eq, of "\<lambda>ix. ix_peers ix i"] by (intro forget_cmp) (simp add: seen_def)
  then show ?thesis
    using arg_cong [OF eq, of ix_arts] arg_cong [OF eq, of ix_seeds] arg_cong [OF eq, of ix_chunks]
    by (intro index.equality) (auto simp: seen_def)
qed

lemma quietly_inner [simp]: "cs_inner (quietly op c) = cs_inner c" "cs_ttl (quietly op c) = cs_ttl c"
  by (simp_all add: quietly_def cache_call_def split: prod.splits)

lemma quietly_cache: "cs_cache (quietly op c) = fst (op (cs_cache c))"
  by (simp add: quietly_def cache_call_def split: prod.splits)

lemma quietly_delete: "ok (insert k X) c \<Longrightarrow> ok X (quietly (cDelete C now k) c)"
  using coh_delete [OF delete [of now k "cs_cache c", OF surjective_pairing]] by (simp add: cached_ok_def quietly_cache)

lemma quietly_delete_prefix: "ok (X \<union> {k. has_prefix k p}) c \<Longrightarrow> ok X (quietly (cDeletePrefix C now p) c)"
  using coh_delete_prefix [OF delete_prefix [of now p "cs_cache c", OF surjective_pairing]]
  by (simp add: cached_ok_def quietly_cache)

lemma quietly_set: "ok X c \<Longrightarrow> fits u (ix c) k v \<Longrightarrow> ok X (quietly (cSet C now k v ttl) c)"
  using coh_set [OF set [of now k v ttl "cs_cache c", OF surjective_pairing]]
  by (simp add: cached_ok_def quietly_cache cached_view_def)

lemma quietly_mset:
  "ok X c \<Longrightarrow> wf_alist items \<Longrightarrow> \<forall>(k, v) \<in> set items. fits u (ix c) k v \<Longrightarrow> ok X (quietly (cMSet C now items ttl) c)"
  using coh_mset [OF mset [of items now ttl "cs_cache c", OF _ surjective_pairing]]
  by (simp add: cached_ok_def quietly_cache cached_view_def)

lemma cached_get:
  assumes "ok {} c" and "cache_call (cGet C now k) c = (c', r)"
  shows "ok {} c' \<and> cs_inner c' = cs_inner c \<and> cs_ttl c' = cs_ttl c \<and> (\<forall>v. r = Inr (Some v) \<longrightarrow> fits u (ix c) k v)"
proof -
  obtain m where m: "cGet C now k (cs_cache c) = (m, r)" "c' = c\<lparr>cs_cache := m\<rparr>"
    using assms(2) by (auto simp: cache_call_def split: prod.splits)
  note g = get [OF m(1)]
  have "coh {} u (view (cs_inner c)) (look m)"
    using coh_mono [OF conjunct1 [OF g]] assms(1) by (simp add: cached_ok_def)
  moreover have "look (cs_cache c) k = Some v \<Longrightarrow> fits u (ix c) k v" for k v
    using assms(1) by (simp add: cached_ok_def cached_view_def coh_def)
  ultimately show ?thesis using g assms(1) by (auto simp: m(2) cached_ok_def)
qed

lemma cached_mget:
  assumes "ok {} c" and "cache_call (cMGet C now ks) c = (c', r)"
  shows "ok {} c' \<and> cs_inner c' = cs_inner c \<and> cs_ttl c' = cs_ttl c \<and>
    (\<forall>out k v. r = Inr out \<longrightarrow> map_of out k = Some v \<longrightarrow> fits u (ix c) k v)"
proof -
  obtain m where m: "cMGet C now ks (cs_cache c) = (m, r)" "c' = c\<lparr>cs_cache := m\<rparr>"
    using assms(2) by (auto simp: cache_call_def split: prod.splits)
  note g = mget [OF m(1)]
  have "coh {} u (view (cs_inner c)) (look m)"
    using coh_mono [OF conjunct1 [OF g]] assms(1) by (simp add: cached_ok_def)
  moreover have "look (cs_cache c) k = Some v \<Longrightarrow> fits u (ix c) k v" for k v
    using assms(1) by (simp add: cached_ok_def cached_view_def coh_def)
  ultimately show ?thesis using g assms(1) by (auto simp: m(2) cached_ok_def)
qed

lemma inner_split:
  assumes "inner_call op c = (c', r)"
  shows "op (cs_inner c) = (cs_inner c', r)" "cs_cache c' = cs_cache c" "cs_ttl c' = cs_ttl c"
  using assms by (auto simp: inner_call_def split: prod.splits)

text \<open>An inner operation after which the keys \<open>X\<close> may be wrong.\<close>

lemma inner_ok:
  assumes "ok {} c" and "inner_call op c = (c', r)" and "inv (cs_inner c')"
    and "seen cmp (view (cs_inner c')) = seen cmp ix'"
    and "\<And>k v. fits u (ix c) k v \<Longrightarrow> k \<notin> X \<Longrightarrow> fits u ix' k v"
  shows "ok X c' \<and> seen forget (ix c') = seen forget ix'"
proof -
  have s: "seen forget (view (cs_inner c')) = seen forget ix'" by (rule seen_forget [OF assms(4)])
  have "coh {} u (view (cs_inner c)) (look (cs_cache c))" using assms(1) by (simp only: cached_ok_def)
  then have "coh X u ix' (look (cs_cache c))" by (rule coh_change) (rule assms(5) [unfolded cached_view_def])
  then have "coh X u (view (cs_inner c')) (look (cs_cache c'))"
    unfolding coh_def fits_seen [OF s] inner_split(2) [OF assms(2)] .
  then show ?thesis using assms(3) s by (simp only: cached_ok_def cached_view_def)
qed

lemma inner_same:
  assumes "ok {} c" and "inner_call op c = (c', r)" and "inv (cs_inner c')"
    and "seen cmp (view (cs_inner c')) = seen cmp (view (cs_inner c))"
  shows "ok {} c' \<and> seen forget (ix c') = seen forget (ix c)"
  using inner_ok [OF assms, of "{}"] by (simp only: cached_view_def)

lemma ok_inv: "ok X c \<Longrightarrow> inv (cs_inner c)"
  by (simp only: cached_ok_def)

lemma ix_quietly [simp]: "ix (quietly op c) = ix c"
  by (simp add: cached_view_def)

lemma cached_upsert:
  assumes "ok {} c" and "cached_UpsertPeer S C now p c = (c', r)"
  shows "ok {} c' \<and> seen forget (ix c') = seen forget (if isl r then ix c else ix_upsert clk now p (ix c))"
proof -
  obtain c1 x where i: "inner_call (UpsertPeer S now p) c = (c1, x)" by force
  note l = upsert [OF ok_inv [OF assms(1)] inner_split(1) [OF i]]
  show ?thesis
  proof (cases x)
    case (Inl e)
    then have "c' = c1" "r = Inl e" using assms(2) i by (simp_all add: cached_UpsertPeer_def)
    with inner_same [OF assms(1) i] l Inl show ?thesis by simp
  next
    case (Inr y)
    then have res: "c' = quietly (cDelete C now keyPeersList) (quietly (cDelete C now (keyPeerPrefix @ pr_NodeID p)) c1)" "r = Inr ()"
      using assms(2) i by (simp_all add: cached_UpsertPeer_def)
    have "ok {keyPeerPrefix @ pr_NodeID p, keyPeersList} c1 \<and> seen forget (ix c1) = seen forget (ix_upsert clk now p (ix c))"
      using l Inr by (intro inner_ok [OF assms(1) i]) (auto simp: cached_view_def fits_upsert)
    then show ?thesis unfolding res by (auto intro!: quietly_delete)
  qed
qed

lemma refresh_spec:
  assumes "ok {} c" and "refresh_peer C now i c = (c', b)"
  shows "ok {} c' \<and> cs_inner c' = cs_inner c \<and> (b \<longrightarrow> ix_peers (ix c) i \<noteq> None)"
proof -
  obtain c1 x where g: "cache_call (cGet C now (keyPeerPrefix @ i)) c = (c1, x)" by force
  note l = cached_get [OF assms(1) g]
  show ?thesis
  proof (cases "\<exists>raw. x = Inr (Some raw)")
    case True
    then obtain raw where x: "x = Inr (Some raw)" by blast
    with l obtain p where p: "raw = CPeer p" "map_option forget (ix_peers (ix c) i) = Some (forget p)"
      by (auto simp: fits_keys)
    have res: "c' = quietly (cSet C now (keyPeerPrefix @ i) (CPeer (p\<lparr>pr_LastHeartbeat := Some now\<rparr>)) (cs_ttl c1)) c1" "b"
      using assms(2) g x p(1) by (simp_all add: refresh_peer_def unmarshalPeer_def)
    have "ix c1 = ix c" using l by (simp add: cached_view_def)
    then have "fits u (ix c1) (keyPeerPrefix @ i) (CPeer (p\<lparr>pr_LastHeartbeat := Some now\<rparr>))"
      using p(2) by (simp add: fits_keys forget_def)
    then show ?thesis using l p(2) unfolding res(1) by (auto intro!: quietly_set)
  next
    case False
    then have "c' = c1" "\<not> b" using assms(2) g by (auto simp: refresh_peer_def split: sum.splits option.splits)
    then show ?thesis using l by simp
  qed
qed

lemma cached_heartbeat:
  assumes "ok {} c" and "cached_Heartbeat S C now i c = (c', r)"
  shows "ok {} c' \<and> seen forget (ix c') = seen forget (if isl r then ix c else ix_touch clk now i (ix c)) \<and>
    (\<forall>b. r = Inr b \<longrightarrow> b = (ix_peers (ix c) i \<noteq> None))"
proof -
  define flush where "flush = (time_Sub now (map_of (cs_lastHBFlush c) i) \<ge> cs_hbEvery c)"
  define c0 where "c0 = (if flush then c\<lparr>cs_lastHBFlush := AList.update i now (cs_lastHBFlush c)\<rparr> else c)"
  obtain c1 hit where r1: "(if flush then (c0, False) else refresh_peer C now i c0) = (c1, hit)" by force
  have c0: "ok {} c0" "ix c0 = ix c" using assms(1) by (simp_all add: c0_def cached_ok_def cached_view_def)
  have c1: "ok {} c1" "ix c1 = ix c" "hit \<Longrightarrow> ix_peers (ix c) i \<noteq> None"
    using r1 c0 refresh_spec [OF c0(1)] by (auto simp: cached_view_def split: if_splits)
  have eq: "cached_Heartbeat S C now i c = (if hit then (c1, Inr True)
      else case inner_call (Heartbeat S now i) c1 of
          (c, Inl e) \<Rightarrow> (c, Inl e)
        | (c, Inr b) \<Rightarrow> if \<not> b then (c, Inr b) else (fst (refresh_peer C now i c), Inr True))"
    unfolding cached_Heartbeat_def Let_def flush_def [symmetric] c0_def [symmetric] r1 by simp
  show ?thesis
  proof (cases hit)
    case True
    then show ?thesis using eq assms(2) c1 by (auto simp: forget_touch)
  next
    case False
    obtain c2 x where i: "inner_call (Heartbeat S now i) c1 = (c2, x)" by force
    note l = heartbeat [OF ok_inv [OF c1(1)] inner_split(1) [OF i]]
    have same: "ok {} c2 \<and> seen forget (ix c2) = seen forget (ix c1)"
      using inner_ok [OF c1(1) i, of "if isl x then view (cs_inner c1) else ix_touch clk now i (view (cs_inner c1))" "{}"]
        l fits_seen [OF forget_touch] forget_touch by (auto simp: cached_view_def split: if_splits)
    show ?thesis
    proof (cases x)
      case (Inl e)
      then show ?thesis using eq assms(2) False i same c1 by simp
    next
      case (Inr b)
      then have b: "b = (ix_peers (ix c) i \<noteq> None)" using l c1(2) by (simp add: cached_view_def)
      obtain c3 b3 where c3: "refresh_peer C now i c2 = (c3, b3)" by force
      have "r = Inr b" "c' = (if b then c3 else c2)" using eq assms(2) False i Inr c3 by (auto split: if_splits)
      moreover have "ok {} c3 \<and> ix c3 = ix c2" using refresh_spec [OF conjunct1 [OF same] c3] by (simp add: cached_view_def)
      ultimately show ?thesis using same c1(2) b by (simp add: forget_touch)
    qed
  qed
qed

lemma read_through:
  assumes "ok {} c" and hit: "\<And>raw. fits u (ix c) k raw \<Longrightarrow> P (f raw)"
    and inner: "\<And>s s' x. inv s \<Longrightarrow> op s = (s', x) \<Longrightarrow> inv s' \<and> seen cmp (view s') = seen cmp (view s) \<and> Q (view s) x"
    and missed: "\<And>x. Q (ix c) x \<Longrightarrow> P (g x)" and stored: "\<And>x v. Q (ix c) x \<Longrightarrow> enc x = Some v \<Longrightarrow> fits u (ix c) k v"
    and res: "(case cache_call (cGet C now k) c of
        (c, Inr (Some raw)) \<Rightarrow> (c, f raw)
      | (c, _) \<Rightarrow> (case inner_call op c of (c, x) \<Rightarrow>
          (case enc x of None \<Rightarrow> c | Some v \<Rightarrow> quietly (cSet C now k v (cs_ttl c)) c, g x))) = (c', r)"
  shows "ok {} c' \<and> seen forget (ix c') = seen forget (ix c) \<and> P r"
proof -
  obtain c1 x where g1: "cache_call (cGet C now k) c = (c1, x)" by force
  note l = cached_get [OF assms(1) g1]
  then have ok1: "ok {} c1" "ix c1 = ix c" by (simp_all add: cached_view_def)
  show ?thesis
  proof (cases "\<exists>raw. x = Inr (Some raw)")
    case True
    then obtain raw where x: "x = Inr (Some raw)" by blast
    then have "c' = c1" "r = f raw" using res g1 by simp_all
    then show ?thesis using ok1 hit l x by simp
  next
    case False
    obtain c2 y where i: "inner_call op c1 = (c2, y)" by force
    have r: "c' = (case enc y of None \<Rightarrow> c2 | Some v \<Rightarrow> quietly (cSet C now k v (cs_ttl c2)) c2)" "r = g y"
      using res g1 i False by (auto split: sum.splits option.splits)
    note g2 = inner [OF ok_inv [OF ok1(1)] inner_split(1) [OF i]]
    have same: "ok {} c2" "seen forget (ix c2) = seen forget (ix c)"
      using inner_same [OF ok1(1) i] g2 ok1(2) by auto
    have q: "Q (ix c) y" using g2 ok1(2) by (simp add: cached_view_def)
    have "fits u (ix c2) k v" if "enc y = Some v" for v
      using stored [OF q that] fits_seen [OF same(2)] by simp
    then have "ok {} c'" unfolding r using same(1) by (cases "enc y") (auto intro!: quietly_set)
    moreover have "ix c' = ix c2" unfolding r by (cases "enc y") simp_all
    ultimately show ?thesis using same(2) missed [OF q] r(2) by simp
  qed
qed

lemma cached_get_peer:
  assumes "ok {} c" and "cached_GetPeer S C now i c = (c', r)"
  shows "ok {} c' \<and> seen forget (ix c') = seen forget (ix c) \<and>
    (\<forall>p. r = Inr p \<longrightarrow> map_option forget p = map_option forget (ix_peers (ix c) i))"
proof (rule read_through [where op = "GetPeer S now i" and now = now and k = "keyPeerPrefix @ i" and g = "\<lambda>x. x"
    and f = "\<lambda>raw. case unmarshalPeer raw of Inl e \<Rightarrow> Inl e | Inr p \<Rightarrow> Inr (Some p)"
    and enc = "\<lambda>x. case x of Inr (Some p) \<Rightarrow> Some (CPeer p) | _ \<Rightarrow> None"
    and Q = "\<lambda>ix x. \<forall>p. x = Inr p \<longrightarrow> map_option forget p = map_option forget (ix_peers ix i)", OF assms(1)])
  show "inv s' \<and> seen cmp (view s') = seen cmp (view s) \<and>
      (\<forall>p. x = Inr p \<longrightarrow> map_option forget p = map_option forget (ix_peers (view s) i))"
    if "inv s" "GetPeer S now i s = (s', x)" for s s' x
    using get_peer [OF that] forget_cmp by blast
  show "fits u (ix c) (keyPeerPrefix @ i) v" if "\<forall>p. x = Inr p \<longrightarrow> map_option forget p = map_option forget (ix_peers (ix c) i)"
    "(case x of Inr (Some p) \<Rightarrow> Some (CPeer p) | _ \<Rightarrow> None) = Some v" for x v
    using that by (auto simp: fits_keys dest!: sym [of "Some _"] split: sum.splits option.splits)
  show "(case cache_call (cGet C now (keyPeerPrefix @ i)) c of
      (c, Inr (Some raw)) \<Rightarrow> (c, case unmarshalPeer raw of Inl e \<Rightarrow> Inl e | Inr p \<Rightarrow> Inr (Some p))
    | (c, _) \<Rightarrow> (case inner_call (GetPeer S now i) c of (c, x) \<Rightarrow>
        (case case x of Inr (Some p) \<Rightarrow> Some (CPeer p) | _ \<Rightarrow> None of None \<Rightarrow> c
         | Some v \<Rightarrow> quietly (cSet C now (keyPeerPrefix @ i) v (cs_ttl c)) c, x))) = (c', r)"
    using assms(2) by (auto simp: cached_GetPeer_def split: prod.splits sum.splits option.splits)
qed (auto simp: fits_keys unmarshalPeer_def)

lemma cached_get_artifact:
  assumes "ok {} c" and "cached_GetArtifact S C now k c = (c', r)"
  shows "ok {} c' \<and> seen forget (ix c') = seen forget (ix c) \<and> (\<forall>a. r = Inr a \<longrightarrow> a = ix_arts (ix c) k)"
proof (rule read_through [where op = "GetArtifact S now k" and now = now and k = "keyArtifactPrefix @ k" and g = "\<lambda>x. x"
    and f = "\<lambda>raw. case unmarshalArtifact raw of Inl e \<Rightarrow> Inl e | Inr a \<Rightarrow> Inr (Some a)"
    and enc = "\<lambda>x. case x of Inr (Some a) \<Rightarrow> Some (CArtifact a) | _ \<Rightarrow> None"
    and Q = "\<lambda>ix x. \<forall>a. x = Inr a \<longrightarrow> a = ix_arts ix k", OF assms(1)])
  show "inv s' \<and> seen cmp (view s') = seen cmp (view s) \<and> (\<forall>a. x = Inr a \<longrightarrow> a = ix_arts (view s) k)"
    if "inv s" "GetArtifact S now k s = (s', x)" for s s' x
    by (rule get_artifact [OF that])
  show "fits u (ix c) (keyArtifactPrefix @ k) v" if "\<forall>a. x = Inr a \<longrightarrow> a = ix_arts (ix c) k"
    "(case x of Inr (Some a) \<Rightarrow> Some (CArtifact a) | _ \<Rightarrow> None) = Some v" for x v
    using that by (auto simp: fits_keys split: sum.splits option.splits)
  show "(case cache_call (cGet C now (keyArtifactPrefix @ k)) c of
      (c, Inr (Some raw)) \<Rightarrow> (c, case unmarshalArtifact raw of Inl e \<Rightarrow> Inl e | Inr a \<Rightarrow> Inr (Some a))
    | (c, _) \<Rightarrow> (case inner_call (GetArtifact S now k) c of (c, x) \<Rightarrow>
        (case case x of Inr (Some a) \<Rightarrow> Some (CArtifact a) | _ \<Rightarrow> None of None \<Rightarrow> c
         | Some v \<Rightarrow> quietly (cSet C now (keyArtifactPrefix @ k) v (cs_ttl c)) c, x))) = (c', r)"
    using assms(2) by (auto simp: cached_GetArtifact_def split: prod.splits sum.splits option.splits)
qed (auto simp: fits_keys unmarshalArtifact_def)

lemma cached_strings_spec:
  assumes "ok {} c" and "cached_strings C now k op c = (c', r)"
    and inner: "\<And>s s' x. inv s \<Longrightarrow> op s = (s', x) \<Longrightarrow> inv s' \<and> seen cmp (view s') = seen cmp (view s) \<and>
      (\<forall>ids. x = Inr ids \<longrightarrow> fits u (view s) k (CStrings ids))"
    and hit: "\<And>raw. fits u (ix c) k raw \<Longrightarrow> \<exists>ids. raw = CStrings ids"
  shows "ok {} c' \<and> seen forget (ix c') = seen forget (ix c) \<and> (\<forall>ids. r = Inr ids \<longrightarrow> fits u (ix c) k (CStrings ids))"
proof (rule read_through [where op = op and now = now and k = k and g = "\<lambda>x. x" and f = "\<lambda>raw. Inr (unmarshalStrings raw)"
    and enc = "\<lambda>x. case x of Inr ids \<Rightarrow> Some (CStrings ids) | _ \<Rightarrow> None"
    and Q = "\<lambda>ix x. \<forall>ids. x = Inr ids \<longrightarrow> fits u ix k (CStrings ids)", OF assms(1)])
  show "(case cache_call (cGet C now k) c of
      (c, Inr (Some raw)) \<Rightarrow> (c, Inr (unmarshalStrings raw))
    | (c, _) \<Rightarrow> (case inner_call op c of (c, x) \<Rightarrow>
        (case case x of Inr ids \<Rightarrow> Some (CStrings ids) | _ \<Rightarrow> None of None \<Rightarrow> c
         | Some v \<Rightarrow> quietly (cSet C now k v (cs_ttl c)) c, x))) = (c', r)"
    using assms(2) by (auto simp: cached_strings_def split: prod.splits sum.splits option.splits)
  show "\<forall>ids. Inr (unmarshalStrings raw) = Inr ids \<longrightarrow> fits u (ix c) k (CStrings ids)" if "fits u (ix c) k raw" for raw
    using hit [OF that] that by (auto simp: unmarshalStrings_def)
  show "fits u (ix c) k v" if "\<forall>ids. x = Inr ids \<longrightarrow> fits u (ix c) k (CStrings ids)"
    "(case x of Inr ids \<Rightarrow> Some (CStrings ids) | _ \<Rightarrow> None) = Some v" for x :: "string list result" and v
    using that by (auto split: sum.splits)
qed (use inner in auto)

lemma cached_list_seeds:
  assumes "ok {} c" and "cached_ListSeeds S C now a c = (c', r)"
  shows "ok {} c' \<and> seen forget (ix c') = seen forget (ix c) \<and>
    (\<forall>ids. r = Inr ids \<longrightarrow> distinct ids \<and> set ids = ix_seeds (ix c) a)"
proof -
  have "ok {} c' \<and> seen forget (ix c') = seen forget (ix c) \<and>
      (\<forall>ids. r = Inr ids \<longrightarrow> fits u (ix c) (keySeedsPrefix @ a) (CStrings ids))"
  proof (rule cached_strings_spec [OF assms(1) assms(2) [unfolded cached_ListSeeds_def]])
    show "inv s' \<and> seen cmp (view s') = seen cmp (view s) \<and> (\<forall>ids. x = Inr ids \<longrightarrow> fits u (view s) (keySeedsPrefix @ a) (CStrings ids))"
      if "inv s" "ListSeeds S now a s = (s', x)" for s s' x
      using list_seeds [OF that] by (simp add: fits_keys)
  qed (auto simp: fits_keys)
  then show ?thesis by (simp add: fits_keys)
qed

lemma cached_locate:
  assumes "ok {} c" and "cached_LocateChunkNodes S C now h c = (c', r)"
  shows "ok {} c' \<and> seen forget (ix c') = seen forget (ix c) \<and>
    (\<forall>ids. r = Inr ids \<longrightarrow> (u \<longrightarrow> distinct ids) \<and> set ids = ix_chunks (ix c) h)"
proof -
  have "ok {} c' \<and> seen forget (ix c') = seen forget (ix c) \<and>
      (\<forall>ids. r = Inr ids \<longrightarrow> fits u (ix c) (keyChunksPrefix @ h) (CStrings ids))"
  proof (rule cached_strings_spec [OF assms(1) assms(2) [unfolded cached_LocateChunkNodes_def]])
    show "inv s' \<and> seen cmp (view s') = seen cmp (view s) \<and> (\<forall>ids. x = Inr ids \<longrightarrow> fits u (view s) (keyChunksPrefix @ h) (CStrings ids))"
      if "inv s" "LocateChunkNodes S now h s = (s', x)" for s s' x
      using locate [OF that] by (simp add: fits_keys)
  qed (auto simp: fits_keys)
  then show ?thesis by (simp add: fits_keys)
qed

lemma cached_list_peers:
  assumes "ok {} c" and "cached_ListPeers S C now d c = (c', r)"
  shows "ok {} c' \<and> seen forget (ix c') = seen forget (ix c) \<and>
    (\<forall>ps. r = Inr ps \<longrightarrow> distinct (map pr_NodeID ps) \<and>
       (\<forall>p \<in> set ps. map_option forget (ix_peers (ix c) (pr_NodeID p)) = Some (forget p)))"
proof (rule read_through [where op = "ListPeers S now 0" and now = now and k = keyPeersList
    and g = "\<lambda>x. case x of Inl e \<Rightarrow> Inl e | Inr ps \<Rightarrow> Inr (filterExpiry now ps d)"
    and f = "\<lambda>raw. Inr (filterExpiry now (unmarshalPeers raw) d)"
    and enc = "\<lambda>x. case x of Inr ps \<Rightarrow> Some (CPeers ps) | _ \<Rightarrow> None"
    and Q = "\<lambda>ix x. \<forall>ps. x = Inr ps \<longrightarrow> fits u ix keyPeersList (CPeers ps)", OF assms(1)])
  have filtered: "distinct (map pr_NodeID (filterExpiry now ps d)) \<and>
      (\<forall>p \<in> set (filterExpiry now ps d). map_option forget (ix_peers (ix c) (pr_NodeID p)) = Some (forget p))"
    if "fits u (ix c) keyPeersList (CPeers ps)" for ps
    using that by (auto simp: fits_keys filterExpiry_def distinct_map_filter)
  show "\<forall>ps. Inr (filterExpiry now (unmarshalPeers raw) d) = Inr ps \<longrightarrow> distinct (map pr_NodeID ps) \<and>
      (\<forall>p \<in> set ps. map_option forget (ix_peers (ix c) (pr_NodeID p)) = Some (forget p))" if f: "fits u (ix c) keyPeersList raw" for raw
  proof -
    have "\<exists>ps. raw = CPeers ps" using f by (auto simp: fits_keys)
    then show ?thesis using filtered f by (auto simp: unmarshalPeers_def)
  qed
  show "\<forall>ps. (case x of Inl e \<Rightarrow> Inl e | Inr ps \<Rightarrow> Inr (filterExpiry now ps d)) = Inr ps \<longrightarrow> distinct (map pr_NodeID ps) \<and>
      (\<forall>p \<in> set ps. map_option forget (ix_peers (ix c) (pr_NodeID p)) = Some (forget p))"
    if "\<forall>ps. x = Inr ps \<longrightarrow> fits u (ix c) keyPeersList (CPeers ps)" for x :: "peer list result"
    using that filtered by (cases x) auto
  show "inv s' \<and> seen cmp (view s') = seen cmp (view s) \<and> (\<forall>ps. x = Inr ps \<longrightarrow> fits u (view s) keyPeersList (CPeers ps))"
    if "inv s" "ListPeers S now 0 s = (s', x)" for s s' x
  proof -
    have "map_option forget (ix_peers (view s) (pr_NodeID p)) = Some (forget p)"
      if "map_option cmp (ix_peers (view s) (pr_NodeID p)) = Some (cmp p)" for p
      using forget_cmp [of "ix_peers (view s) (pr_NodeID p)" "Some p"] that by simp
    then show ?thesis using list_peers [OF that] by (simp add: fits_keys)
  qed
  show "fits u (ix c) keyPeersList v" if "\<forall>ps. x = Inr ps \<longrightarrow> fits u (ix c) keyPeersList (CPeers ps)"
    "(case x of Inr ps \<Rightarrow> Some (CPeers ps) | _ \<Rightarrow> None) = Some v" for x :: "peer list result" and v
    using that by (auto split: sum.splits)
  show "(case cache_call (cGet C now keyPeersList) c of
      (c, Inr (Some raw)) \<Rightarrow> (c, Inr (filterExpiry now (unmarshalPeers raw) d))
    | (c, _) \<Rightarrow> (case inner_call (ListPeers S now 0) c of (c, x) \<Rightarrow>
        (case case x of Inr ps \<Rightarrow> Some (CPeers ps) | _ \<Rightarrow> None of None \<Rightarrow> c
         | Some v \<Rightarrow> quietly (cSet C now keyPeersList v (cs_ttl c)) c,
         case x of Inl e \<Rightarrow> Inl e | Inr ps \<Rightarrow> Inr (filterExpiry now ps d)))) = (c', r)"
    using assms(2) by (auto simp: cached_ListPeers_def split: prod.splits sum.splits option.splits)
qed

lemma write_through:
  assumes "ok {} c" and "inner_call op c = (c1, x)"
    and "inv (cs_inner c1) \<and> seen cmp (view (cs_inner c1)) = seen cmp (if isl x then view (cs_inner c) else F (view (cs_inner c)))"
    and "\<And>k v. fits u (ix c) k v \<Longrightarrow> k \<notin> X \<Longrightarrow> fits u (F (ix c)) k v"
  shows "isl x \<Longrightarrow> ok {} c1 \<and> seen forget (ix c1) = seen forget (ix c)"
    and "\<not> isl x \<Longrightarrow> ok X c1 \<and> seen forget (ix c1) = seen forget (F (ix c))"
proof -
  show "ok {} c1 \<and> seen forget (ix c1) = seen forget (ix c)" if "isl x"
    using inner_same [OF assms(1,2)] assms(3) that by simp
  show "ok X c1 \<and> seen forget (ix c1) = seen forget (F (ix c))" if "\<not> isl x"
    using assms(3) that by (intro inner_ok [OF assms(1,2) _ _ assms(4)]) (simp_all add: cached_view_def)
qed

lemma drop_prefixes_ok:
  "ok (X \<union> {k. \<exists>p \<in> set ps. has_prefix k p}) c \<Longrightarrow> ok X (drop_prefixes C now ps c) \<and> ix (drop_prefixes C now ps c) = ix c"
proof (induction ps arbitrary: c)
  case (Cons p ps)
  have "X \<union> {k. \<exists>q \<in> set (p # ps). has_prefix k q} = (X \<union> {k. \<exists>q \<in> set ps. has_prefix k q}) \<union> {k. has_prefix k p}" by auto
  with Cons.prems have "ok (X \<union> {k. \<exists>q \<in> set ps. has_prefix k q}) (quietly (cDeletePrefix C now p) c)"
    by (intro quietly_delete_prefix) simp
  from Cons.IH [OF this] show ?case by (simp add: drop_prefixes_def)
qed (simp add: drop_prefixes_def)

lemma delete_all_ok:
  "ok (X \<union> f ` set hs) c \<Longrightarrow> ok X (fold (\<lambda>h. quietly (cDelete C now (f h))) hs c) \<and>
     ix (fold (\<lambda>h. quietly (cDelete C now (f h))) hs c) = ix c"
proof (induction hs arbitrary: c)
  case (Cons h hs)
  then have "ok (X \<union> f ` set hs) (quietly (cDelete C now (f h)) c)" by (intro quietly_delete) simp
  from Cons.IH [OF this] show ?case by simp
qed simp

lemma cached_deregister:
  assumes "ok {} c" and "cached_DeregisterPeer S C now i c = (c', r)"
  shows "ok {} c' \<and> seen forget (ix c') = seen forget (if isl r then ix c else ix_drop {i} (ix c))"
proof -
  obtain c1 x where i: "inner_call (DeregisterPeer S now i) c = (c1, x)" by force
  let ?ps = "[keySeedsPrefix, keyLocatePrefix, keyChunksPrefix]"
  let ?X = "{keyPeerPrefix @ i, keyPeersList} \<union> {k. \<exists>p \<in> set ?ps. has_prefix k p}"
  have drop: "fits u (ix_drop {i} (ix c)) k v" if "fits u (ix c) k v" "k \<notin> ?X" for k v
    using that by (intro fits_drop) auto
  note w = write_through [where X = ?X, OF assms(1) i deregister [OF ok_inv [OF assms(1)] inner_split(1) [OF i]] drop]
  show ?thesis
  proof (cases x)
    case (Inl e)
    then show ?thesis using w(1) assms(2) i by (auto simp: cached_DeregisterPeer_def)
  next
    case (Inr y)
    let ?c = "quietly (cDelete C now keyPeersList) (quietly (cDelete C now (keyPeerPrefix @ i)) c1)"
    have "c' = drop_prefixes C now ?ps ?c" "r = Inr ()" using Inr assms(2) i by (simp_all add: cached_DeregisterPeer_def Let_def)
    moreover have "ok ({} \<union> {k. \<exists>p \<in> set ?ps. has_prefix k p}) ?c"
      using w(2) Inr by (intro quietly_delete) (simp add: insert_commute)
    ultimately show ?thesis using drop_prefixes_ok [of "{}" ?ps ?c now] w(2) Inr by simp
  qed
qed

lemma cached_prune:
  assumes "ok {} c" and "cached_PruneExpiredPeers S C now d c = (c', r)"
  shows "ok {} c' \<and> (\<exists>dead. dead \<subseteq> dom (ix_peers (ix c)) \<and> finite dead \<and>
    seen forget (ix c') = seen forget (ix_drop dead (ix c)) \<and> (case r of Inl e \<Rightarrow> dead = {} | Inr n \<Rightarrow> card dead = n))"
proof -
  obtain c1 x where i: "inner_call (PruneExpiredPeers S now d) c = (c1, x)" by force
  let ?ps = "[keyPeerPrefix, keySeedsPrefix, keyLocatePrefix, keyChunksPrefix]"
  let ?X = "{keyPeersList} \<union> {k. \<exists>p \<in> set ?ps. has_prefix k p}"
  obtain dead where inv1: "inv (cs_inner c1)" and dead: "dead \<subseteq> dom (ix_peers (ix c))" "finite dead"
    "seen cmp (view (cs_inner c1)) = seen cmp (ix_drop dead (ix c))" "case x of Inl e \<Rightarrow> dead = {} | Inr n \<Rightarrow> card dead = n"
    using prune [OF ok_inv [OF assms(1)] inner_split(1) [OF i]] by (auto simp: cached_view_def)
  show ?thesis
  proof (cases "x = Inr 0 \<or> isl x")
    case True
    then have none: "dead = {}" using dead(2,4) by (cases x) auto
    have "ok {} c1 \<and> seen forget (ix c1) = seen forget (ix c)"
      using inv1 dead(3) none by (intro inner_same [OF assms(1) i]) (simp_all add: cached_view_def)
    moreover have "c' = c1" "r = x" using True assms(2) i by (cases x; simp add: cached_PruneExpiredPeers_def)+
    ultimately show ?thesis using dead none by (intro conjI exI [of _ dead]) simp_all
  next
    case False
    then obtain n where n: "x = Inr n" "n \<noteq> 0" by (cases x) auto
    have drop: "fits u (ix_drop dead (ix c)) k v" if "fits u (ix c) k v" "k \<notin> ?X" for k v
      using that by (intro fits_drop) auto
    have "ok ?X c1 \<and> seen forget (ix c1) = seen forget (ix_drop dead (ix c))"
      by (rule inner_ok [OF assms(1) i inv1 dead(3) drop])
    moreover from this have "ok ({} \<union> {k. \<exists>p \<in> set ?ps. has_prefix k p}) (quietly (cDelete C now keyPeersList) c1)"
      by (intro quietly_delete) simp
    moreover have "c' = drop_prefixes C now ?ps (quietly (cDelete C now keyPeersList) c1)" "r = Inr n"
      using n assms(2) i by (simp_all add: cached_PruneExpiredPeers_def)
    ultimately show ?thesis
      using drop_prefixes_ok [of "{}" ?ps "quietly (cDelete C now keyPeersList) c1" now] dead n(1) by auto
  qed
qed

lemma cached_put_artifact:
  assumes "ok {} c" and "cached_PutArtifact S C now a c = (c', r)"
  shows "ok {} c' \<and> seen forget (ix c') = seen forget (if isl r then ix c
    else (ix c)\<lparr>ix_arts := (ix_arts (ix c))(ar_ArtifactID a \<mapsto> a)\<rparr>)"
proof -
  obtain c1 x where i: "inner_call (PutArtifact S now a) c = (c1, x)" by force
  have kept: "fits u ((ix c)\<lparr>ix_arts := (ix_arts (ix c))(ar_ArtifactID a \<mapsto> a)\<rparr>) k v"
    if "fits u (ix c) k v" "k \<notin> {keyArtifactPrefix @ ar_ArtifactID a}" for k v
    using that by (intro fits_put) auto
  note w = write_through [where F = "\<lambda>ix. ix\<lparr>ix_arts := (ix_arts ix)(ar_ArtifactID a \<mapsto> a)\<rparr>"
      and X = "{keyArtifactPrefix @ ar_ArtifactID a}",
      OF assms(1) i put_artifact [OF ok_inv [OF assms(1)] inner_split(1) [OF i]] kept]
  then show ?thesis
    using assms(2) i by (cases x) (auto simp: cached_PutArtifact_def intro!: quietly_delete)
qed

lemma cached_report_seed:
  assumes "ok {} c" and "cached_ReportSeed S C now a i c = (c', r)"
  shows "ok {} c' \<and> seen forget (ix c') = seen forget (if isl r then ix c else ix_seed a i (ix c))"
proof -
  obtain c1 x where i: "inner_call (ReportSeed S now a i) c = (c1, x)" by force
  have kept: "fits u (ix_seed a i (ix c)) k v" if "fits u (ix c) k v" "k \<notin> {keySeedsPrefix @ a, keyLocatePrefix @ a}" for k v
    using that by (intro fits_seed) auto
  note w = write_through [where F = "ix_seed a i" and X = "{keySeedsPrefix @ a, keyLocatePrefix @ a}",
      OF assms(1) i report_seed [OF ok_inv [OF assms(1)] inner_split(1) [OF i]] kept]
  then show ?thesis
    using assms(2) i by (cases x) (auto simp: cached_ReportSeed_def intro!: quietly_delete)
qed

lemma cached_report:
  assumes "ok {} c" and "cached_ReportChunks S C now i hs c = (c', r)"
  shows "ok {} c' \<and> seen forget (ix c') = seen forget (if isl r then ix c else ix_report i hs (ix_touch clk now i (ix c))) \<and>
    (\<forall>n. r = Inr n \<longrightarrow> n = int (length (filter (\<lambda>h. h \<noteq> []) hs)))"
proof -
  obtain c1 x where i: "inner_call (ReportChunks S now i hs) c = (c1, x)" by force
  note l = report_chunks [OF ok_inv [OF assms(1)] inner_split(1) [OF i]]
  let ?X = "{} \<union> (\<lambda>h. keyChunksPrefix @ h) ` set hs"
  have kept: "fits u (ix_report i hs (ix_touch clk now i (ix c))) k v" if "fits u (ix c) k v" "k \<notin> ?X" for k v
    using that fits_seen [OF forget_touch [of clk now i "ix c"]] by (intro fits_report) auto
  note w = write_through [where F = "\<lambda>ix. ix_report i hs (ix_touch clk now i ix)" and X = ?X, OF assms(1) i _ kept]
  show ?thesis
  proof (cases x)
    case (Inl e)
    then show ?thesis using w(1) l assms(2) i by (auto simp: cached_ReportChunks_def)
  next
    case (Inr n)
    then show ?thesis using w(2) l assms(2) i delete_all_ok [of "{}" "\<lambda>h. keyChunksPrefix @ h" hs c1 now]
      by (auto simp: cached_ReportChunks_def)
  qed
qed

text \<open>
  Both batch operations: what the cache has, the rest from the inner store. \<open>R ix h x\<close> says that \<open>x\<close> is the answer for
  \<open>h\<close>, \<open>None\<close> where there is none.
\<close>

lemma batch_through:
  fixes dec :: "cval \<Rightarrow> 'x" and enc :: "'x \<Rightarrow> cval"
  assumes "ok {} c" and got: "cache_call (cMGet C now ks) c = (c1, Inr got)"
    and misses: "misses = filter (\<lambda>h. map_of got (key h) = None) hs"
    and out: "out = fold (\<lambda>h out. case map_of got (key h) of None \<Rightarrow> out | Some raw \<Rightarrow> AList.update h (dec raw) out) hs []"
    and inj: "inj key"
    and hit: "\<And>h raw. fits u (ix c) (key h) raw \<Longrightarrow> R (ix c) h (Some (dec raw))"
    and stored: "\<And>h x. R (ix c) h (Some x) \<Longrightarrow> fits u (ix c) (key h) (enc x)"
    and inner: "\<And>s s' m. inv s \<Longrightarrow> op s = (s', m) \<Longrightarrow> inv s' \<and> seen cmp (view s') = seen cmp (view s) \<and>
      (\<forall>m'. m = Inr m' \<longrightarrow> wf_alist m' \<and> fst ` set m' \<subseteq> set misses \<and> (\<forall>h \<in> set misses. R (view s) h (map_of m' h)))"
    and res: "(if misses = [] then (c1, Inr out)
      else case inner_call op c1 of
          (c, Inl e) \<Rightarrow> (c, Inl e)
        | (c, Inr m) \<Rightarrow> (quietly (cMSet C now (map (\<lambda>(h, x). (key h, enc x)) m) (cs_ttl c)) c,
            Inr (fold (\<lambda>(h, x). AList.update h x) m out))) = (c', r)"
  shows "ok {} c' \<and> seen forget (ix c') = seen forget (ix c) \<and>
    (\<forall>out. r = Inr out \<longrightarrow> wf_alist out \<and> fst ` set out \<subseteq> set hs \<and> (\<forall>h \<in> set hs. R (ix c) h (map_of out h)))"
proof -
  note l = cached_mget [OF assms(1) got]
  then have ok1: "ok {} c1" "ix c1 = ix c" by (simp_all add: cached_view_def)
  have wf: "wf_alist out" unfolding out by (rule fold_hits(1)) simp
  have at: "map_of out h = (if h \<in> set hs \<and> map_of got (key h) \<noteq> None then Some (dec (the (map_of got (key h)))) else None)" for h
    unfolding out fold_hits(2) by simp
  have right: "R (ix c) h (map_of out h)" if h: "h \<in> set hs" "h \<notin> set misses" for h
  proof -
    have "map_of got (key h) \<noteq> None" using h by (simp add: misses)
    then show ?thesis using h(1) l hit by (auto simp: at)
  qed
  have keys: "fst ` set out \<subseteq> set hs"
    unfolding dom_map_of_conv_image_fst [symmetric] by (auto simp: at split: if_splits)
  show ?thesis
  proof (cases "misses = []")
    case True
    then show ?thesis using res ok1 wf keys right by auto
  next
    case False
    obtain c2 y where i: "inner_call op c1 = (c2, y)" by force
    note l2 = inner [OF ok_inv [OF ok1(1)] inner_split(1) [OF i]]
    have same: "ok {} c2" "seen forget (ix c2) = seen forget (ix c)" using inner_same [OF ok1(1) i] l2 ok1(2) by auto
    show ?thesis
    proof (cases y)
      case (Inl e)
      then show ?thesis using res False i same by auto
    next
      case (Inr m)
      have m: "wf_alist m" "fst ` set m \<subseteq> set misses" "\<And>h. h \<in> set misses \<Longrightarrow> R (ix c) h (map_of m h)"
        using l2 Inr ok1(2) by (auto simp: cached_view_def)
      let ?items = "map (\<lambda>(h, x). (key h, enc x)) m" and ?out = "fold (\<lambda>(h, x). AList.update h x) m out"
      have r: "c' = quietly (cMSet C now ?items (cs_ttl c2)) c2" "r = Inr ?out" using res False i Inr by auto
      have items: "wf_alist ?items \<and> (\<forall>(k, v) \<in> set ?items. fits u (ix c2) k v)"
        using batch_items [where R = "R (ix c)" and F = "fits u (ix c)", OF m inj stored] fits_seen [OF same(2)] by simp
      have "ok {} c'" unfolding r(1) using items by (intro quietly_mset same(1)) simp_all
      moreover have "wf_alist ?out \<and> fst ` set ?out \<subseteq> set hs \<and> (\<forall>h \<in> set hs. R (ix c) h (map_of ?out h))"
        using right by (intro batch_out [where R = "R (ix c)", OF wf keys m]) (auto simp: misses at)
      ultimately show ?thesis using r same(2) by simp
    qed
  qed
qed

lemma cached_get_peers:
  assumes "ok {} c" and "cached_GetPeersBatch S C now is c = (c', r)"
  shows "ok {} c' \<and> seen forget (ix c') = seen forget (ix c) \<and>
    (\<forall>out. r = Inr out \<longrightarrow> wf_alist out \<and> fst ` set out \<subseteq> set is \<and>
       (\<forall>i \<in> set is. map_option forget (map_of out i) = map_option forget (ix_peers (ix c) i)))"
proof (cases "is = []")
  case True
  then show ?thesis using assms by (auto simp: cached_GetPeersBatch_def)
next
  case False
  let ?key = "\<lambda>i. keyPeerPrefix @ i"
  obtain c1 x where g: "cache_call (cMGet C now (map ?key is)) c = (c1, x)" by force
  note l = cached_mget [OF assms(1) g]
  show ?thesis
  proof (cases x)
    case (Inl e)
    then show ?thesis using assms(2) False g l by (auto simp: cached_GetPeersBatch_def cached_view_def)
  next
    case (Inr got)
    let ?misses = "filter (\<lambda>i. map_of got (?key i) = None) is"
    let ?hit = "\<lambda>i out. case map_of got (?key i) of None \<Rightarrow> out
          | Some raw \<Rightarrow> (case unmarshalPeer raw of Inl e \<Rightarrow> out | Inr p \<Rightarrow> AList.update i p out)"
    have f: "?hit =
        (\<lambda>i out. case map_of got (?key i) of None \<Rightarrow> out | Some raw \<Rightarrow> AList.update i (projr (unmarshalPeer raw)) out)"
    proof (intro ext, goal_cases)
      case (1 i out)
      show ?case
      proof (cases "map_of got (?key i)")
        case (Some raw)
        then have "fits u (ix c) (?key i) raw" using l Inr by blast
        then show ?thesis using Some by (auto simp: fits_keys unmarshalPeer_def)
      qed simp
    qed
    have res: "cached_GetPeersBatch S C now is c = (if ?misses = [] then (c1, Inr (fold ?hit is []))
        else case inner_call (GetPeersBatch S now ?misses) c1 of
            (c, Inl e) \<Rightarrow> (c, Inl e)
          | (c, Inr m) \<Rightarrow> (quietly (cMSet C now (map (\<lambda>(i, p). (?key i, CPeer p)) m) (cs_ttl c)) c,
              Inr (fold (\<lambda>(i, p). AList.update i p) m (fold ?hit is []))))"
      using False g Inr by (simp add: cached_GetPeersBatch_def Let_def)
    show ?thesis
    proof (rule batch_through [where op = "GetPeersBatch S now ?misses" and key = ?key
        and dec = "\<lambda>raw. projr (unmarshalPeer raw)" and enc = CPeer and R = "\<lambda>ix i p. map_option forget p = map_option forget (ix_peers ix i)",
        OF assms(1) g [unfolded Inr] refl refl])
      show "inv s' \<and> seen cmp (view s') = seen cmp (view s) \<and> (\<forall>m'. m = Inr m' \<longrightarrow> wf_alist m' \<and> fst ` set m' \<subseteq> set ?misses \<and>
          (\<forall>h \<in> set ?misses. map_option forget (map_of m' h) = map_option forget (ix_peers (view s) h)))"
        if "inv s" "GetPeersBatch S now ?misses s = (s', m)" for s s' m
        using get_peers [OF that] forget_cmp by blast
      show "map_option forget (Some (projr (unmarshalPeer raw))) = map_option forget (ix_peers (ix c) h)"
        if "fits u (ix c) (?key h) raw" for h raw
        using that by (auto simp: fits_keys unmarshalPeer_def)
      show "fits u (ix c) (?key h) (CPeer p)" if "map_option forget (Some p) = map_option forget (ix_peers (ix c) h)" for h p
        using that by (simp add: fits_keys eq_commute [of "map_option _ _"])
    qed (simp_all add: inj_def assms(2) [unfolded res f])
  qed
qed

lemma cached_locate_batch:
  assumes "ok {} c" and "cached_LocateChunkNodesBatch S C now hs c = (c', r)"
  shows "ok {} c' \<and> seen forget (ix c') = seen forget (ix c) \<and>
    (\<forall>out. r = Inr out \<longrightarrow> wf_alist out \<and> fst ` set out = set hs \<and>
       (\<forall>(h, ids) \<in> set out. (u \<longrightarrow> distinct ids) \<and> set ids = ix_chunks (ix c) h))"
proof (cases "hs = []")
  case True
  then show ?thesis using assms by (auto simp: cached_LocateChunkNodesBatch_def)
next
  case False
  let ?key = "\<lambda>h. keyChunksPrefix @ h"
  let ?R = "\<lambda>ix h x. \<exists>ids. x = Some ids \<and> (u \<longrightarrow> distinct ids) \<and> set ids = ix_chunks ix h"
  obtain c1 x where g: "cache_call (cMGet C now (map ?key hs)) c = (c1, x)" by force
  note l = cached_mget [OF assms(1) g]
  show ?thesis
  proof (cases x)
    case (Inl e)
    then show ?thesis using assms(2) False g l by (auto simp: cached_LocateChunkNodesBatch_def cached_view_def)
  next
    case (Inr got)
    let ?misses = "filter (\<lambda>h. map_of got (?key h) = None) hs"
    have "ok {} c' \<and> seen forget (ix c') = seen forget (ix c) \<and>
      (\<forall>out. r = Inr out \<longrightarrow> wf_alist out \<and> fst ` set out \<subseteq> set hs \<and> (\<forall>h \<in> set hs. ?R (ix c) h (map_of out h)))"
    proof (rule batch_through [where op = "LocateChunkNodesBatch S now ?misses" and key = ?key
        and dec = unmarshalStrings and enc = CStrings and R = ?R, OF assms(1) g [unfolded Inr] refl refl])
      show "inv s' \<and> seen cmp (view s') = seen cmp (view s) \<and> (\<forall>m'. m = Inr m' \<longrightarrow> wf_alist m' \<and>
          fst ` set m' \<subseteq> set ?misses \<and> (\<forall>h \<in> set ?misses. ?R (view s) h (map_of m' h)))"
        if "inv s" and that0: "LocateChunkNodesBatch S now ?misses s = (s', m)" for s s' m
      proof -
        have "\<forall>h \<in> set ?misses. \<exists>ids. map_of m' h = Some ids \<and> (once ?misses \<longrightarrow> distinct ids) \<and> set ids = ix_chunks (view s) h"
          if "m = Inr m'" for m'
          using locate_batch [OF \<open>inv s\<close> that0, THEN conjunct2, THEN conjunct2, rule_format, OF that]
          by (intro answered_entries(1)) simp_all
        then show ?thesis using locate_batch [OF \<open>inv s\<close> that0] by (simp only: simp_thms) fast
      qed
    qed (use assms(2) False g Inr in \<open>auto simp: inj_def fits_keys unmarshalStrings_def cached_LocateChunkNodesBatch_def Let_def\<close>)
    note all = this
    have "fst ` set out = set hs \<and> (\<forall>(h, ids) \<in> set out. (u \<longrightarrow> distinct ids) \<and> set ids = ix_chunks (ix c) h)" if "r = Inr out" for out
      using all [THEN conjunct2, THEN conjunct2, rule_format, OF that] by (intro answered_entries(2)) iprover+
    then show ?thesis using all by simp
  qed
qed

lemma cached_location_store: "location_store (cached_store S C) (ok {}) ix forget clk (\<lambda>hs. u)"
  apply (unfold_locales; (simp only: cached_store_def store.simps)?)
  subgoal by simp
  subgoal unfolding cached_ok_def cached_view_def by (elim conjE) (rule keyed)
  subgoal by (rule cached_upsert)
  subgoal by (rule cached_heartbeat)
  subgoal by (rule cached_get_peer)
  subgoal by (rule cached_list_peers)
  subgoal by (rule cached_deregister)
  subgoal by (rule cached_prune)
  subgoal by (rule cached_put_artifact)
  subgoal by (rule cached_get_artifact)
  subgoal by (rule cached_report_seed)
  subgoal by (rule cached_list_seeds)
  subgoal by (rule cached_report)
  subgoal by (rule cached_locate)
  subgoal by (rule cached_locate_batch)
  subgoal by (rule cached_get_peers)
  done

end

sublocale cached_over \<subseteq> behind: location_store "cached_store S C" "cached_ok inv view look (\<forall>hs. once hs) {}" "cached_view view"
    forget clk "\<lambda>hs. \<forall>hs. once hs"
  by (rule cached_location_store)

interpretation cached_mem: cached_over memory_store mem_inv mem_view "\<lambda>p. p" "\<lambda>t. t" "\<lambda>hs. True" memory_cache mc_look
  by (intro cached_over.intro mem.location_store_axioms mcache.meta_cache_axioms)


section \<open>A tracker over any such store\<close>

context location_store
begin

lemma call_inv:
  "call (UpsertPeer S now p) r = (r', x0) \<Longrightarrow> inv (rg_store r) \<Longrightarrow> inv (rg_store r')"
  "call (Heartbeat S now i) r = (r', x1) \<Longrightarrow> inv (rg_store r) \<Longrightarrow> inv (rg_store r')"
  "call (DeregisterPeer S now i) r = (r', x2) \<Longrightarrow> inv (rg_store r) \<Longrightarrow> inv (rg_store r')"
  "call (ReportChunks S now i hs) r = (r', x3) \<Longrightarrow> inv (rg_store r) \<Longrightarrow> inv (rg_store r')"
  "call (ReportSeed S now a i) r = (r', x4) \<Longrightarrow> inv (rg_store r) \<Longrightarrow> inv (rg_store r')"
  "call (PutArtifact S now rec) r = (r', x5) \<Longrightarrow> inv (rg_store r) \<Longrightarrow> inv (rg_store r')"
  "call (ListPeers S now d) r = (r', x6) \<Longrightarrow> inv (rg_store r) \<Longrightarrow> inv (rg_store r')"
  "call (ListSeeds S now a) r = (r', x7) \<Longrightarrow> inv (rg_store r) \<Longrightarrow> inv (rg_store r')"
  "call (PruneExpiredPeers S now d) r = (r', x8) \<Longrightarrow> inv (rg_store r) \<Longrightarrow> inv (rg_store r')"
  using upsert [THEN conjunct1, OF _ call_split(1)]
    heartbeat [THEN conjunct1, OF _ call_split(1)]
    deregister [THEN conjunct1, OF _ call_split(1)]
    report_chunks [THEN conjunct1, OF _ call_split(1)]
    report_seed [THEN conjunct1, OF _ call_split(1)]
    put_artifact [THEN conjunct1, OF _ call_split(1)]
    list_peers [THEN conjunct1, OF _ call_split(1)]
    list_seeds [THEN conjunct1, OF _ call_split(1)]
    prune [THEN conjunct1, OF _ call_split(1)]
  by simp_all

lemma ListActivePeers_inv: "ListActivePeers S now r = (r', ps) \<Longrightarrow> inv (rg_store r) \<Longrightarrow> inv (rg_store r')"
  by (auto simp: ListActivePeers_def split: prod.splits sum.splits dest: call_inv)

lemma prune_tick_inv: "inv (rg_store r) \<Longrightarrow> inv (rg_store (fst (prune_tick S now r)))"
proof -
  assume "inv (rg_store r)"
  moreover obtain r1 x where c: "call (PruneExpiredPeers S now (rg_peerExpiry r)) r = (r1, x)" by force
  moreover obtain r2 ps where l: "ListActivePeers S now r1 = (r2, ps)" by force
  ultimately have "inv (rg_store r2)" using call_inv(9) ListActivePeers_inv by blast
  then show ?thesis using c l by (cases x) (simp_all add: prune_tick_def PruneDeadPeers_def)
qed

lemma PutArtifact_inv: "inv (rg_store r) \<Longrightarrow> inv (rg_store (fst (server_PutArtifact S now a n v j r)))"
proof -
  assume inv: "inv (rg_store r)"
  obtain r1 x where c: "call (PutArtifact S now \<lparr>ar_ArtifactID = a, ar_Name = n, ar_Version = v, ar_ManifestJSON = j\<rparr>) r = (r1, x)" by force
  obtain r2 ps where l: "ListActivePeers S now r1 = (r2, ps)" by force
  have inv1: "inv (rg_store r1)" by (rule call_inv(6) [OF c inv])
  moreover have "inv (rg_store r2)" by (rule ListActivePeers_inv [OF l inv1])
  ultimately show ?thesis
    using c l by (cases x) (simp_all add: server_PutArtifact_def RegistryPutArtifact_def Let_def split: prod.splits)
qed

lemmas server_defs = server_RegisterPeer_def RegisterPeer_def server_Heartbeat_def HeartbeatNode_def server_DeregisterPeer_def
  DeregisterNode_def server_ReportChunks_def ReportNodeChunks_def server_ReportArtifact_def ReportArtifact_def
  server_GetArtifactStatus_def ReadyNodes_def server_ListPeers_def

lemma step_inv:
  assumes "inv (rg_store r)"
  shows "inv (rg_store (step S ev r))"
proof (cases ev)
  case (Tick now)
  then show ?thesis using prune_tick_inv [OF assms] by simp
next
  case (Request now q)
  show ?thesis
  proof (cases q)
    case (LocateChunksRequest i hs)
    have "keeps inv view cmp r (fst (LocateChunks S now i hs r))"
      using LocateChunks_spec [OF assms surjective_pairing surjective_pairing] by blast
    then show ?thesis using Request LocateChunksRequest by (simp add: server_LocateChunks_def keeps_def)
  next
    case (LocateArtifactRequest i a)
    have "keeps inv view cmp r (fst (LocateArtifact S now i a r))"
      using LocateArtifact_spec [OF assms surjective_pairing] by blast
    then show ?thesis using Request LocateArtifactRequest by (simp add: server_LocateArtifact_def keeps_def)
  next
    case (PutArtifactRequest a n v j)
    then show ?thesis using PutArtifact_inv [OF assms] Request by simp
  qed (use Request assms in \<open>auto simp: server_defs split: option.splits prod.splits sum.splits
      dest: call_inv ListActivePeers_inv intro: call_inv(1,3) [OF surjective_pairing] ListActivePeers_inv [OF surjective_pairing]\<close>)
qed

lemma trace_inv: "inv (rg_store r) \<Longrightarrow> inv (rg_store (fold (step S) evs r))"
  by (induction evs arbitrary: r) (simp_all add: step_inv)

end






end
