(* ===== verification/Advertise.thy ===== *)
theory Advertise
  imports Prelude "HOL-Library.Multiset"
begin

text \<open>
  \<open>pkg/advertise/advertise.go\<close>: chunk hashes that a node has are reported to the tracker in batches, in the background, with retries. The
  channel, the buffer of the loop and the queue of retries are lists; what the tracker answers to the \<open>n\<close>-th report is a parameter. The
  state also records what was reported and what was given up, so that the invariant can say where every hash is.
\<close>

section \<open>State\<close>

record advert_config =
  ad_BatchSize :: int
  ad_Interval :: int
  ad_MaxRetries :: int
  ad_RetryBackoff :: int
  ad_MaxRetryBackoff :: int

record retry_entry =
  re_hash :: string
  re_attempt :: int
  re_nextAt :: int

text \<open>
  \<open>av_calls\<close> counts the reports made, \<open>av_reported\<close> are the hashes of those that succeeded, \<open>av_failed\<close> those counted as failures,
  \<open>av_depth\<close> is the gauge of the queue. The interval of the ticker only says when its turns come; closing \<open>done\<close> is the event \<open>AdDone\<close>.
\<close>

record advertiser =
  av_client :: bool
  av_nodeID :: string
  av_batchSize :: int
  av_interval :: int
  av_maxRetries :: int
  av_retryInitial :: int
  av_retryMax :: int
  av_ch :: "string list"
  av_buf :: "string list"
  av_retry :: "retry_entry list"
  av_calls :: nat
  av_reported :: "string list"
  av_failed :: "string list"
  av_depth :: int

definition NewAdvertiser :: "bool \<Rightarrow> string \<Rightarrow> advert_config \<Rightarrow> advertiser" where
  "NewAdvertiser client nodeID cfg =
     \<lparr>av_client = client, av_nodeID = nodeID, av_batchSize = ad_BatchSize cfg, av_interval = ad_Interval cfg, av_maxRetries = ad_MaxRetries cfg, av_retryInitial = ad_RetryBackoff cfg,
      av_retryMax = (if ad_MaxRetryBackoff cfg \<le> 0 then 5 * 1000000000 else ad_MaxRetryBackoff cfg),
      av_ch = [], av_buf = [], av_retry = [], av_calls = 0, av_reported = [], av_failed = [], av_depth = 0\<rparr>"

section \<open>Operations\<close>

fun double_backoff :: "int \<Rightarrow> nat \<Rightarrow> int \<Rightarrow> int" where
  "double_backoff retryMax 0 backoff = backoff"
| "double_backoff retryMax (Suc n) backoff =
     (let b = wrap64 (backoff * 2) in if b > retryMax then retryMax else double_backoff retryMax n b)"

definition maxRetryQueue :: nat where "maxRetryQueue = 4096"

fun queue_retries :: "int \<Rightarrow> int \<Rightarrow> string list \<Rightarrow> advertiser \<Rightarrow> advertiser" where
  "queue_retries attempt nextAt [] a = a"
| "queue_retries attempt nextAt (h # hs) a =
     (if length (av_retry a) \<ge> maxRetryQueue then queue_retries attempt nextAt hs (a\<lparr>av_failed := av_failed a @ [h]\<rparr>)
      else queue_retries attempt nextAt hs
        (a\<lparr>av_retry := av_retry a @ [\<lparr>re_hash = h, re_attempt = attempt, re_nextAt = nextAt\<rparr>], av_depth := av_depth a + 1\<rparr>))"

definition scheduleRetry :: "int \<Rightarrow> string list \<Rightarrow> int \<Rightarrow> advertiser \<Rightarrow> advertiser" where
  "scheduleRetry now hashes attempt a =
     (if hashes = [] then a
      else queue_retries attempt (now + double_backoff (av_retryMax a) (nat (attempt - 1)) (av_retryInitial a)) hashes a)"

definition Enqueue :: "int \<Rightarrow> string \<Rightarrow> advertiser \<Rightarrow> advertiser" where
  "Enqueue now hash a =
     (if \<not> av_client a \<or> hash = [] then a
      else if length (av_ch a) < 1024 then a\<lparr>av_ch := av_ch a @ [hash], av_depth := av_depth a + 1\<rparr>
      else scheduleRetry now [hash] 0 a)"

fun reconcile_loop :: "int \<Rightarrow> string list \<Rightarrow> string list \<Rightarrow> advertiser \<Rightarrow> advertiser" where
  "reconcile_loop now [] seen a = a"
| "reconcile_loop now (h # hs) seen a =
     (if h = [] \<or> h \<in> set seen then reconcile_loop now hs seen a else reconcile_loop now hs (h # seen) (Enqueue now h a))"

definition Reconcile :: "int \<Rightarrow> string list \<Rightarrow> advertiser \<Rightarrow> advertiser" where
  "Reconcile now hashes a = reconcile_loop now hashes [] a"

text \<open>\<open>report\<close> says whether the \<open>n\<close>-th call of \<open>ReportChunks\<close> succeeds.\<close>

definition ad_flush :: "(nat \<Rightarrow> bool) \<Rightarrow> int \<Rightarrow> string list \<Rightarrow> int \<Rightarrow> advertiser \<Rightarrow> advertiser" where
  "ad_flush report now hashes attempt a =
     (if \<not> av_client a \<or> hashes = [] then a
      else
        let a' = a\<lparr>av_calls := Suc (av_calls a)\<rparr>
        in if \<not> report (av_calls a)
           then (if attempt + 1 < av_maxRetries a then scheduleRetry now hashes (attempt + 1) a'
                 else a'\<lparr>av_failed := av_failed a @ hashes\<rparr>)
           else a'\<lparr>av_reported := av_reported a @ hashes, av_depth := av_depth a - int (length hashes)\<rparr>)"

definition flush_buf :: "(nat \<Rightarrow> bool) \<Rightarrow> int \<Rightarrow> advertiser \<Rightarrow> advertiser" where
  "flush_buf report now a = (ad_flush report now (av_buf a) 0 a)\<lparr>av_buf := []\<rparr>"

definition flushRetries :: "(nat \<Rightarrow> bool) \<Rightarrow> int \<Rightarrow> bool \<Rightarrow> advertiser \<Rightarrow> advertiser" where
  "flushRetries report now force a =
     (let due = (\<lambda>e. force \<or> \<not> re_nextAt e > now)
      in fold (\<lambda>e. ad_flush report now [re_hash e] (re_attempt e)) (filter due (av_retry a))
           (a\<lparr>av_retry := filter (\<lambda>e. \<not> due e) (av_retry a)\<rparr>))"

section \<open>The loop\<close>

text \<open>The cases of its \<open>select\<close>: a hash from the channel, the ticker, and the end, which drains the channel.\<close>

definition on_receive :: "(nat \<Rightarrow> bool) \<Rightarrow> int \<Rightarrow> advertiser \<Rightarrow> advertiser" where
  "on_receive report now a =
     (case av_ch a of
        [] \<Rightarrow> a
      | h # ch \<Rightarrow>
          let a = a\<lparr>av_ch := ch, av_buf := av_buf a @ [h]\<rparr>
          in if int (length (av_buf a)) \<ge> av_batchSize a then flush_buf report now a else a)"

definition on_tick :: "(nat \<Rightarrow> bool) \<Rightarrow> int \<Rightarrow> advertiser \<Rightarrow> advertiser" where
  "on_tick report now a = flushRetries report now False (flush_buf report now a)"

definition on_done :: "(nat \<Rightarrow> bool) \<Rightarrow> int \<Rightarrow> advertiser \<Rightarrow> advertiser" where
  "on_done report now a =
     flushRetries report now True (flush_buf report now (a\<lparr>av_ch := [], av_buf := av_buf a @ av_ch a\<rparr>))"

datatype ad_event = AdEnqueue int string | AdReconcile int "string list" | AdReceive int | AdTick int | AdDone int

fun ad_step :: "(nat \<Rightarrow> bool) \<Rightarrow> ad_event \<Rightarrow> advertiser \<Rightarrow> advertiser" where
  "ad_step report (AdEnqueue now h) a = Enqueue now h a"
| "ad_step report (AdReconcile now hs) a = Reconcile now hs a"
| "ad_step report (AdReceive now) a = on_receive report now a"
| "ad_step report (AdTick now) a = on_tick report now a"
| "ad_step report (AdDone now) a = on_done report now a"

section \<open>Where every hash is\<close>

definition holdings :: "advertiser \<Rightarrow> string multiset" where
  "holdings a = mset (av_ch a) + mset (av_buf a) + mset (map re_hash (av_retry a)) + mset (av_reported a) + mset (av_failed a)"

lemma queue_retries_holds:
  "holdings (queue_retries n t hs a) = holdings a + mset hs \<and> av_client (queue_retries n t hs a) = av_client a \<and>
   av_buf (queue_retries n t hs a) = av_buf a"
  by (induction n t hs a rule: queue_retries.induct) (auto simp: holdings_def)

lemma scheduleRetry_holds:
  "holdings (scheduleRetry now hs n a) = holdings a + mset hs" "av_client (scheduleRetry now hs n a) = av_client a"
  "av_buf (scheduleRetry now hs n a) = av_buf a"
  by (simp_all add: scheduleRetry_def queue_retries_holds)

lemma Enqueue_holds:
  "holdings (Enqueue now h a) = holdings a + (if av_client a \<and> h \<noteq> [] then {#h#} else {#})" "av_client (Enqueue now h a) = av_client a"
  by (simp_all add: Enqueue_def scheduleRetry_holds) (simp add: holdings_def)

lemma fresh_mset:
  "h \<notin> set seen \<Longrightarrow> mset (remdups (filter (\<lambda>x. x \<noteq> [] \<and> x \<notin> set (h # seen)) hs)) + {#h#} =
   mset (remdups (h # filter (\<lambda>x. x \<noteq> [] \<and> x \<notin> set seen) hs))"
proof -
  let ?S = "set (filter (\<lambda>x. x \<noteq> [] \<and> x \<notin> set seen) hs)"
  have "set (filter (\<lambda>x. x \<noteq> [] \<and> x \<notin> set (h # seen)) hs) = ?S - {h}" by auto
  then show ?thesis by (simp add: mset_set_set [symmetric] mset_set.remove [symmetric] del: set_filter)
qed

lemma reconcile_loop_holds:
  "av_client a \<Longrightarrow> holdings (reconcile_loop now hs seen a) = holdings a + mset (remdups (filter (\<lambda>h. h \<noteq> [] \<and> h \<notin> set seen) hs)) \<and>
   av_client (reconcile_loop now hs seen a)"
proof (induction now hs seen a rule: reconcile_loop.induct)
  case (2 now h hs seen a)
  show ?case
  proof (cases "h = [] \<or> h \<in> set seen")
    case True
    then show ?thesis using 2 by auto
  next
    case False
    then have "holdings (reconcile_loop now (h # hs) seen a) =
        holdings (Enqueue now h a) + mset (remdups (filter (\<lambda>x. x \<noteq> [] \<and> x \<notin> set (h # seen)) hs))"
      "av_client (reconcile_loop now (h # hs) seen a)"
      using 2 by (auto simp: Enqueue_holds)
    then show ?thesis using False 2(3) fresh_mset [of h seen hs] by (simp add: Enqueue_holds ac_simps)
  qed
qed simp

lemma ad_flush_holds:
  "av_client a \<Longrightarrow> holdings (ad_flush report now hs n a) = holdings a + mset hs \<and> av_client (ad_flush report now hs n a) \<and>
   av_buf (ad_flush report now hs n a) = av_buf a"
  by (auto simp: ad_flush_def Let_def scheduleRetry_holds) (auto simp: holdings_def)

lemma holdings_fields:
  "holdings (a\<lparr>av_buf := x\<rparr>) + mset (av_buf a) = holdings a + mset x"
  "holdings (a\<lparr>av_retry := r\<rparr>) + mset (map re_hash (av_retry a)) = holdings a + mset (map re_hash r)"
  by (simp_all add: holdings_def ac_simps)

lemma flush_buf_holds: "av_client a \<Longrightarrow> holdings (flush_buf report now a) = holdings a \<and> av_client (flush_buf report now a)"
proof -
  assume "av_client a"
  note f = ad_flush_holds [OF this, of report now "av_buf a" 0]
  from holdings_fields(1) [where a = "ad_flush report now (av_buf a) 0 a" and x = "[]"] f show ?thesis by (simp add: flush_buf_def)
qed

lemma flushes_hold:
  "av_client a \<Longrightarrow> holdings (fold (\<lambda>e. ad_flush report now [re_hash e] (re_attempt e)) es a) = holdings a + mset (map re_hash es) \<and>
     av_client (fold (\<lambda>e. ad_flush report now [re_hash e] (re_attempt e)) es a)"
  by (induction es arbitrary: a) (simp_all add: ad_flush_holds)

lemma mset_split: "mset (map f (filter P xs)) + mset (map f (filter (\<lambda>x. \<not> P x) xs)) = mset (map f xs)"
  by (induction xs) auto

lemma flushRetries_holds: "av_client a \<Longrightarrow> holdings (flushRetries report now force a) = holdings a \<and> av_client (flushRetries report now force a)"
proof -
  assume c: "av_client a"
  let ?due = "\<lambda>e. force \<or> \<not> re_nextAt e > now"
  let ?a = "a\<lparr>av_retry := filter (\<lambda>e. \<not> ?due e) (av_retry a)\<rparr>"
  have "holdings ?a + mset (map re_hash (filter ?due (av_retry a))) + mset (map re_hash (filter (\<lambda>e. \<not> ?due e) (av_retry a))) =
      holdings a + mset (map re_hash (filter (\<lambda>e. \<not> ?due e) (av_retry a)))"
    unfolding add.assoc mset_split by (rule holdings_fields(2))
  then have "holdings ?a + mset (map re_hash (filter ?due (av_retry a))) = holdings a" by (simp only: add_right_cancel)
  then show ?thesis using flushes_hold [of ?a report now "filter ?due (av_retry a)"] c
    unfolding flushRetries_def Let_def by simp
qed

lemma on_receive_holds: "av_client a \<Longrightarrow> holdings (on_receive report now a) = holdings a \<and> av_client (on_receive report now a)"
proof (cases "av_ch a")
  case (Cons h ch)
  assume "av_client a"
  moreover have "holdings (a\<lparr>av_ch := ch, av_buf := av_buf a @ [h]\<rparr>) = holdings a" using Cons by (simp add: holdings_def)
  ultimately show ?thesis
    using Cons flush_buf_holds [of "a\<lparr>av_ch := ch, av_buf := av_buf a @ [h]\<rparr>" report now] by (simp add: on_receive_def Let_def)
qed (simp add: on_receive_def)

fun enqueued :: "ad_event \<Rightarrow> string list" where
  "enqueued (AdEnqueue now h) = (if h = [] then [] else [h])"
| "enqueued (AdReconcile now hs) = remdups (filter (\<lambda>h. h \<noteq> []) hs)"
| "enqueued _ = []"

lemma ad_step_holds:
  assumes "av_client a"
  shows "holdings (ad_step report ev a) = holdings a + mset (enqueued ev) \<and> av_client (ad_step report ev a)"
proof (cases ev)
  case (AdTick now)
  then show ?thesis using flush_buf_holds [OF assms, of report now] flushRetries_holds by (simp add: on_tick_def)
next
  case (AdDone now)
  let ?a = "a\<lparr>av_ch := [], av_buf := av_buf a @ av_ch a\<rparr>"
  have "holdings ?a = holdings a" by (simp add: holdings_def)
  then show ?thesis using AdDone flush_buf_holds [of ?a report now] flushRetries_holds assms by (simp add: on_done_def)
qed (use assms Enqueue_holds on_receive_holds reconcile_loop_holds [OF assms, where seen = "[]"] in \<open>simp_all add: Reconcile_def\<close>)

text \<open>
  C32. The advertiser loses no hash while it runs: after any calls and turns of its loop, with any reports failing, every hash that was
  handed to it is, as often as it was handed over, in the channel, in the buffer, in the queue of retries, among those reported to the tracker,
  or among those counted as failures.
\<close>

theorem advertiser_loses_nothing:
  assumes "a = fold (ad_step report) evs (NewAdvertiser True nodeID cfg)"
  shows "mset (concat (map enqueued evs)) =
    mset (av_ch a) + mset (av_buf a) + mset (map re_hash (av_retry a)) + mset (av_reported a) + mset (av_failed a)"
proof -
  have "av_client b \<Longrightarrow> holdings (fold (ad_step report) evs b) = holdings b + mset (concat (map enqueued evs))" for b
  proof (induction evs arbitrary: b)
    case (Cons ev evs)
    then show ?case using ad_step_holds [OF Cons.prems, of report ev] by (simp add: ac_simps)
  qed simp
  from this [of "NewAdvertiser True nodeID cfg"] show ?thesis using assms by (simp add: holdings_def NewAdvertiser_def)
qed

theorem advertiser_loses_nothing_witness:
  "let a = fold (ad_step (\<lambda>n. n \<noteq> 0)) [AdEnqueue 0 ''h'', AdEnqueue 0 ''g'', AdReceive 1, AdReceive 1, AdTick 300000000]
       (NewAdvertiser True ''n'' \<lparr>ad_BatchSize = 2, ad_Interval = 100000000, ad_MaxRetries = 5, ad_RetryBackoff = 100000000, ad_MaxRetryBackoff = 0\<rparr>)
   in mset [''h'', ''g''] =
    mset (av_ch a) + mset (av_buf a) + mset (map re_hash (av_retry a)) + mset (av_reported a) + mset (av_failed a)"
  using advertiser_loses_nothing [OF refl, where report = "\<lambda>n. n \<noteq> 0"
      and evs = "[AdEnqueue 0 ''h'', AdEnqueue 0 ''g'', AdReceive 1, AdReceive 1, AdTick 300000000]"]
  by (simp only: Let_def) simp

end
