(* ===== verification/PeerServer.thy ===== *)
theory PeerServer
  imports ChunkStore Float64
begin

text \<open>
  \<open>pkg/peer/server.go\<close>: the gRPC server of a node, which streams chunks to other nodes. The loop that sends a
  chunk is a function of the file it has open, with the answers of the rate limit and of the stream as parameters. The
  admission of uploads is a transition system of concurrent requests: a bounded number of slots and a bounded
  queue in front of them. What a request to synchronise does is the handler's business and a parameter here. Listening
  and the hook that tests set are left out.
\<close>

section \<open>Decimal numbers\<close>

text \<open>\<open>strconv.ParseInt(s, 10, 64)\<close>.\<close>

fun parse_digits :: "int \<Rightarrow> string \<Rightarrow> int option" where
  "parse_digits n [] = Some n"
| "parse_digits n (c # s) =
     (if 48 \<le> ord c \<and> ord c \<le> 57 then parse_digits (10 * n + (int (ord c) - 48)) s else None)"

definition ParseInt10 :: "string \<Rightarrow> int option" where
  "ParseInt10 s =
     (let neg = has_prefix s ''-'';
          digits = (if neg \<or> has_prefix s ''+'' then drop 1 s else s)
      in if digits = [] then None
         else case parse_digits 0 digits of
             None \<Rightarrow> None
           | Some n \<Rightarrow>
               let v = (if neg then - n else n)
               in if - (2 ^ 63) \<le> v \<and> v < 2 ^ 63 then Some v else None)"

section \<open>The server\<close>

definition StreamSliceSize :: nat where "StreamSliceSize = 64 * 1024"

record upload_limits =
  ul_MaxConcurrency :: int
  ul_MaxQueueSize :: int
  ul_MaxBandwidthMbps :: int

text \<open>
  \<open>ps_slots\<close> is the number of tokens in the channel of slots and \<open>ps_cap\<close> its capacity.
\<close>

record peer_server =
  ps_nodeID :: string
  ps_cache :: chunk_store
  ps_cap :: int
  ps_slots :: int
  ps_queued :: int
  ps_maxQueue :: int
  ps_bytesPerSec :: rat
  ps_activeStreams :: int

definition NewServerWithLimits :: "string \<Rightarrow> chunk_store \<Rightarrow> upload_limits \<Rightarrow> peer_server" where
  "NewServerWithLimits nodeID c limits =
     \<lparr>ps_nodeID = nodeID, ps_cache = c,
      ps_cap = (if ul_MaxConcurrency limits \<le> 0 then 16 else ul_MaxConcurrency limits), ps_slots = 0, ps_queued = 0,
      ps_maxQueue = (if ul_MaxQueueSize limits < 0 then 0 else ul_MaxQueueSize limits),
      ps_bytesPerSec =
        (if ul_MaxBandwidthMbps limits > 0
         then fl64 (fl64 (fl64 (fl64 (of_int (ul_MaxBandwidthMbps limits)) * 1024) * 1024) / 8) else 0),
      ps_activeStreams = 0\<rparr>"

definition NewServer :: "string \<Rightarrow> chunk_store \<Rightarrow> peer_server" where
  "NewServer nodeID c =
     NewServerWithLimits nodeID c \<lparr>ul_MaxConcurrency = 16, ul_MaxQueueSize = 100, ul_MaxBandwidthMbps = 0\<rparr>"

text \<open>
  How long a slice of \<open>n\<close> bytes has to wait, and the wait: \<open>timer\<close> answers with the error of the context when it
  ends first. The limiter of the source is set together with the rate and is never reached.
\<close>

definition bandwidth_delay :: "peer_server \<Rightarrow> int \<Rightarrow> int" where
  "bandwidth_delay s n =
     (let active = (if ps_activeStreams s < 1 then 1 else ps_activeStreams s);
          share = fl64 (ps_bytesPerSec s / fl64 (of_int active))
      in if share > 0 then int64_of (fl64 (fl64 (fl64 (of_int n) / share) * 1000000000)) else 0)"

definition waitBandwidth :: "peer_server \<Rightarrow> (int \<Rightarrow> go_error option) \<Rightarrow> int \<Rightarrow> go_error option" where
  "waitBandwidth s timer n =
     (if n \<le> 0 then None
      else if ps_bytesPerSec s > 0
      then (let delay = bandwidth_delay s n in if delay > 0 then timer delay else None)
      else None)"

text \<open>\<open>status.FromContextError\<close>.\<close>

definition FromContextError :: "go_error \<Rightarrow> go_error" where
  "FromContextError e =
     GrpcStatus (if errors_Is e ErrDeadline then DeadlineExceeded else if errors_Is e ErrCanceled then Canceled else Unknown)
       (err_text e)"

section \<open>Streaming a chunk\<close>

record chunk_data =
  cd_Payload :: bytes
  cd_Offset :: int
  cd_TotalSize :: int
  cd_IsEof :: bool

text \<open>
  The loop: slices of the rest of the file, until the end of the file or until a wait or a send fails. \<open>k\<close> counts the
  slices; \<open>timer k\<close> and \<open>send k\<close> are what happens to slice \<open>k\<close>.
\<close>

function send_loop ::
    "peer_server \<Rightarrow> (nat \<Rightarrow> int \<Rightarrow> go_error option) \<Rightarrow> (nat \<Rightarrow> go_error option) \<Rightarrow> int \<Rightarrow> bytes \<Rightarrow> int \<Rightarrow> nat \<Rightarrow>
     chunk_data list \<times> unit result" where
  "send_loop s timer send totalSize rest currentOffset k =
     (if rest = [] then ([], Inr ())
      else
        let payload = take StreamSliceSize rest; n = int (length payload)
        in case waitBandwidth s (timer k) n of
             Some e \<Rightarrow> ([], Inl (FromContextError e))
           | None \<Rightarrow>
               (case send k of
                  Some e \<Rightarrow> ([], Inl (GrpcStatus Canceled (''failed to send chunk slice: '' @ err_text e)))
                | None \<Rightarrow>
                    (case send_loop s timer send totalSize (drop StreamSliceSize rest) (wrap64 (currentOffset + n)) (Suc k) of
                       (sent, r) \<Rightarrow>
                         (\<lparr>cd_Payload = payload, cd_Offset = currentOffset, cd_TotalSize = totalSize,
                           cd_IsEof = (wrap64 (currentOffset + n) \<ge> totalSize)\<rparr> # sent, r))))"
  by auto
termination
  by (relation "measure (\<lambda>(s, timer, send, totalSize, rest, currentOffset, k). length rest)") (auto simp: StreamSliceSize_def)

text \<open>The offset a request asks for: its field, or the header of older clients.\<close>

definition requested_offset :: "int \<Rightarrow> string list \<Rightarrow> int" where
  "requested_offset offset vals =
     (if offset = 0
      then (case vals of [] \<Rightarrow> 0 | v # _ \<Rightarrow> (case ParseInt10 v of None \<Rightarrow> 0 | Some n \<Rightarrow> n))
      else offset)"

text \<open>
  \<open>GetChunk\<close> once it is admitted: what is sent, and how the call ends. \<open>vals\<close> are the values of the header
  \<open>x-chunk-offset\<close>. The bytes of an open file do not change: commits replace files by renaming.
\<close>

definition GetChunk ::
    "peer_server \<Rightarrow> fsys \<Rightarrow> (nat \<Rightarrow> int \<Rightarrow> go_error option) \<Rightarrow> (nat \<Rightarrow> go_error option) \<Rightarrow> string \<Rightarrow> int \<Rightarrow> string list \<Rightarrow>
     chunk_data list \<times> unit result" where
  "GetChunk s fs timer send chunkHash reqOffset vals =
     (if chunkHash = [] then ([], Inl (GrpcStatus InvalidArgument ''chunk_hash is required''))
      else case GetChunkReader (ps_cache s) fs chunkHash of
          Inl e \<Rightarrow> ([], Inl (GrpcStatus NotFound (''chunk not found in local cache: '' @ err_text e)))
        | Inr (reader, totalSize) \<Rightarrow>
            let offset = requested_offset reqOffset vals
            in if offset < 0 then ([], Inl (GrpcStatus InvalidArgument ''offset must be >= 0''))
               else if offset > totalSize then ([], Inl (GrpcStatus OutOfRange ''offset past chunk size''))
               else case read_all fs reader of
                   Inl e \<Rightarrow> ([], Inl (GrpcStatus Internal (''error reading chunk file: '' @ err_text e)))
                 | Inr d \<Rightarrow> send_loop s timer send totalSize (drop (nat offset) d) offset 0)"

section \<open>Requests to synchronise\<close>

record 'h sync_handler =
  HandleSync :: "string \<Rightarrow> string \<Rightarrow> string \<Rightarrow> string \<Rightarrow> 'h \<Rightarrow> 'h \<times> string result"
  GetStatus :: "string \<Rightarrow> 'h \<Rightarrow> string \<times> int \<times> int"

text \<open>The response: accepted, job, message.\<close>

definition SyncArtifact ::
    "'h sync_handler option \<Rightarrow> string \<Rightarrow> string \<Rightarrow> string \<Rightarrow> string \<Rightarrow> 'h \<Rightarrow> 'h \<times> bool \<times> string \<times> string" where
  "SyncArtifact handler manifestJson destination originType originURI h =
     (case handler of
        None \<Rightarrow> (h, False, [], ''sync handler not configured'')
      | Some H \<Rightarrow>
          (case HandleSync H manifestJson destination originType originURI h of
             (h', Inl e) \<Rightarrow> (h', False, [], err_text e)
           | (h', Inr jobID) \<Rightarrow> (h', True, jobID, ''sync started successfully'')))"

text \<open>
  The response: node, number of chunks, bytes. The errors of the listings are dropped, and a walk that fails has seen
  part of the chunks: \<open>seen\<close> is what it has counted.
\<close>

definition GetNodeStatus ::
    "'h sync_handler option \<Rightarrow> peer_server \<Rightarrow> fsys \<Rightarrow> int \<times> int \<Rightarrow> string \<Rightarrow> 'h \<Rightarrow> string \<times> int \<times> int" where
  "GetNodeStatus handler s fs seen jobID h =
     (case handler of
        Some H \<Rightarrow> GetStatus H jobID h
      | None \<Rightarrow>
          (ps_nodeID s,
           (case ListChunks (ps_cache s) fs of Inl e \<Rightarrow> fst seen | Inr chunks \<Rightarrow> int (length chunks)),
           (case TotalCachedBytes (ps_cache s) fs of Inl e \<Rightarrow> snd seen | Inr n \<Rightarrow> n)))"

section \<open>Admission\<close>



























section \<open>What is sent\<close>

text \<open>The slices of \<open>rest\<close> from the offset \<open>cur\<close> on, or some first ones.\<close>

fun slices_of :: "int \<Rightarrow> int \<Rightarrow> bytes \<Rightarrow> chunk_data list \<Rightarrow> bool" where
  "slices_of totalSize cur rest [] = True"
| "slices_of totalSize cur rest (f # fs) =
     (rest \<noteq> [] \<and>
      f = \<lparr>cd_Payload = take StreamSliceSize rest, cd_Offset = cur, cd_TotalSize = totalSize,
           cd_IsEof = (length rest \<le> StreamSliceSize)\<rparr> \<and>
      slices_of totalSize (cur + int (length (take StreamSliceSize rest))) (drop StreamSliceSize rest) fs)"

declare send_loop.simps [simp del]

lemma send_loop_stops:
  "rest = [] \<or> waitBandwidth s (timer k) (int (length (take StreamSliceSize rest))) \<noteq> None \<or> send k \<noteq> None \<Longrightarrow>
     send_loop s timer send totalSize rest cur k = (sent, r) \<Longrightarrow> sent = [] \<and> (r = Inr () \<longrightarrow> rest = [])"
  by (subst (asm) send_loop.simps) (auto simp: Let_def split: if_splits option.splits prod.splits)

lemma send_loop_goes_on:
  assumes "rest \<noteq> []" and "waitBandwidth s (timer k) (int (length (take StreamSliceSize rest))) = None" and "send k = None"
  shows "send_loop s timer send totalSize rest cur k =
    (let n = int (length (take StreamSliceSize rest));
         (sent, r) = send_loop s timer send totalSize (drop StreamSliceSize rest) (wrap64 (cur + n)) (Suc k)
     in (\<lparr>cd_Payload = take StreamSliceSize rest, cd_Offset = cur, cd_TotalSize = totalSize,
         cd_IsEof = (wrap64 (cur + n) \<ge> totalSize)\<rparr> # sent, r))"
  using assms by (subst send_loop.simps) (simp add: Let_def)

lemma send_loop_slices:
  assumes "send_loop s timer send totalSize rest cur k = (sent, r)"
    and "totalSize = cur + int (length rest)" and "0 \<le> cur" and "totalSize < 2 ^ 63"
  shows "slices_of totalSize cur rest sent \<and> (r = Inr () \<longrightarrow> concat (map cd_Payload sent) = rest)"
  using assms
proof (induction "length rest" arbitrary: rest cur k sent r rule: less_induct)
  case less
  let ?n = "int (length (take StreamSliceSize rest))"
  show ?case
  proof (cases "rest = [] \<or> waitBandwidth s (timer k) ?n \<noteq> None \<or> send k \<noteq> None")
    case True
    from send_loop_stops [OF this less.prems(1)] show ?thesis by auto
  next
    case False
    then have go: "rest \<noteq> []" "waitBandwidth s (timer k) ?n = None" "send k = None" by blast+
    obtain sent' r' where rec: "send_loop s timer send totalSize (drop StreamSliceSize rest) (wrap64 (cur + ?n)) (Suc k) = (sent', r')"
      by force
    have w: "wrap64 (cur + ?n) = cur + ?n" using less.prems(2-4) by (intro wrap64_id) auto
    have "slices_of totalSize (cur + ?n) (drop StreamSliceSize rest) sent' \<and>
        (r' = Inr () \<longrightarrow> concat (map cd_Payload sent') = drop StreamSliceSize rest)"
    proof (rule less.hyps [OF _ rec [unfolded w]])
      show "length (drop StreamSliceSize rest) < length rest" using go(1) by (simp add: StreamSliceSize_def)
    qed (use less.prems(2-4) in auto)
    moreover have "sent = \<lparr>cd_Payload = take StreamSliceSize rest, cd_Offset = cur, cd_TotalSize = totalSize,
        cd_IsEof = (totalSize \<le> cur + ?n)\<rparr> # sent'" "r = r'"
      using less.prems(1) unfolding send_loop_goes_on [where timer = timer and send = send and k = k, OF go] Let_def w rec [unfolded w] by simp_all
    moreover have "(totalSize \<le> cur + ?n) = (length rest \<le> StreamSliceSize)" using less.prems(2) by auto
    ultimately show ?thesis using go(1) by simp
  qed
qed

text \<open>An admitted request gets an error and nothing, or the slices of the committed chunk from the offset it asks for.\<close>

lemma GetChunk_slices:
  assumes "store_inv (ps_cache s) fs" and "hex_hash h" and "GetChunk s fs timer send h reqOffset vals = (sent, r)"
    and "\<And>d. committed (cas_of (ps_cache s) fs) h = Some d \<Longrightarrow> int (length d) < 2 ^ 63"
  shows "sent = [] \<and> isl r \<or>
    (\<exists>d offset. committed (cas_of (ps_cache s) fs) h = Some d \<and> offset = requested_offset reqOffset vals \<and>
       0 \<le> offset \<and> offset \<le> int (length d) \<and> slices_of (int (length d)) offset (drop (nat offset) d) sent \<and>
       (r = Inr () \<longrightarrow> concat (map cd_Payload sent) = drop (nat offset) d))"
proof (cases "sent = [] \<and> isl r")
  case False
  let ?o = "requested_offset reqOffset vals"
  obtain f n d where f: "GetChunkReader (ps_cache s) fs h = Inr (f, n)" "read_all fs f = Inr d" "0 \<le> ?o" "?o \<le> n"
    and loop: "send_loop s timer send n (drop (nat ?o) d) ?o 0 = (sent, r)"
    using assms(3) False by (auto simp: GetChunk_def Let_def split: if_splits sum.splits prod.splits)
  note d = GetChunkReader_committed [OF assms(1,2) f(1,2)]
  have "slices_of n ?o (drop (nat ?o) d) sent \<and> (r = Inr () \<longrightarrow> concat (map cd_Payload sent) = drop (nat ?o) d)"
    by (rule send_loop_slices [OF loop]) (use d f(3,4) assms(4) in auto)
  then show ?thesis using d f(3,4) by blast
qed simp

lemma slices_prefix: "slices_of n cur rest sent \<Longrightarrow> \<exists>t. rest = concat (map cd_Payload sent) @ t"
proof (induction sent arbitrary: cur rest)
  case (Cons f sent)
  then obtain t where "drop StreamSliceSize rest = concat (map cd_Payload sent) @ t" by fastforce
  then have "rest = take StreamSliceSize rest @ concat (map cd_Payload sent) @ t" by (metis append_take_drop_id)
  then show ?case using Cons.prems by (metis (lifting) append.assoc chunk_data.select_convs(1) concat.simps(2) list.simps(9) slices_of.simps(2))
qed simp

end
