(* ===== verification/PeerClient.thy ===== *)
theory PeerClient
  imports PeerServer
begin

text \<open>
  \<open>pkg/peer/client.go\<close>: the pool of connections to peers, and the download of a chunk over one of them. A connection
  is a number; the pool keeps which ones were closed. Dialling and the stream of answers are the network's: parameters.
  The lemmas join this side with \<open>PeerServer\<close>: what a server streams is what the client writes.
\<close>

section \<open>The pool of connections\<close>

record pool_config =
  pl_MaxConnections :: int
  pl_IdleTimeout :: int

definition DefaultPoolConfig :: pool_config where
  "DefaultPoolConfig = \<lparr>pl_MaxConnections = 64, pl_IdleTimeout = 2 * 60 * 1000000000\<rparr>"

record pooled_conn =
  pc_conn :: nat
  pc_lastUsed :: int

record client_pool =
  cp_conns :: "(string \<times> pooled_conn) list"
  cp_maxConns :: int
  cp_idleTimeout :: int
  cp_stopped :: bool
  cp_closed :: "nat list"

definition NewClientPoolWithConfig :: "pool_config \<Rightarrow> client_pool" where
  "NewClientPoolWithConfig cfg =
     \<lparr>cp_conns = [], cp_maxConns = (if pl_MaxConnections cfg \<le> 0 then 64 else pl_MaxConnections cfg),
      cp_idleTimeout = (if pl_IdleTimeout cfg \<le> 0 then 2 * 60 * 1000000000 else pl_IdleTimeout cfg),
      cp_stopped = False, cp_closed = []\<rparr>"

definition NewClientPool :: client_pool where
  "NewClientPool = NewClientPoolWithConfig DefaultPoolConfig"

text \<open>\<open>conn.Close()\<close>.\<close>

definition close_conns :: "nat list \<Rightarrow> client_pool \<Rightarrow> client_pool" where
  "close_conns cs p = p\<lparr>cp_closed := cs @ cp_closed p\<rparr>"

text \<open>A round of \<open>evictLoop\<close>.\<close>

definition evictIdle :: "int \<Rightarrow> client_pool \<Rightarrow> client_pool" where
  "evictIdle now p =
     (let idle = (\<lambda>(addr, pc). now - pc_lastUsed pc \<ge> cp_idleTimeout p)
      in close_conns (map (pc_conn \<circ> snd) (filter idle (cp_conns p)))
           (p\<lparr>cp_conns := filter (\<lambda>e. \<not> idle e) (cp_conns p)\<rparr>))"

fun oldest_loop :: "(string \<times> pooled_conn) list \<Rightarrow> string \<Rightarrow> int \<Rightarrow> string" where
  "oldest_loop [] oldestAddr oldest = oldestAddr"
| "oldest_loop ((addr, pc) # conns) oldestAddr oldest =
     (if oldestAddr = [] \<or> pc_lastUsed pc < oldest then oldest_loop conns addr (pc_lastUsed pc)
      else oldest_loop conns oldestAddr oldest)"

text \<open>The zero time that \<open>oldest\<close> starts with is never compared.\<close>

definition evictOldestLocked :: "client_pool \<Rightarrow> client_pool" where
  "evictOldestLocked p =
     (let oldestAddr = oldest_loop (cp_conns p) [] 0
      in if oldestAddr \<noteq> []
         then (case map_of (cp_conns p) oldestAddr of
                 None \<Rightarrow> p
               | Some pc \<Rightarrow> close_conns [pc_conn pc] (p\<lparr>cp_conns := AList.delete oldestAddr (cp_conns p)\<rparr>))
         else p)"

definition make_room :: "client_pool \<Rightarrow> client_pool" where
  "make_room p = (if int (length (cp_conns p)) \<ge> cp_maxConns p then evictOldestLocked p else p)"

text \<open>
  \<open>GetClient\<close> takes the lock twice, around the dial: the first part finds a connection or makes room, the second adds
  the new one, unless another request has added one meanwhile.
\<close>

definition touch_conn :: "int \<Rightarrow> string \<Rightarrow> pooled_conn \<Rightarrow> client_pool \<Rightarrow> client_pool" where
  "touch_conn now addr pc p = p\<lparr>cp_conns := AList.update addr (pc\<lparr>pc_lastUsed := now\<rparr>) (cp_conns p)\<rparr>"

definition get_client_lookup :: "int \<Rightarrow> string \<Rightarrow> client_pool \<Rightarrow> client_pool \<times> nat option" where
  "get_client_lookup now addr p =
     (case map_of (cp_conns p) addr of
        Some pc \<Rightarrow> (touch_conn now addr pc p, Some (pc_conn pc))
      | None \<Rightarrow> (make_room p, None))"

definition get_client_insert :: "int \<Rightarrow> string \<Rightarrow> nat \<Rightarrow> client_pool \<Rightarrow> client_pool \<times> nat" where
  "get_client_insert now addr conn p =
     (case map_of (cp_conns p) addr of
        Some existing \<Rightarrow> (touch_conn now addr existing (close_conns [conn] p), pc_conn existing)
      | None \<Rightarrow>
          let p = make_room p
          in (p\<lparr>cp_conns := AList.update addr \<lparr>pc_conn = conn, pc_lastUsed = now\<rparr> (cp_conns p)\<rparr>, conn))"

text \<open>The whole call when nothing comes between its two parts.\<close>

definition GetClient :: "(string \<Rightarrow> nat result) \<Rightarrow> int \<Rightarrow> int \<Rightarrow> string \<Rightarrow> client_pool \<Rightarrow> client_pool \<times> nat result" where
  "GetClient dial now now' addr p =
     (case get_client_lookup now addr p of
        (p, Some conn) \<Rightarrow> (p, Inr conn)
      | (p, None) \<Rightarrow>
          (case dial addr of
             Inl e \<Rightarrow> (p, Inl (Wrapf ''failed to dial peer'' e))
           | Inr conn \<Rightarrow> map_prod id Inr (get_client_insert now' addr conn p)))"

definition RemovePeer :: "string \<Rightarrow> client_pool \<Rightarrow> client_pool" where
  "RemovePeer addr p =
     (case map_of (cp_conns p) addr of
        None \<Rightarrow> p
      | Some pc \<Rightarrow> close_conns [pc_conn pc] (p\<lparr>cp_conns := AList.delete addr (cp_conns p)\<rparr>))"

definition Len :: "client_pool \<Rightarrow> int" where
  "Len p = int (length (cp_conns p))"

definition pool_Close :: "client_pool \<Rightarrow> client_pool" where
  "pool_Close p =
     (if cp_stopped p then p
      else close_conns (map (pc_conn \<circ> snd) (cp_conns p)) (p\<lparr>cp_stopped := True, cp_conns := []\<rparr>))"

section \<open>Requests share the pool\<close>

text \<open>
  The pool under concurrent requests: \<open>rn_dialled\<close> are the connections that a request has dialled and not yet handed to the
  pool, \<open>rn_next\<close> counts the dials.
\<close>

record pool_run =
  rn_pool :: client_pool
  rn_dialled :: "nat set"
  rn_next :: nat

abbreviation run :: "client_pool \<Rightarrow> nat set \<Rightarrow> nat \<Rightarrow> pool_run" where
  "run p D n \<equiv> \<lparr>rn_pool = p, rn_dialled = D, rn_next = n\<rparr>"

inductive pool_step :: "pool_run \<Rightarrow> pool_run \<Rightarrow> bool" where
  lookup: "addr \<noteq> [] \<Longrightarrow> pool_step (run p D n) (run (fst (get_client_lookup now addr p)) D n)"
| dial: "pool_step (run p D n) (run p (insert n D) (Suc n))"
| insert: "addr \<noteq> [] \<Longrightarrow> c \<in> D \<Longrightarrow> pool_step (run p D n) (run (fst (get_client_insert now addr c p)) (D - {c}) n)"
| idle: "pool_step (run p D n) (run (evictIdle now p) D n)"
| remove: "pool_step (run p D n) (run (RemovePeer addr p) D n)"
| close: "pool_step (run p D n) (run (pool_Close p) D n)"

definition pooled :: "client_pool \<Rightarrow> nat set" where
  "pooled p = {pc_conn pc |pc. \<exists>a. map_of (cp_conns p) a = Some pc}"

definition pool_ok :: "pool_run \<Rightarrow> bool" where
  "pool_ok r =
     (let p = rn_pool r
      in wf_alist (cp_conns p) \<and> map_of (cp_conns p) [] = None \<and> 1 \<le> cp_maxConns p \<and> Len p \<le> cp_maxConns p \<and>
         (\<forall>a b x y. map_of (cp_conns p) a = Some x \<longrightarrow> map_of (cp_conns p) b = Some y \<longrightarrow> pc_conn x = pc_conn y \<longrightarrow> a = b) \<and>
         pooled p \<inter> set (cp_closed p) = {} \<and> rn_dialled r \<inter> (pooled p \<union> set (cp_closed p)) = {} \<and>
         pooled p \<union> rn_dialled r \<union> set (cp_closed p) = {..<rn_next r})"

lemma in_pooled: "z \<in> pooled p = (\<exists>a pc. map_of (cp_conns p) a = Some pc \<and> z = pc_conn pc)"
  by (auto simp: pooled_def)

lemma in_pooled_at:
  assumes "map_of (cp_conns p) a = Some y"
  shows "z \<in> pooled p = (z = pc_conn y \<or> (\<exists>b x. b \<noteq> a \<and> map_of (cp_conns p) b = Some x \<and> z = pc_conn x))"
proof
  assume "z \<in> pooled p"
  then obtain b x where b: "map_of (cp_conns p) b = Some x" "z = pc_conn x" unfolding in_pooled by iprover
  then show "z = pc_conn y \<or> (\<exists>b x. b \<noteq> a \<and> map_of (cp_conns p) b = Some x \<and> z = pc_conn x)"
    using assms by (cases "b = a") (simp, blast)
qed (use assms in \<open>auto simp only: in_pooled\<close>)

lemma oldest_found:
  "oldest_loop conns best t = best \<or> (\<exists>pc. (oldest_loop conns best t, pc) \<in> set conns)"
  "conns \<noteq> [] \<Longrightarrow> \<forall>(a, pc) \<in> set conns. a \<noteq> [] \<Longrightarrow> oldest_loop conns best t \<noteq> []"
proof -
  show "oldest_loop conns best t = best \<or> (\<exists>pc. (oldest_loop conns best t, pc) \<in> set conns)"
    by (induction conns best t rule: oldest_loop.induct) auto
  have "best \<noteq> [] \<or> conns \<noteq> [] \<Longrightarrow> \<forall>(a, pc) \<in> set conns. a \<noteq> [] \<Longrightarrow> oldest_loop conns best t \<noteq> []"
    by (induction conns best t rule: oldest_loop.induct) auto
  then show "conns \<noteq> [] \<Longrightarrow> \<forall>(a, pc) \<in> set conns. a \<noteq> [] \<Longrightarrow> oldest_loop conns best t \<noteq> []" by blast
qed

text \<open>Eviction takes one connection out and closes it, like the removal of a peer.\<close>

lemma evict_removes:
  assumes "wf_alist (cp_conns p)" and "map_of (cp_conns p) [] = None" and "cp_conns p \<noteq> []"
  obtains a where "evictOldestLocked p = RemovePeer a p" "map_of (cp_conns p) a \<noteq> None"
proof -
  let ?a = "oldest_loop (cp_conns p) [] 0"
  have keys: "\<forall>(a, pc) \<in> set (cp_conns p). a \<noteq> []" using assms(2) by (auto simp: map_of_eq_None_iff image_iff)
  have "?a \<noteq> []" by (rule oldest_found(2) [OF assms(3) keys])
  then obtain pc where "(?a, pc) \<in> set (cp_conns p)" using oldest_found(1) [of "cp_conns p" "[]" 0] by auto
  then have "map_of (cp_conns p) ?a = Some pc" using assms(1) by simp
  then show thesis using \<open>?a \<noteq> []\<close> by (intro that [of ?a]) (simp_all add: evictOldestLocked_def RemovePeer_def Let_def)
qed

lemma length_delete: "wf_alist m \<Longrightarrow> map_of m k = Some v \<Longrightarrow> int (length (AList.delete k m)) = int (length m) - 1"
  using filter_delete [of m k v "\<lambda>_. True"] by simp

lemma length_update: "length (AList.update k v m) = (if map_of m k = None then Suc (length m) else length m)"
  by (induction m) auto

lemma RemovePeer_ok:
  assumes "pool_ok (run p D n)"
  shows "pool_ok (run (RemovePeer a p) D n)" "map_of (cp_conns p) a \<noteq> None \<Longrightarrow> Len (RemovePeer a p) = Len p - 1"
    "map_of (cp_conns (RemovePeer a p)) b = (if a = b then None else map_of (cp_conns p) b)"
    "cp_maxConns (RemovePeer a p) = cp_maxConns p"
proof -
  have wf: "wf_alist (cp_conns p)" using assms by (simp add: pool_ok_def Let_def)
  note len = length_delete [OF wf]
  show l: "Len (RemovePeer a p) = Len p - 1" if "map_of (cp_conns p) a \<noteq> None"
    using that len by (auto simp: RemovePeer_def Len_def close_conns_def)
  show m: "map_of (cp_conns (RemovePeer a p)) b = (if a = b then None else map_of (cp_conns p) b)" for b
    by (auto simp: RemovePeer_def close_conns_def delete_conv' split: option.splits)
  show c: "cp_maxConns (RemovePeer a p) = cp_maxConns p" by (simp add: RemovePeer_def close_conns_def split: option.splits)
  show "pool_ok (run (RemovePeer a p) D n)"
  proof (cases "map_of (cp_conns p) a")
    case (Some pc)
    have closed: "set (cp_closed (RemovePeer a p)) = insert (pc_conn pc) (set (cp_closed p))"
      using Some by (simp add: RemovePeer_def close_conns_def)
    have inj: "b = a" if "map_of (cp_conns p) b = Some x" "pc_conn x = pc_conn pc" for b x
      using assms that Some unfolding pool_ok_def Let_def pool_run.simps by blast
    have "pooled (RemovePeer a p) = pooled p - {pc_conn pc}"
    proof (intro set_eqI iffI)
      fix z assume "z \<in> pooled (RemovePeer a p)"
      then have "\<exists>x b. z = pc_conn x \<and> b \<noteq> a \<and> map_of (cp_conns p) b = Some x" unfolding pooled_def m by (auto split: if_splits)
      then obtain x b where "z = pc_conn x" "b \<noteq> a" "map_of (cp_conns p) b = Some x" by blast
      then show "z \<in> pooled p - {pc_conn pc}" using inj [of b x] unfolding Diff_iff in_pooled
        by (intro conjI exI [of _ b] exI [of _ x]) auto
    next
      fix z assume "z \<in> pooled p - {pc_conn pc}"
      then obtain x b where "z = pc_conn x" "map_of (cp_conns p) b = Some x" "z \<noteq> pc_conn pc" unfolding Diff_iff in_pooled by blast
      then show "z \<in> pooled (RemovePeer a p)" using Some unfolding in_pooled m by (intro exI [of _ b] exI [of _ x]) auto
    qed
    moreover have "pc_conn pc \<in> pooled p" using Some by (auto simp: pooled_def)
    moreover have "wf_alist (cp_conns (RemovePeer a p))" using wf Some by (simp add: RemovePeer_def close_conns_def)
    ultimately show ?thesis using assms closed l c Some m by (auto simp: pool_ok_def Let_def)
  qed (use assms in \<open>simp add: RemovePeer_def\<close>)
qed

lemma make_room_ok:
  assumes "pool_ok (run p D n)"
  shows "pool_ok (run (make_room p) D n)" "Len (make_room p) < cp_maxConns (make_room p)" "cp_maxConns (make_room p) = cp_maxConns p"
    "map_of (cp_conns p) a = None \<Longrightarrow> map_of (cp_conns (make_room p)) a = None"
proof -
  have *: "wf_alist (cp_conns p)" "map_of (cp_conns p) [] = None" "1 \<le> cp_maxConns p" "Len p \<le> cp_maxConns p"
    using assms by (simp_all add: pool_ok_def Let_def)
  have "pool_ok (run (make_room p) D n) \<and> Len (make_room p) < cp_maxConns (make_room p) \<and> cp_maxConns (make_room p) = cp_maxConns p \<and>
      (map_of (cp_conns p) a = None \<longrightarrow> map_of (cp_conns (make_room p)) a = None)"
  proof (cases "Len p \<ge> cp_maxConns p")
    case True
    then have "cp_conns p \<noteq> []" using *(3) by (auto simp: Len_def)
    then obtain b where "evictOldestLocked p = RemovePeer b p" "map_of (cp_conns p) b \<noteq> None"
      using evict_removes [OF *(1,2)] by blast
    then show ?thesis
      using RemovePeer_ok [OF assms, of b] True *(4) by (simp add: make_room_def Len_def)
  qed (use assms in \<open>simp add: make_room_def Len_def\<close>)
  then show "pool_ok (run (make_room p) D n)" "Len (make_room p) < cp_maxConns (make_room p)" "cp_maxConns (make_room p) = cp_maxConns p"
    "map_of (cp_conns p) a = None \<Longrightarrow> map_of (cp_conns (make_room p)) a = None"
    by blast+
qed

lemma pooled_touch:
  assumes "map_of (cp_conns p) a = Some pc"
  shows "pooled (touch_conn now a pc p) = pooled p" "cp_closed (touch_conn now a pc p) = cp_closed p"
    "map_of (cp_conns (touch_conn now a pc p)) b = (if b = a then Some (pc\<lparr>pc_lastUsed := now\<rparr>) else map_of (cp_conns p) b)"
proof -
  show m: "map_of (cp_conns (touch_conn now a pc p)) b = (if b = a then Some (pc\<lparr>pc_lastUsed := now\<rparr>) else map_of (cp_conns p) b)" for b
    by (simp add: touch_conn_def update_conv')
  show "pooled (touch_conn now a pc p) = pooled p"
    unfolding set_eq_iff in_pooled_at [OF assms] in_pooled_at [of "touch_conn now a pc p", OF m [of a, simplified]] m by (simp cong: conj_cong)
  show "cp_closed (touch_conn now a pc p) = cp_closed p" by (simp add: touch_conn_def)
qed

lemma touch_ok: "pool_ok (run p D n) \<Longrightarrow> map_of (cp_conns p) a = Some pc \<Longrightarrow> pool_ok (run (touch_conn now a pc p) D n)"
proof -
  assume ok: "pool_ok (run p D n)" and a: "map_of (cp_conns p) a = Some pc"
  note t = pooled_touch [OF a, of now]
  have inj: "b = b'" if "map_of (cp_conns p) b = Some x" "map_of (cp_conns p) b' = Some y" "pc_conn x = pc_conn y" for b b' x y
    using ok that unfolding pool_ok_def Let_def pool_run.simps by blast
  have old: "\<exists>x0. map_of (cp_conns p) b = Some x0 \<and> pc_conn x0 = pc_conn x" if "map_of (cp_conns (touch_conn now a pc p)) b = Some x" for b x
    using that a unfolding t(3) by (cases "b = a") auto
  have "b = b'" if "map_of (cp_conns (touch_conn now a pc p)) b = Some x" "map_of (cp_conns (touch_conn now a pc p)) b' = Some y"
    "pc_conn x = pc_conn y" for b b' x y
    using old [OF that(1)] old [OF that(2)] that(3) inj by metis
  moreover have "Len (touch_conn now a pc p) = Len p" "cp_maxConns (touch_conn now a pc p) = cp_maxConns p"
    "wf_alist (cp_conns (touch_conn now a pc p))"
    using a ok by (simp_all add: Len_def touch_conn_def length_update pool_ok_def Let_def)
  moreover have "map_of (cp_conns (touch_conn now a pc p)) [] = None"
    using a ok unfolding t(3) pool_ok_def Let_def pool_run.simps by force
  ultimately show ?thesis using ok t(1,2) unfolding pool_ok_def Let_def pool_run.simps by simp
qed

lemma insert_ok:
  assumes "pool_ok (run p D n)" and "addr \<noteq> []" and "c \<in> D"
  shows "pool_ok (run (fst (get_client_insert now addr c p)) (D - {c}) n)"
proof (cases "map_of (cp_conns p) addr")
  case (Some pc)
  have "pooled (close_conns [c] p) = pooled p" "cp_closed (close_conns [c] p) = c # cp_closed p" "cp_conns (close_conns [c] p) = cp_conns p"
    by (simp_all add: close_conns_def pooled_def)
  then have "pool_ok (run (close_conns [c] p) (D - {c}) n)"
    using assms(1,3) by (auto simp: pool_ok_def Let_def Len_def close_conns_def)
  then show ?thesis using touch_ok Some by (simp add: get_client_insert_def close_conns_def)
next
  case None
  note room = make_room_ok [OF assms(1)]
  let ?p = "make_room p"
  let ?q = "?p\<lparr>cp_conns := AList.update addr \<lparr>pc_conn = c, pc_lastUsed = now\<rparr> (cp_conns ?p)\<rparr>"
  have m: "map_of (cp_conns ?q) b = (if b = addr then Some \<lparr>pc_conn = c, pc_lastUsed = now\<rparr> else map_of (cp_conns ?p) b)" for b
    by (simp add: update_conv')
  have ma: "map_of (cp_conns ?q) addr = Some \<lparr>pc_conn = c, pc_lastUsed = now\<rparr>" unfolding m by simp
  have none: "map_of (cp_conns ?p) addr = None" by (rule room(4) [OF None])
  have new: "z \<in> pooled ?q = (z = c \<or> z \<in> pooled ?p)" for z
  proof -
    have "z \<in> pooled ?q = (z = c \<or> (\<exists>b x. b \<noteq> addr \<and> map_of (cp_conns ?p) b = Some x \<and> z = pc_conn x))"
      unfolding in_pooled_at [OF ma] m by (simp cong: conj_cong)
    also have "\<dots> = (z = c \<or> z \<in> pooled ?p)" using none unfolding in_pooled by (metis option.distinct(1))
    finally show ?thesis .
  qed
  have inj: "b = b'" if "map_of (cp_conns ?p) b = Some x" "map_of (cp_conns ?p) b' = Some y" "pc_conn x = pc_conn y" for b b' x y
    using room(1) that unfolding pool_ok_def Let_def pool_run.simps by blast
  have fresh: "c \<notin> pooled ?p" using room(1) assms(3) unfolding pool_ok_def Let_def pool_run.simps by blast
  have inj': "b = b'" if b: "map_of (cp_conns ?q) b = Some x" "map_of (cp_conns ?q) b' = Some y" "pc_conn x = pc_conn y" for b b' x y
  proof (cases "b = addr \<or> b' = addr")
    case True
    then have "b = addr \<and> b' = addr"
      using b fresh unfolding m in_pooled by (metis option.inject pooled_conn.select_convs(1))
    then show ?thesis by simp
  next
    case False
    then show ?thesis using inj [of b x b' y] b unfolding m by simp
  qed
  have "Len ?q \<le> cp_maxConns ?q" "wf_alist (cp_conns ?q)" "map_of (cp_conns ?q) [] = None"
    using room(1,2) none assms(2) by (simp_all add: Len_def length_update pool_ok_def Let_def update_conv')
  moreover have "pooled ?q = insert c (pooled ?p)" using new by blast
  then have "pooled ?q \<inter> set (cp_closed ?q) = {}" "(D - {c}) \<inter> (pooled ?q \<union> set (cp_closed ?q)) = {}"
    "pooled ?q \<union> (D - {c}) \<union> set (cp_closed ?q) = {..<n}"
    using room(1) assms(3) by (auto simp: pool_ok_def Let_def)
  moreover have "1 \<le> cp_maxConns ?q" using room(1) by (simp add: pool_ok_def Let_def)
  ultimately have "pool_ok (run ?q (D - {c}) n)"
    unfolding pool_ok_def Let_def pool_run.simps by - (intro conjI allI impI; (assumption | erule (2) inj'))
  then show ?thesis using None by (simp add: get_client_insert_def Let_def)
qed

lemma lookup_ok: "pool_ok (run p D n) \<Longrightarrow> pool_ok (run (fst (get_client_lookup now addr p)) D n)"
  using touch_ok make_room_ok(1) by (auto simp only: get_client_lookup_def fst_conv split: option.splits)

lemma move_closed:
  "G \<subseteq> P \<Longrightarrow> P \<inter> C = {} \<Longrightarrow> D \<inter> (P \<union> C) = {} \<Longrightarrow> P \<union> D \<union> C = N \<Longrightarrow>
     (P - G) \<inter> (G \<union> C) = {} \<and> D \<inter> ((P - G) \<union> (G \<union> C)) = {} \<and> (P - G) \<union> D \<union> (G \<union> C) = N"
  by blast

lemma drop_conns_ok:
  assumes "pool_ok (run p D n)" and "cp_maxConns q = cp_maxConns p" and q: "cp_conns q = filter (\<lambda>(a, pc). \<not> P a pc) (cp_conns p)"
    and closed: "set (cp_closed q) = {pc_conn pc |a pc. map_of (cp_conns p) a = Some pc \<and> P a pc} \<union> set (cp_closed p)"
  shows "pool_ok (run q D n)"
proof -
  have wf: "wf_alist (cp_conns p)" and inj: "\<And>a b x y. map_of (cp_conns p) a = Some x \<Longrightarrow> map_of (cp_conns p) b = Some y \<Longrightarrow> pc_conn x = pc_conn y \<Longrightarrow> a = b"
    using assms(1) unfolding pool_ok_def Let_def pool_run.simps by blast+
  have m: "map_of (cp_conns q) a = Some x \<longleftrightarrow> map_of (cp_conns p) a = Some x \<and> \<not> P a x" for a x
    unfolding q map_of_filter_wf [OF wf, of "\<lambda>a pc. \<not> P a pc"] by (auto split: option.splits)
  let ?gone = "{pc_conn pc |a pc. map_of (cp_conns p) a = Some pc \<and> P a pc}"
  have pooled: "pooled q = pooled p - ?gone" "?gone \<subseteq> pooled p"
  proof (intro set_eqI iffI)
    fix z assume "z \<in> pooled q"
    then obtain a x where x: "map_of (cp_conns p) a = Some x" "\<not> P a x" "z = pc_conn x" unfolding in_pooled m by blast
    have "z \<notin> ?gone"
    proof
      assume "z \<in> ?gone"
      then obtain b y where y: "map_of (cp_conns p) b = Some y" "P b y" "z = pc_conn y" by blast
      then have "a = b" using inj [OF x(1) y(1)] x(3) by simp
      then show False using x(1,2) y(1,2) by simp
    qed
    then show "z \<in> pooled p - ?gone" using x unfolding Diff_iff in_pooled by blast
  qed (unfold Diff_iff in_pooled m subset_iff, blast+)
  have "wf_alist (cp_conns q)" "map_of (cp_conns q) [] = None" "Len q \<le> Len p"
    using wf assms(1) unfolding q Len_def
    by (simp_all add: distinct_map_filter pool_ok_def Let_def map_of_filter_wf [OF wf, of "\<lambda>a pc. \<not> P a pc"])
  moreover have "pooled q \<inter> set (cp_closed q) = {}" "D \<inter> (pooled q \<union> set (cp_closed q)) = {}" "pooled q \<union> D \<union> set (cp_closed q) = {..<n}"
    using move_closed [OF pooled(2), of "set (cp_closed p)" D "{..<n}"] assms(1)
    unfolding pooled(1) closed by (simp_all only: pool_ok_def Let_def pool_run.simps)
  moreover have "a = b" if "map_of (cp_conns q) a = Some x" "map_of (cp_conns q) b = Some y" "pc_conn x = pc_conn y" for a b x y
    using inj that unfolding m by blast
  ultimately show ?thesis using assms(1,2) unfolding pool_ok_def Let_def pool_run.simps by simp
qed

lemma conns_where:
  assumes "wf_alist m"
  shows "set (map (pc_conn \<circ> snd) (filter (\<lambda>(a, pc). Q a pc) m)) = {pc_conn pc |a pc. map_of m a = Some pc \<and> Q a pc}"
proof (intro set_eqI iffI)
  fix z assume "z \<in> set (map (pc_conn \<circ> snd) (filter (\<lambda>(a, pc). Q a pc) m))"
  then obtain a pc where "(a, pc) \<in> set m" "Q a pc" "z = pc_conn pc" by auto
  then show "z \<in> {pc_conn pc |a pc. map_of m a = Some pc \<and> Q a pc}" unfolding in_set_map_of [OF assms] by blast
next
  fix z assume "z \<in> {pc_conn pc |a pc. map_of m a = Some pc \<and> Q a pc}"
  then obtain a pc where e: "(a, pc) \<in> set m" "Q a pc" "z = pc_conn pc" unfolding in_set_map_of [OF assms] by blast
  then show "z \<in> set (map (pc_conn \<circ> snd) (filter (\<lambda>(a, pc). Q a pc) m))" by (simp add: rev_image_eqI [of "(a, pc)"])
qed

lemma evictIdle_ok: "pool_ok (run p D n) \<Longrightarrow> pool_ok (run (evictIdle now p) D n)"
proof (rule drop_conns_ok [where P = "\<lambda>a pc. now - pc_lastUsed pc \<ge> cp_idleTimeout p"])
  assume "pool_ok (run p D n)"
  then have "wf_alist (cp_conns p)" by (simp add: pool_ok_def Let_def)
  have closed: "cp_closed (evictIdle now p) =
      map (pc_conn \<circ> snd) (filter (\<lambda>(a, pc). now - pc_lastUsed pc \<ge> cp_idleTimeout p) (cp_conns p)) @ cp_closed p"
    by (simp add: evictIdle_def close_conns_def Let_def)
  from conns_where [OF \<open>wf_alist (cp_conns p)\<close>, of "\<lambda>a pc. now - pc_lastUsed pc \<ge> cp_idleTimeout p"]
  show "set (cp_closed (evictIdle now p)) =
      {pc_conn pc |a pc. map_of (cp_conns p) a = Some pc \<and> cp_idleTimeout p \<le> now - pc_lastUsed pc} \<union> set (cp_closed p)"
    unfolding closed by (simp only: set_append)
qed (simp_all add: evictIdle_def close_conns_def Let_def case_prod_beta')

lemma pool_Close_ok: "pool_ok (run p D n) \<Longrightarrow> pool_ok (run (pool_Close p) D n)"
proof (cases "cp_stopped p")
  case False
  assume ok: "pool_ok (run p D n)"
  then have "wf_alist (cp_conns p)" by (simp add: pool_ok_def Let_def)
  note e = conns_where [OF this, of "\<lambda>a pc. True"]
  show ?thesis
  proof (rule drop_conns_ok [where P = "\<lambda>a pc. True", OF ok])
    show "set (cp_closed (pool_Close p)) = {pc_conn pc |a pc. map_of (cp_conns p) a = Some pc \<and> True} \<union> set (cp_closed p)"
      using False e by (simp add: pool_Close_def close_conns_def case_prod_beta' del: map_of_eq_Some_iff)
  qed (use False in \<open>simp_all add: pool_Close_def close_conns_def case_prod_beta'\<close>)
qed (simp add: pool_Close_def)

lemma pool_step_ok: "pool_step r r' \<Longrightarrow> pool_ok r \<Longrightarrow> pool_ok r'"
proof (induction rule: pool_step.induct)
  case (dial p D n)
  then have "n \<notin> pooled p \<union> set (cp_closed p)" unfolding pool_ok_def Let_def pool_run.simps by blast
  then show ?case using dial unfolding pool_ok_def Let_def pool_run.simps lessThan_Suc by (intro conjI) auto
qed (auto intro: lookup_ok insert_ok evictIdle_ok RemovePeer_ok(1) pool_Close_ok)

lemma pool_reach_ok: "pool_step\<^sup>*\<^sup>* r r' \<Longrightarrow> pool_ok r \<Longrightarrow> pool_ok r'"
  by (induction rule: rtranclp_induct) (auto intro: pool_step_ok)

lemma new_pool_ok: "pool_ok (run (NewClientPoolWithConfig cfg) {} 0)"
  by (simp add: pool_ok_def NewClientPoolWithConfig_def Len_def pooled_def)

section \<open>Downloading a chunk\<close>

text \<open>What \<open>Recv\<close> returns one after the other; the end of the list is \<open>io.EOF\<close>.\<close>

datatype received = Received chunk_data | Broken go_error

text \<open>
  The loop writes pieces and ends with a number and an error. \<open>w\<close> says whether the writer takes the next piece after
  those it has taken.
\<close>

fun recv_loop ::
    "(bytes list \<Rightarrow> bytes \<Rightarrow> go_error option) \<Rightarrow> int \<Rightarrow> received list \<Rightarrow> int \<Rightarrow> int \<Rightarrow> int \<Rightarrow> bytes list \<Rightarrow>
     bytes list \<times> int \<times> go_error option" where
  "recv_loop w offset [] totalSize skipped downloaded out = (out, totalSize, None)"
| "recv_loop w offset (Broken e # rs) totalSize skipped downloaded out =
     (out, downloaded, Some (Wrapf ''error reading chunk stream'' e))"
| "recv_loop w offset (Received c # rs) totalSize skipped downloaded out =
     (let totalSize = (if cd_TotalSize c > 0 then cd_TotalSize c else totalSize);
          payload = cd_Payload c;
          need = wrap64 (offset - skipped);
          resent = (offset > 0 \<and> cd_Offset c = 0 \<and> skipped < offset)
      in if resent \<and> int (length payload) \<le> need
         then (if cd_IsEof c then (out, totalSize, None)
               else recv_loop w offset rs totalSize (wrap64 (skipped + int (length payload))) downloaded out)
         else
           let skipped' = (if resent then offset else skipped);
               payload = (if resent then drop (nat need) payload else payload)
           in if length payload > 0
              then (case w out payload of
                      Some e \<Rightarrow> (out, downloaded, Some (Wrapf ''failed to write chunk stream'' e))
                    | None \<Rightarrow>
                        if cd_IsEof c then (out @ [payload], totalSize, None)
                        else recv_loop w offset rs totalSize skipped' (wrap64 (downloaded + int (length payload))) (out @ [payload]))
              else if cd_IsEof c then (out, totalSize, None)
              else recv_loop w offset rs totalSize skipped' downloaded out)"

text \<open>
  \<open>client\<close> is what \<open>GetClient\<close> answers, \<open>answers\<close> what the call of \<open>GetChunk\<close> does: an error at once, or a stream.
\<close>

definition DownloadChunkTo ::
    "unit result \<Rightarrow> received list result \<Rightarrow> (bytes list \<Rightarrow> bytes \<Rightarrow> go_error option) \<Rightarrow> int \<Rightarrow> bytes list \<times> int \<times> go_error option" where
  "DownloadChunkTo client answers w offset =
     (case client of
        Inl e \<Rightarrow> ([], 0, Some e)
      | Inr _ \<Rightarrow>
          (case answers of
             Inl e \<Rightarrow> ([], 0, Some (Wrapf ''peer GetChunk RPC failed'' e))
           | Inr stream \<Rightarrow> recv_loop w offset stream 0 0 0 []))"

text \<open>A buffer takes everything.\<close>

definition DownloadChunk :: "unit result \<Rightarrow> received list result \<Rightarrow> string \<Rightarrow> bytes result" where
  "DownloadChunk client answers chunkHash =
     (case DownloadChunkTo client answers (\<lambda>_ _. None) 0 of
        (out, n, Some e) \<Rightarrow> Inl e
      | (out, n, None) \<Rightarrow>
          if ComputeHash (concat out) \<noteq> chunkHash then Inl (Err ''chunk corruption detected from peer'')
          else Inr (concat out))"

section \<open>Both ends of a transfer\<close>

text \<open>
  The client takes the slices of a server as they are: the server starts at the offset, so nothing is skipped.
\<close>

lemma recv_plain:
  assumes "0 < offset \<longrightarrow> 0 < cd_Offset f" and "cd_Payload f \<noteq> []" and "0 < cd_TotalSize f"
  shows "recv_loop (\<lambda>_ _. None) offset (Received f # rs) totalSize skipped downloaded out =
    (if cd_IsEof f then (out @ [cd_Payload f], cd_TotalSize f, None)
     else recv_loop (\<lambda>_ _. None) offset rs (cd_TotalSize f) skipped (wrap64 (downloaded + int (length (cd_Payload f)))) (out @ [cd_Payload f]))"
proof -
  have "\<not> (0 < offset \<and> cd_Offset f = 0 \<and> skipped < offset)" using assms(1) by auto
  then show ?thesis using assms(2,3) by (simp only: recv_loop.simps Let_def if_False if_True HOL.simp_thms) simp
qed

lemma recv_slices:
  assumes "slices_of n cur rest sent" and "n = cur + int (length rest)" and "0 < offset \<longrightarrow> 0 < cur" and "0 \<le> cur"
  shows "\<exists>downloaded'. recv_loop (\<lambda>_ _. None) offset (map Received sent @ rs) totalSize skipped downloaded out =
    (if sent \<noteq> [] \<and> concat (map cd_Payload sent) = rest then (out @ map cd_Payload sent, n, None)
     else recv_loop (\<lambda>_ _. None) offset rs (if sent = [] then totalSize else n) skipped downloaded' (out @ map cd_Payload sent))"
  using assms
proof (induction sent arbitrary: cur rest totalSize downloaded out)
  case (Cons f sent)
  let ?S = StreamSliceSize
  have f: "rest \<noteq> []" "f = \<lparr>cd_Payload = take ?S rest, cd_Offset = cur, cd_TotalSize = n, cd_IsEof = (length rest \<le> ?S)\<rparr>"
    and nxt: "slices_of n (cur + int (length (take ?S rest))) (drop ?S rest) sent"
    using Cons.prems(1) by auto
  have n: "0 < n" "take ?S rest \<noteq> []" using Cons.prems(2,4) f(1) by (cases rest; simp add: StreamSliceSize_def)+
  show ?case
  proof (cases "length rest \<le> ?S")
    case True
    then have "sent = []" using nxt by (cases sent) auto
    then show ?thesis using f n True Cons.prems(3) by (simp add: recv_plain del: recv_loop.simps)
  next
    case False
    let ?d = "wrap64 (downloaded + int (length (take ?S rest)))"
    have p: "n = cur + int (length (take ?S rest)) + int (length (drop ?S rest))" using Cons.prems(2) False by simp
    obtain d' where d': "recv_loop (\<lambda>_ _. None) offset (map Received sent @ rs) n skipped ?d (out @ [take ?S rest]) =
      (if sent \<noteq> [] \<and> concat (map cd_Payload sent) = drop ?S rest then ((out @ [take ?S rest]) @ map cd_Payload sent, n, None)
       else recv_loop (\<lambda>_ _. None) offset rs n skipped d' ((out @ [take ?S rest]) @ map cd_Payload sent))"
      using Cons.IH [OF nxt p, where totalSize = n and downloaded = ?d and out = "out @ [take ?S rest]"] Cons.prems(3,4)
      by (simp only: if_cancel) force
    have "(take ?S rest @ concat (map cd_Payload sent) = rest) = (concat (map cd_Payload sent) = drop ?S rest)"
      by (metis append_take_drop_id same_append_eq)
    moreover have "sent = [] \<Longrightarrow> take ?S rest \<noteq> rest" using False by auto
    ultimately show ?thesis
      using f n False Cons.prems(3) d' by (intro exI [of _ d']) (simp add: recv_plain del: recv_loop.simps)
  qed
qed auto

text \<open>
  What reaches the client of a call that the server answers with \<open>sent\<close> and ends with \<open>r\<close>: all of it, or the first \<open>k\<close>
  slices and then a broken stream.
\<close>

definition delivered :: "chunk_data list \<Rightarrow> unit result \<Rightarrow> nat \<Rightarrow> go_error \<Rightarrow> received list" where
  "delivered sent r k e =
     map Received (take k sent) @ (if k < length sent then [Broken e] else case r of Inl e' \<Rightarrow> [Broken e'] | Inr _ \<Rightarrow> [])"

lemma slices_take: "slices_of n cur rest sent \<Longrightarrow> slices_of n cur rest (take k sent)"
proof (induction sent arbitrary: cur rest k)
  case (Cons f sent)
  then show ?case by (cases k) auto
qed simp

lemma download_slices:
  assumes "slices_of n offset rest sent" and "n = offset + int (length rest)" and "0 \<le> offset"
    and "r = Inr () \<longrightarrow> concat (map cd_Payload sent) = rest"
    and "DownloadChunkTo (Inr ()) (Inr (delivered sent r k e)) (\<lambda>_ _. None) offset = (out, m, err)"
  shows "(\<exists>t. rest = concat out @ t) \<and> (err = None \<longrightarrow> concat out = rest \<and> (rest \<noteq> [] \<longrightarrow> m = n))"
proof -
  let ?sent = "take k sent" and ?tail = "if k < length sent then [Broken e] else case r of Inl e' \<Rightarrow> [Broken e'] | Inr _ \<Rightarrow> []"
  have sl: "slices_of n offset rest ?sent" by (rule slices_take [OF assms(1)])
  obtain t where t: "rest = concat (map cd_Payload ?sent) @ t" using slices_prefix [OF sl] by blast
  obtain d' where "recv_loop (\<lambda>_ _. None) offset (map Received ?sent @ ?tail) 0 0 0 [] =
    (if ?sent \<noteq> [] \<and> concat (map cd_Payload ?sent) = rest then (map cd_Payload ?sent, n, None)
     else recv_loop (\<lambda>_ _. None) offset ?tail (if ?sent = [] then 0 else n) 0 d' (map cd_Payload ?sent))"
    using recv_slices [OF sl assms(2), where offset = offset and rs = ?tail and totalSize = 0 and skipped = 0 and downloaded = 0
        and out = "[]", unfolded append_Nil] assms(3) by blast
  then have run: "(out, m, err) =
    (if ?sent \<noteq> [] \<and> concat (map cd_Payload ?sent) = rest then (map cd_Payload ?sent, n, None)
     else recv_loop (\<lambda>_ _. None) offset ?tail (if ?sent = [] then 0 else n) 0 d' (map cd_Payload ?sent))"
    using assms(5) by (simp only: DownloadChunkTo_def delivered_def sum.case)
  show ?thesis
  proof (cases "?sent \<noteq> [] \<and> concat (map cd_Payload ?sent) = rest")
    case True
    then show ?thesis using run by auto
  next
    case False
    then have run': "(out, m, err) = recv_loop (\<lambda>_ _. None) offset ?tail (if ?sent = [] then 0 else n) 0 d' (map cd_Payload ?sent)"
      using run by (simp only: if_False)
    then have out: "out = map cd_Payload ?sent" by (auto split: if_splits sum.splits)
    have "concat out = rest \<and> (rest \<noteq> [] \<longrightarrow> m = n)" if none: "err = None"
    proof -
      have "\<not> k < length sent" "r = Inr ()" using run' none by (auto split: if_splits sum.splits)
      then have "concat (map cd_Payload ?sent) = rest" using assms(4) by simp
      then show ?thesis using False out by auto
    qed
    then show ?thesis using t out by auto
  qed
qed

text \<open>
  C31. A download that resumes at an offset: whatever the server's rate limit and the network do, the client writes a
  prefix of what is missing of the chunk that the server has committed; if it ends without an error it has written all
  of it, and returns the size of the chunk unless nothing was missing.
\<close>

theorem peer_transfer_resumes:
  assumes "store_inv (ps_cache s) fs" and "hex_hash h" and "committed (cas_of (ps_cache s) fs) h = Some d"
    and "int (length d) < 2 ^ 63" and "0 \<le> offset"
    and "GetChunk s fs timer send h offset (if offset > 0 then [show_int offset] else []) = (sent, r)"
    and "DownloadChunkTo (Inr ()) (Inr (delivered sent r k e)) (\<lambda>_ _. None) offset = (out, n, err)"
  shows "(\<exists>t. drop (nat offset) d = concat out @ t) \<and>
    (err = None \<longrightarrow> offset \<le> int (length d) \<and> concat out = drop (nat offset) d \<and> (offset < int (length d) \<longrightarrow> n = int (length d)))"
proof -
  have o: "requested_offset offset (if offset > 0 then [show_int offset] else []) = offset"
    using assms(5) by (simp add: requested_offset_def)
  consider "sent = []" "isl r" | "offset \<le> int (length d)" "slices_of (int (length d)) offset (drop (nat offset) d) sent"
    "r = Inr () \<longrightarrow> concat (map cd_Payload sent) = drop (nat offset) d"
    using GetChunk_slices [OF assms(1,2,6)] assms(3,4) unfolding o by auto
  then show ?thesis
  proof cases
    case 1
    then obtain e' where "delivered sent r k e = [Broken e']" by (auto simp: delivered_def isl_def)
    then have "out = []" "\<exists>x. err = Some x" using assms(7) by (auto simp: DownloadChunkTo_def)
    then show ?thesis by auto
  next
    case 2
    then show ?thesis using download_slices [OF 2(2) _ assms(5) 2(3) assms(7)] assms(5) by auto
  qed
qed

theorem peer_transfer_resumes_witness:
  "\<exists>t. [2, 3] = concat (fst (DownloadChunkTo (Inr ()) (Inr (delivered
     (fst (GetChunk (NewServer ''n'' (store_at ''/s'')) (stock_fs [1, 2, 3]) (\<lambda>_ _. None) (\<lambda>_. None) (ComputeHash [1, 2, 3]) 1 [''1'']))
     (snd (GetChunk (NewServer ''n'' (store_at ''/s'')) (stock_fs [1, 2, 3]) (\<lambda>_ _. None) (\<lambda>_. None) (ComputeHash [1, 2, 3]) 1 [''1'']))
     1 ErrDevice)) (\<lambda>_ _. None) 1)) @ t"
proof -
  let ?s = "NewServer ''n'' (store_at ''/s'')" and ?h = "ComputeHash [1, 2, 3]"
  let ?G = "GetChunk ?s (stock_fs [1, 2, 3]) (\<lambda>_ _. None) (\<lambda>_. None) ?h 1 [''1'']"
  let ?D = "DownloadChunkTo (Inr ()) (Inr (delivered (fst ?G) (snd ?G) 1 ErrDevice)) (\<lambda>_ _. None) 1"
  have c: "ps_cache ?s = store_at ''/s''" by (simp add: NewServer_def NewServerWithLimits_def)
  have "show_int 1 = ''1''" by code_simp
  then have G: "GetChunk ?s (stock_fs [1, 2, 3]) (\<lambda>_ _. None) (\<lambda>_. None) ?h 1 (if (1::int) > 0 then [show_int 1] else []) = (fst ?G, snd ?G)"
    by simp
  have D: "?D = (fst ?D, fst (snd ?D), snd (snd ?D))" by simp
  have "store_inv (ps_cache ?s) (stock_fs [1, 2, 3])" "committed (cas_of (ps_cache ?s) (stock_fs [1, 2, 3])) ?h = Some [1, 2, 3]"
    by (simp_all add: c stock_committed)
  from peer_transfer_resumes [OF this(1) hex_hash_ComputeHash this(2) _ _ G D] show ?thesis by simp
qed

end
