(* ===== verification/ManifestStore.thy ===== *)
theory ManifestStore
  imports ChunkStore Manifest
begin

text \<open>
  The manifests that a chunk store keeps (\<open>SaveManifest\<close> of \<open>pkg/cache/cache.go\<close>), and what a node has of an artifact
  (\<open>pkg/cache/reconcile.go\<close>). A manifest is written to a temporary file and renamed, so the store under its name has the whole text
  or what was there before; chunks are not touched.
\<close>

section \<open>Saving\<close>

text \<open>
  \<open>os.CreateTemp\<close>: the names it tries are the prefix with random endings, a parameter here; a name that exists is passed over.
\<close>

fun os_CreateTemp :: "fsys \<Rightarrow> string \<Rightarrow> string \<Rightarrow> string list \<Rightarrow> fsys \<times> (string \<times> handle) result" where
  "os_CreateTemp fs dir pre [] = (fs, Inl ErrExist)"
| "os_CreateTemp fs dir pre (x # xs) =
     (let p = filepath_Join [dir, pre @ x]
      in if inode fs (key fs p) \<noteq> None \<or> is_dir fs (key fs p) then os_CreateTemp fs dir pre xs
         else case os_create fs p of
             (fs', Inl e) \<Rightarrow> (fs', Inl e)
           | (fs', Inr h) \<Rightarrow> (fs', Inr (p, h)))"

text \<open>The fixed parts of the messages of \<open>Validate\<close>.\<close>

fun manifest_error_text :: "manifest_error \<Rightarrow> string" where
  "manifest_error_text (UnsupportedSchema v) = ''unsupported schema version''"
| "manifest_error_text NameRequired = ''artifact name is required''"
| "manifest_error_text VersionRequired = ''artifact version is required''"
| "manifest_error_text BadChunkSize = ''chunk size must be greater than zero''"
| "manifest_error_text NoFiles = ''artifact must contain at least one file''"
| "manifest_error_text (InvalidPath i p) = ''invalid file path''"
| "manifest_error_text (DuplicatePath p) = ''duplicate file path''"
| "manifest_error_text (InvalidChunkHash p i h) = ''invalid chunk hash''"
| "manifest_error_text (InvalidChunkSize p i n) = ''invalid chunk size''"
| "manifest_error_text (OffsetMismatch p i n m) = ''chunk offset mismatch''"
| "manifest_error_text (FileSizeMismatch p n m) = ''file size mismatch''"
| "manifest_error_text (TotalSizeMismatch n m) = ''manifest totalSize mismatch''"
| "manifest_error_text (ArtifactIDMismatch a b) = ''artifactId mismatch''"

definition SaveManifest :: "chunk_store \<Rightarrow> fsys \<Rightarrow> string list \<Rightarrow> manifest \<Rightarrow> fsys \<times> unit result" where
  "SaveManifest c fs names m =
     (case Validate m of
        Some e \<Rightarrow> (fs, Inl (Wrapf ''cannot save invalid manifest'' (Err (manifest_error_text e))))
      | None \<Rightarrow>
     (case parseHash (m_ArtifactID m) of
        Inl e \<Rightarrow> (fs, Inl e)
      | Inr hexPart \<Rightarrow>
          let data = json_MarshalIndent (json_of_manifest m);
              dest = filepath_Join [mfstDir c, hexPart @ ''.json'']
          in case os_CreateTemp fs (tmpDir c) ''manifest-'' names of
              (fs1, Inl e) \<Rightarrow> (fs1, Inl e)
            | (fs1, Inr (tmpName, tmpFile)) \<Rightarrow>
                (case write_end fs1 tmpFile data of
                   (fs2, Inl e) \<Rightarrow> (fst (os_Remove fs2 tmpName), Inl e)
                 | (fs2, Inr _) \<Rightarrow>
                     (case os_Rename fs2 tmpName dest of
                        (fs3, r) \<Rightarrow> (fst (os_Remove fs3 tmpName), r)))))"

section \<open>What a node has of an artifact\<close>

fun cached_refs :: "chunk_store \<Rightarrow> fsys \<Rightarrow> chunk_ref list \<Rightarrow> string list \<Rightarrow> string list" where
  "cached_refs c fs [] out = out"
| "cached_refs c fs (r # rs) out =
     (if cr_Hash r \<in> set out then cached_refs c fs rs out
      else if \<not> HasValidCommittedChunk c fs (cr_Hash r) (cr_Size r) then cached_refs c fs rs out
      else cached_refs c fs rs (out @ [cr_Hash r]))"

text \<open>The set of seen hashes is the set of those in the result.\<close>

definition ManifestCachedHashes :: "chunk_store \<Rightarrow> fsys \<Rightarrow> manifest \<Rightarrow> string list" where
  "ManifestCachedHashes c fs m = cached_refs c fs (all_refs m) []"

lemma cached_refs_set:
  "set (cached_refs c fs rs out) = set out \<union> {cr_Hash r |r. r \<in> set rs \<and> HasValidCommittedChunk c fs (cr_Hash r) (cr_Size r)}"
  by (induction c fs rs out rule: cached_refs.induct) auto

lemma cached_refs_distinct: "distinct out \<Longrightarrow> distinct (cached_refs c fs rs out)"
  by (induction c fs rs out rule: cached_refs.induct) auto

end
