(* ===== verification/Engine.thy ===== *)
theory Engine
  imports PeerClient Scheduler Materializer ManifestStore
begin

text \<open>
  \<open>pkg/engine/engine.go\<close>: bringing an artifact to a node. \<open>Sync\<close> finds out which chunks are missing, starts workers that fetch
  them from peers or from the origin, waits for the workers, and materialises the files. The workers run concurrently: each one is
  a small state machine, and a run of the download phase is a sequence of steps of workers and of the loop that asks the tracker
  again, in any order. A download is one step, because it holds the lock of its hash and no two workers have the same one.

  What the network does is the environment: a function of the number of steps made so far. Errors that make the process panic and
  goroutines that block for ever are outcomes of the model.
\<close>

section \<open>Jobs and configuration\<close>

record sync_metrics =
  sm_TotalChunks :: int
  sm_DownloadedChunks :: int
  sm_PeerChunks :: int
  sm_OriginChunks :: int
  sm_SkippedChunks :: int
  sm_PeerBytes :: int
  sm_OriginBytes :: int
  sm_CacheBytesReused :: int
  sm_Duration :: int

definition OriginBytesSaved :: "sync_metrics option \<Rightarrow> int" where
  "OriginBytesSaved m = (case m of None \<Rightarrow> 0 | Some m \<Rightarrow> wrap64 (sm_PeerBytes m + sm_CacheBytesReused m))"

record sync_job =
  jb_JobID :: string
  jb_ArtifactID :: string
  jb_Status :: string
  jb_TotalChunks :: int
  jb_DownloadedChunks :: int
  jb_PeerChunks :: int
  jb_OriginChunks :: int
  jb_SkippedChunks :: int
  jb_PeerBytes :: int
  jb_OriginBytes :: int
  jb_ErrorMessage :: string
  jb_StartTime :: int
  jb_EndTime :: "int option"

text \<open>\<open>en_tracker\<close> says whether there is a tracker client. The queue of advertisements is \<open>Advertise\<close>'s.\<close>

record engine =
  en_nodeID :: string
  en_locality :: locality
  en_cache :: chunk_store
  en_tracker :: bool
  en_options :: options
  en_scheduler :: scheduler
  en_maxPeerWorkers :: nat
  en_maxOriginWorkers :: nat
  en_retryAttempts :: nat
  en_retryInitial :: int
  en_retryMax :: int

record engine_config =
  cf_NodeID :: string
  cf_Locality :: locality
  cf_Cache :: chunk_store
  cf_Tracker :: bool
  cf_Materializer :: "options option"
  cf_Scheduler :: "scheduler option"
  cf_MaxPeerConcurrency :: int
  cf_MaxConcurrencyPerPeer :: int
  cf_MaxOriginConcurrency :: int
  cf_RetryMaxAttempts :: int
  cf_RetryInitial :: int
  cf_RetryMax :: int

definition positive :: "int \<Rightarrow> int \<Rightarrow> int" where
  "positive n dflt = (if n \<le> 0 then dflt else n)"

definition NewEngine :: "engine_config \<Rightarrow> engine" where
  "NewEngine cfg =
     \<lparr>en_nodeID = cf_NodeID cfg, en_locality = cf_Locality cfg, en_cache = cf_Cache cfg, en_tracker = cf_Tracker cfg,
      en_options = (case cf_Materializer cfg of None \<Rightarrow> DefaultOptions | Some opts \<Rightarrow> opts),
      en_scheduler = (case cf_Scheduler cfg of None \<Rightarrow> New (positive (cf_MaxConcurrencyPerPeer cfg) 4) | Some s \<Rightarrow> s),
      en_maxPeerWorkers = nat (positive (cf_MaxPeerConcurrency cfg) 8),
      en_maxOriginWorkers = nat (positive (cf_MaxOriginConcurrency cfg) 4),
      en_retryAttempts = nat (positive (cf_RetryMaxAttempts cfg) 3),
      en_retryInitial = positive (cf_RetryInitial cfg) 100000000,
      en_retryMax = positive (cf_RetryMax cfg) 2000000000\<rparr>"

section \<open>Work and locations\<close>

record work =
  wk_hash :: string
  wk_filePath :: string
  wk_offset :: int
  wk_size :: int

type_synonym pending = "(string \<times> work) list"
type_synonym locations = "(string \<times> peer_info list) list"

definition newPendingQueue :: "work list \<Rightarrow> pending" where
  "newPendingQueue items = fold (\<lambda>it m. AList.update (wk_hash it) it m) items []"

definition locs_get :: "locations \<Rightarrow> string \<Rightarrow> peer_info list" where
  "locs_get locs hash = (case map_of locs hash of None \<Rightarrow> [] | Some ps \<Rightarrow> ps)"

definition pending_next :: "pending \<Rightarrow> locations \<Rightarrow> (work \<times> pending) option" where
  "pending_next q locs =
     (if q = [] then None
      else let pick = hd (RarestFirst (map fst q) (locs_get locs))
           in case map_of q pick of None \<Rightarrow> None | Some work \<Rightarrow> Some (work, AList.delete pick q))"

fun uniq_peers :: "string list \<Rightarrow> peer_info option list \<Rightarrow> peer_info list" where
  "uniq_peers seen [] = []"
| "uniq_peers seen (None # ps) = uniq_peers seen ps"
| "uniq_peers seen (Some p # ps) =
     (if pi_Address p = [] \<or> pi_Address p \<in> set seen then uniq_peers seen ps
      else p # uniq_peers (pi_Address p # seen) ps)"

definition locs_replace :: "string \<Rightarrow> peer_info option list \<Rightarrow> locations \<Rightarrow> locations" where
  "locs_replace hash peers locs = AList.update hash (uniq_peers [] peers) locs"

definition locs_merge :: "string \<Rightarrow> peer_info option list \<Rightarrow> locations \<Rightarrow> locations" where
  "locs_merge hash peers locs = AList.update hash (uniq_peers [] (map Some (locs_get locs hash) @ peers)) locs"

text \<open>The three gauges: distinct sources, chunks with a source, mean number of sources of those.\<close>

definition updateSwarmMetrics :: "string list \<Rightarrow> locations \<Rightarrow> nat \<times> nat \<times> rat" where
  "updateSwarmMetrics remaining locs =
     (let present = filter (\<lambda>(h, ps). h \<in> set remaining \<and> ps \<noteq> []) locs;
          addrs = remdups (filter (\<lambda>a. a \<noteq> []) (concat (map (\<lambda>(h, ps). map pi_Address ps) present)));
          total = sum_list (map (\<lambda>(h, ps). length ps) present)
      in (length addrs, length present,
          if length present > 0 then fl64 (fl64 (of_nat total) / fl64 (of_nat (length present))) else 0))"

section \<open>The environment\<close>

text \<open>
  At step \<open>t\<close>: the time, the error of the context, which way a \<open>select\<close> with two ready cases goes, what a peer does with a request for
  a hash from an offset, what the origin does with a request for bytes of a file, and the answers of the tracker.
\<close>

record env =
  ev_now :: "nat \<Rightarrow> int"
  ev_ctx :: "nat \<Rightarrow> go_error option"
  ev_pick :: "nat \<Rightarrow> bool"
  ev_peer :: "nat \<Rightarrow> string \<Rightarrow> string \<Rightarrow> int \<Rightarrow> unit result \<times> received list result"
  ev_origin :: "nat \<Rightarrow> string \<Rightarrow> int \<Rightarrow> int \<Rightarrow> bytes list \<times> int \<times> go_error option"
  ev_seeds :: "nat \<Rightarrow> string \<Rightarrow> peer_info option list result"
  ev_chunks :: "nat \<Rightarrow> string list \<Rightarrow> (string \<times> peer_info option list) list result"

definition refreshLocations :: "engine \<Rightarrow> env \<Rightarrow> nat \<Rightarrow> string \<Rightarrow> string list \<Rightarrow> locations \<Rightarrow> locations" where
  "refreshLocations e w t artifactID hashes locs =
     (if \<not> en_tracker e \<or> hashes = [] then locs
      else
        let locs = (case ev_seeds w t artifactID of
                Inl err \<Rightarrow> locs
              | Inr seeds \<Rightarrow> if seeds = [] then locs else fold (\<lambda>h. locs_replace h seeds) hashes locs)
        in case ev_chunks w t hashes of
             Inl err \<Rightarrow> locs
           | Inr found \<Rightarrow> fold (\<lambda>(h, peers). locs_replace h peers) found locs)"

section \<open>Downloading into the store\<close>

abbreviation ErrIncomplete :: go_error where "ErrIncomplete \<equiv> Err ''chunk partial is incomplete''"

definition containsCorrupt :: "go_error \<Rightarrow> bool" where
  "containsCorrupt e =
     (errors_Is e ErrHashMismatch \<or> status_Code e = Some OutOfRange \<or>
      contains (err_text e) ''corrupt'' \<or> contains (err_text e) ''integrity'')"

text \<open>
  A pipe hands each write to the reader in pieces of the reader's buffer, the 32 KiB of \<open>io.Copy\<close>.
\<close>

function pieces_of :: "bytes \<Rightarrow> bytes list" where
  "pieces_of d = (if d = [] then [] else take 32768 d # pieces_of (drop 32768 d))"
  by auto
termination
  by (relation "measure length") auto

declare pieces_of.simps [simp del]

definition through_pipe :: "bytes list \<Rightarrow> go_error option \<Rightarrow> reader" where
  "through_pipe writes err = (concat (map pieces_of writes), err)"

text \<open>
  The common part: append what the pipe delivers, check the size, commit. \<open>None\<close>: the store has stopped reading, the goroutine
  that writes into the pipe blocks for ever, and so does the caller, who waits for it.
\<close>

definition fill_partial ::
    "chunk_store \<Rightarrow> fsys \<Rightarrow> string \<Rightarrow> bytes list \<times> int \<times> go_error option \<Rightarrow> (go_error \<Rightarrow> go_error) \<Rightarrow> (fsys \<times> unit result) option" where
  "fill_partial c fs hash dl pipe_error =
     (case dl of
        (writes, totalSize, dlErr) \<Rightarrow>
          (case append_partial c fs hash (through_pipe writes (map_option pipe_error dlErr)) of
             (fs', res, rest) \<Rightarrow> if rest \<noteq> [] then None else Some (fs', res)))"

definition downloadFromPeer ::
    "chunk_store \<Rightarrow> fsys \<Rightarrow> (int \<Rightarrow> unit result \<times> received list result) \<Rightarrow> work \<Rightarrow> (fsys \<times> int result) option" where
  "downloadFromPeer c fs peer work =
     (let hash = wk_hash work;
          offset = PartialSize c fs hash;
          discard = (wk_size work > 0 \<and> offset > wk_size work);
          fs = (if discard then fst (DiscardPartial c fs hash) else fs);
          offset = (if discard then 0 else offset);
          dl = DownloadChunkTo (fst (peer offset)) (snd (peer offset)) (\<lambda>_ _. None) offset
      in case fill_partial c fs hash dl id of
           None \<Rightarrow> None
         | Some (fs, appendErr) \<Rightarrow>
             (case dl of
                (_, _, Some dlErr) \<Rightarrow>
                  Some (if containsCorrupt dlErr \<or> errors_Is dlErr ErrHashMismatch then fst (DiscardPartial c fs hash) else fs, Inl dlErr)
              | (_, totalSize, None) \<Rightarrow>
                  (case appendErr of
                     Inl e \<Rightarrow> Some (fs, Inl e)
                   | Inr _ \<Rightarrow>
                       let got = PartialSize c fs hash
                       in if totalSize > 0 \<and> got < totalSize then Some (fs, Inl (Wrapf ''have want'' ErrIncomplete))
                          else case CommitPartial c fs hash of
                              (fs, Inl e, _) \<Rightarrow>
                                Some (if errors_Is e ErrHashMismatch then fst (DiscardPartial c fs hash) else fs, Inl e)
                            | (fs, Inr _, _) \<Rightarrow> Some (fs, Inr (if totalSize \<le> 0 then got else totalSize)))))"

text \<open>Between \<open>acquireOrigin\<close> and \<open>releaseOrigin\<close>.\<close>

definition downloadFromOrigin ::
    "chunk_store \<Rightarrow> fsys \<Rightarrow> (string \<Rightarrow> int \<Rightarrow> int \<Rightarrow> bytes list \<times> int \<times> go_error option) \<Rightarrow> work \<Rightarrow> (fsys \<times> int result) option" where
  "downloadFromOrigin c fs origin work =
     (let hash = wk_hash work;
          partial = PartialSize c fs hash;
          discard = (wrap64 (wk_size work - partial) < 0);
          fs = (if discard then fst (DiscardPartial c fs hash) else fs);
          partial = (if discard then 0 else partial);
          remain = wrap64 (wk_size work - partial);
          dl = origin (wk_filePath work) (wrap64 (wk_offset work + partial)) remain
      in case fill_partial c fs hash dl (Wrapf ''failed to fetch chunk from origin'') of
           None \<Rightarrow> None
         | Some (fs, appendErr) \<Rightarrow>
             (case dl of
                (_, _, Some fetchErr) \<Rightarrow> Some (fs, Inl fetchErr)
              | (_, totalSize, None) \<Rightarrow>
                  (case appendErr of
                     Inl e \<Rightarrow> Some (fs, Inl e)
                   | Inr _ \<Rightarrow>
                       let got = PartialSize c fs hash
                       in if totalSize > 0 \<and> got < totalSize then Some (fs, Inl (Wrapf ''have want'' ErrIncomplete))
                          else case CommitPartial c fs hash of
                              (fs, Inl e, _) \<Rightarrow>
                                if errors_Is e ErrHashMismatch
                                then Some (fst (DiscardPartial c fs hash), Inl (Wrapf ''integrity check failed'' e))
                                else Some (fs, Inl (Wrapf ''failed to commit chunk to cache'' e))
                            | (fs, Inr _, _) \<Rightarrow> Some (fs, Inr (if totalSize \<le> 0 then got else totalSize)))))"

section \<open>Workers\<close>

text \<open>
  Where a worker is: at the top of its loop; at the start of an attempt of \<open>fetchChunk\<close> (with the number of the attempt and the
  backoff); going through the candidates; downloading from one, with the time it started and the remaining candidates; waiting for the
  backoff; waiting for a place at the origin; reading from the origin; blocked for ever; returned.
\<close>

datatype phase =
    Idle
  | Ranking work nat int
  | Trying work nat int "peer_info list"
  | Downloading work nat int string int "peer_info list"
  | Backoff work nat int
  | AtOrigin work
  | FromOrigin work
  | Stuck
  | Exited

record sync =
  sy_fs :: fsys
  sy_scheduler :: scheduler
  sy_assigned :: "(string \<times> int) list"
  sy_pending :: pending
  sy_locs :: locations
  sy_job :: sync_job
  sy_downloadErr :: "go_error option"
  sy_panic :: bool
  sy_originSem :: nat
  sy_advertised :: "string list"
  sy_workers :: "phase list"

definition goto :: "nat \<Rightarrow> phase \<Rightarrow> sync \<Rightarrow> sync" where
  "goto i p s = s\<lparr>sy_workers := (sy_workers s)[i := p]\<rparr>"

text \<open>
  The concrete Go type of an error: \<open>atomic.Value\<close> panics when it is given values of different types. Errors of the operating
  system are path errors, the deadline has a type of its own, \<open>fmt.Errorf\<close> with \<open>%w\<close> makes a wrapped error.
\<close>

fun go_type :: "go_error \<Rightarrow> string" where
  "go_type (Wrapf m e) = ''*fmt.wrapError''"
| "go_type (GrpcStatus c m) = ''*status.Error''"
| "go_type (Err m) =
     (if Err m = ErrDeadline then ''context.deadlineExceededError''
      else if Err m \<in> {ErrNotExist, ErrExist, ErrIsDir, ErrNotDir, ErrDevice} then ''*fs.PathError''
      else ''*errors.errorString'')"

definition store_error :: "go_error \<Rightarrow> sync \<Rightarrow> sync" where
  "store_error err s =
     (case sy_downloadErr s of
        Some old \<Rightarrow> if go_type old \<noteq> go_type err then s\<lparr>sy_panic := True\<rparr> else s\<lparr>sy_downloadErr := Some err\<rparr>
      | None \<Rightarrow> s\<lparr>sy_downloadErr := Some err\<rparr>)"

definition failed :: "nat \<Rightarrow> go_error \<Rightarrow> sync \<Rightarrow> sync" where
  "failed i err s = goto i Exited (store_error err s)"

text \<open>A chunk is there: the counters of the job and the advertisement.\<close>

definition fetched :: "nat \<Rightarrow> work \<Rightarrow> bool \<Rightarrow> int \<Rightarrow> sync \<Rightarrow> sync" where
  "fetched i work fromPeer n s =
     (let j = sy_job s;
          j = j\<lparr>jb_DownloadedChunks := wrap64 (jb_DownloadedChunks j + 1)\<rparr>;
          j = (if fromPeer
               then j\<lparr>jb_PeerChunks := wrap64 (jb_PeerChunks j + 1), jb_PeerBytes := wrap64 (jb_PeerBytes j + n)\<rparr>
               else j\<lparr>jb_OriginChunks := wrap64 (jb_OriginChunks j + 1), jb_OriginBytes := wrap64 (jb_OriginBytes j + n)\<rparr>)
      in goto i Idle (s\<lparr>sy_job := j, sy_advertised := sy_advertised s @ [wk_hash work]\<rparr>))"

definition loadAssigned :: "(string \<times> int) list \<Rightarrow> string \<Rightarrow> int" where
  "loadAssigned m addr = (case map_of m addr of None \<Rightarrow> 0 | Some n \<Rightarrow> n)"

definition addAssigned :: "string \<Rightarrow> int \<Rightarrow> (string \<times> int) list \<Rightarrow> (string \<times> int) list" where
  "addAssigned addr delta m = AList.update addr (wrap64 (loadAssigned m addr + delta)) m"

definition sortByAssigned :: "(string \<times> int) list \<Rightarrow> peer_info list \<Rightarrow> peer_info list" where
  "sortByAssigned m peers =
     (if length peers < 2 then peers
      else insertion_sort (\<lambda>p q. loadAssigned m (pi_Address p) < loadAssigned m (pi_Address q)) peers)"

definition next_backoff :: "engine \<Rightarrow> int \<Rightarrow> int" where
  "next_backoff e backoff =
     (if backoff < en_retryMax e
      then let b = wrap64 (backoff * 2) in if b > en_retryMax e then en_retryMax e else b
      else backoff)"

text \<open>The steps, by where the worker is; \<open>origin\<close> says whether there is an origin.\<close>

definition step_idle :: "engine \<Rightarrow> env \<Rightarrow> nat \<Rightarrow> nat \<Rightarrow> sync \<Rightarrow> sync" where
  "step_idle e w t i s =
     (case ev_ctx w t of
        Some err \<Rightarrow> failed i err s
      | None \<Rightarrow>
          if sy_downloadErr s \<noteq> None then goto i Exited s
          else case pending_next (sy_pending s) (sy_locs s) of
              None \<Rightarrow> goto i Exited s
            | Some (work, q) \<Rightarrow> goto i (Ranking work 0 (en_retryInitial e)) (s\<lparr>sy_pending := q\<rparr>))"

definition step_ranking :: "engine \<Rightarrow> env \<Rightarrow> nat \<Rightarrow> nat \<Rightarrow> work \<Rightarrow> nat \<Rightarrow> int \<Rightarrow> sync \<Rightarrow> sync" where
  "step_ranking e w t i work attempt backoff s =
     (case RankPeers (sy_scheduler s) (ev_now w t) (en_locality e) (map Some (locs_get (sy_locs s) (wk_hash work))) of
        (sched, candidates) \<Rightarrow>
          goto i (Trying work attempt backoff (sortByAssigned (sy_assigned s) candidates)) (s\<lparr>sy_scheduler := sched\<rparr>))"

definition step_trying ::
    "engine \<Rightarrow> env \<Rightarrow> bool \<Rightarrow> nat \<Rightarrow> nat \<Rightarrow> work \<Rightarrow> nat \<Rightarrow> int \<Rightarrow> peer_info list \<Rightarrow> sync \<Rightarrow> sync" where
  "step_trying e w origin t i work attempt backoff candidates s =
     (case candidates of
        [] \<Rightarrow>
          if attempt + 1 < en_retryAttempts e then goto i (Backoff work attempt backoff) s
          else if \<not> origin then failed i (Err ''no peer available for chunk and no origin configured'') s
          else goto i (AtOrigin work) s
      | p # ps \<Rightarrow>
          let addr = pi_Address p
          in if addr = [] then goto i (Trying work attempt backoff ps) s
             else case IsUntrusted (sy_scheduler s) (ev_now w t) addr of
                 (sched, True) \<Rightarrow> goto i (Trying work attempt backoff ps) (s\<lparr>sy_scheduler := sched\<rparr>)
               | (sched, False) \<Rightarrow>
                   (case Begin sched addr of
                      (sched, False) \<Rightarrow> goto i (Trying work attempt backoff ps) (s\<lparr>sy_scheduler := sched\<rparr>)
                    | (sched, True) \<Rightarrow>
                        goto i (Downloading work attempt backoff addr (ev_now w t) ps)
                          (s\<lparr>sy_scheduler := sched, sy_assigned := addAssigned addr 1 (sy_assigned s)\<rparr>)))"

definition step_downloading ::
    "engine \<Rightarrow> env \<Rightarrow> nat \<Rightarrow> nat \<Rightarrow> work \<Rightarrow> nat \<Rightarrow> int \<Rightarrow> string \<Rightarrow> int \<Rightarrow> peer_info list \<Rightarrow> sync \<Rightarrow> sync" where
  "step_downloading e w t i work attempt backoff addr start ps s =
     (case downloadFromPeer (en_cache e) (sy_fs s) (ev_peer w t addr (wk_hash work)) work of
        None \<Rightarrow> goto i Stuck s
      | Some (fs, r) \<Rightarrow>
          let n = (case r of Inl err \<Rightarrow> 0 | Inr n \<Rightarrow> n);
              s = s\<lparr>sy_fs := fs, sy_assigned := addAssigned addr (- 1) (sy_assigned s),
                    sy_scheduler := End (sy_scheduler s) (ev_now w t) addr n (ev_now w t - start) (\<not> isl r)\<rparr>
          in case r of
               Inr n \<Rightarrow> fetched i work True n s
             | Inl err \<Rightarrow>
                 goto i (Trying work attempt backoff ps) (s\<lparr>sy_scheduler := fst (IsUntrusted (sy_scheduler s) (ev_now w t) addr)\<rparr>))"

definition step_backoff :: "engine \<Rightarrow> env \<Rightarrow> nat \<Rightarrow> nat \<Rightarrow> work \<Rightarrow> nat \<Rightarrow> int \<Rightarrow> sync \<Rightarrow> sync" where
  "step_backoff e w t i work attempt backoff s =
     (case ev_ctx w t of
        Some err \<Rightarrow> failed i err s
      | None \<Rightarrow> goto i (Ranking work (attempt + 1) (next_backoff e backoff)) s)"

text \<open>With a free place and a context that is done, either case of the \<open>select\<close> may be taken.\<close>

definition acquireOrigin :: "engine \<Rightarrow> env \<Rightarrow> nat \<Rightarrow> nat \<Rightarrow> work \<Rightarrow> sync \<Rightarrow> sync" where
  "acquireOrigin e w t i work s =
     (if sy_originSem s < en_maxOriginWorkers e \<and> (ev_ctx w t = None \<or> ev_pick w t)
      then goto i (FromOrigin work) (s\<lparr>sy_originSem := sy_originSem s + 1\<rparr>)
      else case ev_ctx w t of Some err \<Rightarrow> failed i err s | None \<Rightarrow> s)"

definition releaseOrigin :: "sync \<Rightarrow> sync" where
  "releaseOrigin s = s\<lparr>sy_originSem := sy_originSem s - 1\<rparr>"

definition step_origin :: "engine \<Rightarrow> env \<Rightarrow> nat \<Rightarrow> nat \<Rightarrow> work \<Rightarrow> sync \<Rightarrow> sync" where
  "step_origin e w t i work s =
     (case downloadFromOrigin (en_cache e) (sy_fs s) (ev_origin w t) work of
        None \<Rightarrow> goto i Stuck s
      | Some (fs, Inl err) \<Rightarrow> failed i err (releaseOrigin (s\<lparr>sy_fs := fs\<rparr>))
      | Some (fs, Inr n) \<Rightarrow> fetched i work False n (releaseOrigin (s\<lparr>sy_fs := fs\<rparr>)))"

definition worker_step :: "engine \<Rightarrow> env \<Rightarrow> bool \<Rightarrow> nat \<Rightarrow> nat \<Rightarrow> sync \<Rightarrow> sync" where
  "worker_step e w origin t i s =
     (if sy_panic s \<or> \<not> i < length (sy_workers s) then s
      else case sy_workers s ! i of
          Idle \<Rightarrow> step_idle e w t i s
        | Ranking work attempt backoff \<Rightarrow> step_ranking e w t i work attempt backoff s
        | Trying work attempt backoff candidates \<Rightarrow> step_trying e w origin t i work attempt backoff candidates s
        | Downloading work attempt backoff addr start ps \<Rightarrow> step_downloading e w t i work attempt backoff addr start ps s
        | Backoff work attempt backoff \<Rightarrow> step_backoff e w t i work attempt backoff s
        | AtOrigin work \<Rightarrow> acquireOrigin e w t i work s
        | FromOrigin work \<Rightarrow> step_origin e w t i work s
        | Stuck \<Rightarrow> s
        | Exited \<Rightarrow> s)"

text \<open>A round of the loop that asks the tracker again.\<close>

definition refresh_step :: "engine \<Rightarrow> env \<Rightarrow> nat \<Rightarrow> string \<Rightarrow> string list \<Rightarrow> sync \<Rightarrow> sync" where
  "refresh_step e w t artifactID missingHashes s =
     (let remaining = filter (\<lambda>h. \<not> HasChunk (en_cache e) (sy_fs s) h) missingHashes
      in if remaining = [] then s else s\<lparr>sy_locs := refreshLocations e w t artifactID remaining (sy_locs s)\<rparr>)"

section \<open>Sync\<close>

text \<open>
  What is missing: the loop over the chunks of the files counts the chunks and bytes that are there, and makes one work item for each
  hash that is not.
\<close>

record scan =
  sn_skipped :: int
  sn_reused :: int
  sn_items :: "work list"

fun scan_chunks :: "chunk_store \<Rightarrow> fsys \<Rightarrow> string \<Rightarrow> chunk_ref list \<Rightarrow> scan \<Rightarrow> scan" where
  "scan_chunks c fs path [] n = n"
| "scan_chunks c fs path (r # rs) n =
     (if HasValidCommittedChunk c fs (cr_Hash r) (cr_Size r)
      then scan_chunks c fs path rs (n\<lparr>sn_skipped := wrap64 (sn_skipped n + 1), sn_reused := wrap64 (sn_reused n + cr_Size r)\<rparr>)
      else if cr_Hash r \<in> wk_hash ` set (sn_items n) then scan_chunks c fs path rs n
      else scan_chunks c fs path rs
        (n\<lparr>sn_items := sn_items n @ [\<lparr>wk_hash = cr_Hash r, wk_filePath = path, wk_offset = cr_Offset r, wk_size = cr_Size r\<rparr>]\<rparr>))"

fun scan_files :: "chunk_store \<Rightarrow> fsys \<Rightarrow> file_entry list \<Rightarrow> scan \<Rightarrow> scan" where
  "scan_files c fs [] n = n"
| "scan_files c fs (f # rest) n = scan_files c fs rest (scan_chunks c fs (fe_Path f) (slice (fe_Chunks f)) n)"

definition scan_manifest :: "chunk_store \<Rightarrow> fsys \<Rightarrow> manifest \<Rightarrow> scan" where
  "scan_manifest c fs m = scan_files c fs (m_Files m) \<lparr>sn_skipped = 0, sn_reused = 0, sn_items = []\<rparr>"

definition sync_begin :: "engine \<Rightarrow> env \<Rightarrow> fsys \<Rightarrow> string \<Rightarrow> manifest \<Rightarrow> int \<Rightarrow> go_error + sync" where
  "sync_begin e w fs jobID m startTime =
     (case Validate m of
        Some err \<Rightarrow> Inl (Wrapf ''invalid manifest'' (Err (manifest_error_text err)))
      | None \<Rightarrow>
          let n = scan_manifest (en_cache e) fs m;
              job = \<lparr>jb_JobID = jobID, jb_ArtifactID = m_ArtifactID m, jb_Status = ''RUNNING'',
                jb_TotalChunks = int (length (AllChunkHashes m)), jb_DownloadedChunks = 0, jb_PeerChunks = 0, jb_OriginChunks = 0,
                jb_SkippedChunks = sn_skipped n, jb_PeerBytes = 0, jb_OriginBytes = 0, jb_ErrorMessage = [],
                jb_StartTime = startTime, jb_EndTime = None\<rparr>
          in Inr \<lparr>sy_fs = fs, sy_scheduler = en_scheduler e, sy_assigned = [], sy_pending = newPendingQueue (sn_items n),
               sy_locs = refreshLocations e w 0 (m_ArtifactID m) (map wk_hash (sn_items n)) [], sy_job = job,
               sy_downloadErr = None, sy_panic = False, sy_originSem = 0, sy_advertised = ManifestCachedHashes (en_cache e) fs m,
               sy_workers = (if sn_items n = [] then [] else replicate (en_maxPeerWorkers e) Idle)\<rparr>)"

text \<open>A run of the download phase; the steps are numbered from 1 on.\<close>

datatype sync_event = Worker nat | Refresh

definition sync_event_step :: "engine \<Rightarrow> env \<Rightarrow> bool \<Rightarrow> manifest \<Rightarrow> string list \<Rightarrow> nat \<Rightarrow> sync_event \<Rightarrow> sync \<Rightarrow> sync" where
  "sync_event_step e w origin m missingHashes t ev s =
     (case ev of Worker i \<Rightarrow> worker_step e w origin t i s | Refresh \<Rightarrow> refresh_step e w t (m_ArtifactID m) missingHashes s)"

fun sync_run :: "engine \<Rightarrow> env \<Rightarrow> bool \<Rightarrow> manifest \<Rightarrow> string list \<Rightarrow> nat \<Rightarrow> sync_event list \<Rightarrow> sync \<Rightarrow> sync" where
  "sync_run e w origin m missingHashes t [] s = s"
| "sync_run e w origin m missingHashes t (ev # evs) s =
     sync_run e w origin m missingHashes (Suc t) evs (sync_event_step e w origin m missingHashes t ev s)"

definition job_failed :: "string \<Rightarrow> int \<Rightarrow> sync \<Rightarrow> sync" where
  "job_failed msg now s = s\<lparr>sy_job := (sy_job s)\<lparr>jb_Status := ''FAILED'', jb_ErrorMessage := msg, jb_EndTime := Some now\<rparr>\<rparr>"

text \<open>
  After \<open>wg.Wait\<close>: a stored error, or the manifest is saved, the files are materialised and the node reports that it has the artifact.
  \<open>polls\<close> are the answers of the context during materialisation, \<open>names\<close> the endings of temporary names. The last result says
  whether the report was sent.
\<close>

definition sync_end ::
    "engine \<Rightarrow> manifest \<Rightarrow> string \<Rightarrow> go_error option list \<Rightarrow> string list \<Rightarrow> int \<Rightarrow> int \<Rightarrow> sync \<Rightarrow> sync \<times> sync_metrics result \<times> bool" where
  "sync_end e m destDir polls names reused now s =
     (case sy_downloadErr s of
        Some err \<Rightarrow> (job_failed (err_text err) now s, Inl err, False)
      | None \<Rightarrow>
          let fs = fst (SaveManifest (en_cache e) (sy_fs s) names m)
          in case Materialize (en_options e) fs m (en_cache e) destDir polls of
               (fs, Inl err) \<Rightarrow>
                 (job_failed (''materialization failed: '' @ err_text err) now (s\<lparr>sy_fs := fs\<rparr>),
                  Inl (Wrapf ''failed to materialize artifact files'' err), False)
             | (fs, Inr _) \<Rightarrow>
                 let j = sy_job s
                 in (s\<lparr>sy_fs := fs, sy_job := j\<lparr>jb_Status := ''COMPLETED'', jb_EndTime := Some now\<rparr>\<rparr>,
                     Inr \<lparr>sm_TotalChunks = jb_TotalChunks j, sm_DownloadedChunks = jb_DownloadedChunks j,
                       sm_PeerChunks = jb_PeerChunks j, sm_OriginChunks = jb_OriginChunks j, sm_SkippedChunks = jb_SkippedChunks j,
                       sm_PeerBytes = jb_PeerBytes j, sm_OriginBytes = jb_OriginBytes j, sm_CacheBytesReused = reused,
                       sm_Duration = now - jb_StartTime j\<rparr>,
                     en_tracker e))"

text \<open>The engine keeps the jobs it has been given, by name.\<close>

definition GetJob :: "(string \<times> sync_job) list \<Rightarrow> string \<Rightarrow> sync_job option" where
  "GetJob jobs jobID = map_of jobs jobID"

definition AllJobs :: "(string \<times> sync_job) list \<Rightarrow> sync_job list" where
  "AllJobs jobs = map snd jobs"

end
