(* ===== verification/EngineRun.thy ===== *)
theory EngineRun
  imports Engine "HOL-Library.Multiset"
begin

text \<open>
  What the downloads of \<open>Engine\<close> do to the store, whatever the peers and the device do: it stays sound, only the hash of the download
  is concerned, and a download that succeeds has committed it.
\<close>

section \<open>One download\<close>

text \<open>A change that concerns one hash and loses no committed chunk.\<close>

definition touches :: "chunk_store \<Rightarrow> string \<Rightarrow> fsys \<Rightarrow> fsys \<Rightarrow> bool" where
  "touches c h fs fs' =
     (store_inv c fs' \<and> same_env fs fs' \<and>
      (\<forall>h'. h' \<noteq> h \<longrightarrow> committed (cas_of c fs') h' = committed (cas_of c fs) h' \<and> partials (cas_of c fs') h' = partials (cas_of c fs) h') \<and>
      (committed (cas_of c fs) h \<noteq> None \<longrightarrow> committed (cas_of c fs') h \<noteq> None))"

lemma touches_refl: "store_inv c fs \<Longrightarrow> touches c h fs fs"
  by (simp add: touches_def)

lemma touches_trans: "touches c h a b \<Longrightarrow> touches c h b d \<Longrightarrow> touches c h a d"
  by (auto simp: touches_def intro: same_env_trans)

lemma touches_inv: "touches c h fs fs' \<Longrightarrow> store_inv c fs'"
  by (simp add: touches_def)

lemma discard_touches: "store_inv c fs \<Longrightarrow> hex_hash h \<Longrightarrow> touches c h fs (fst (DiscardPartial c fs h))"
  using DiscardPartial_spec [of c fs h "fst (DiscardPartial c fs h)" "snd (DiscardPartial c fs h)"] by (auto simp: touches_def)

lemma fill_touches:
  assumes "store_inv c fs" and "hex_hash h" and "fill_partial c fs h dl pe = Some (fs', res)"
  shows "touches c h fs fs'"
proof -
  obtain ws n err where dl: "dl = (ws, n, err)" by (cases dl)
  obtain rest where "append_partial c fs h (concat (map pieces_of ws), map_option pe err) = (fs', res, rest)"
    using assms(3) by (auto simp: fill_partial_def dl through_pipe_def split: prod.splits if_splits)
  from append_partial_spec [OF assms(1,2) this] show ?thesis by (auto simp: touches_def)
qed

lemma commit_touches:
  assumes "store_inv c fs" and "hex_hash h" and "CommitPartial c fs h = (fs', res, call)"
  shows "touches c h fs fs'" "res = Inr () \<Longrightarrow> committed (cas_of c fs') h \<noteq> None"
  using CommitPartial_spec [OF assms] by (auto simp: touches_def split: if_splits)

lemma downloadFromPeer_touches:
  assumes "store_inv c fs" and "hex_hash (wk_hash work)" and "downloadFromPeer c fs peer work = Some (fs', r)"
  shows "touches c (wk_hash work) fs fs' \<and> (\<not> isl r \<longrightarrow> committed (cas_of c fs') (wk_hash work) \<noteq> None)"
proof -
  let ?h = "wk_hash work"
  define b where "b = (wk_size work > 0 \<and> PartialSize c fs ?h > wk_size work)"
  define fs0 where "fs0 = (if b then fst (DiscardPartial c fs ?h) else fs)"
  define off where "off = (if b then 0 else PartialSize c fs ?h)"
  define dl where "dl = DownloadChunkTo (fst (peer off)) (snd (peer off)) (\<lambda>_ _. None) off"
  have t0: "touches c ?h fs fs0" using discard_touches touches_refl assms(1,2) by (simp add: fs0_def)
  obtain fs1 ap where f: "fill_partial c fs0 ?h dl id = Some (fs1, ap)"
    and r: "(case dl of
        (_, _, Some dlErr) \<Rightarrow> Some (if containsCorrupt dlErr \<or> errors_Is dlErr ErrHashMismatch then fst (DiscardPartial c fs1 ?h) else fs1, Inl dlErr)
      | (_, n, None) \<Rightarrow> (case ap of
            Inl e \<Rightarrow> Some (fs1, Inl e)
          | Inr _ \<Rightarrow> let got = PartialSize c fs1 ?h
              in if n > 0 \<and> got < n then Some (fs1, Inl (Wrapf ''have want'' ErrIncomplete))
                 else case CommitPartial c fs1 ?h of
                     (fs, Inl e, _) \<Rightarrow> Some (if errors_Is e ErrHashMismatch then fst (DiscardPartial c fs ?h) else fs, Inl e)
                   | (fs, Inr _, _) \<Rightarrow> Some (fs, Inr (if n \<le> 0 then got else n)))) = Some (fs', r)"
    using assms(3) unfolding downloadFromPeer_def Let_def b_def [symmetric] fs0_def [symmetric] off_def [symmetric] dl_def [symmetric]
    by (auto split: option.splits prod.splits)
  have t1: "touches c ?h fs fs1" using touches_trans [OF t0 fill_touches [OF touches_inv [OF t0] assms(2) f]] .
  note d1 = touches_trans [OF t1 discard_touches [OF touches_inv [OF t1] assms(2)]]
  obtain ws n err where dl: "dl = (ws, n, err)" by (cases dl)
  obtain fs2 res call where cm: "CommitPartial c fs1 ?h = (fs2, res, call)" by (cases "CommitPartial c fs1 ?h")
  note t2 = touches_trans [OF t1 commit_touches(1) [OF touches_inv [OF t1] assms(2) cm]]
  note d2 = touches_trans [OF t2 discard_touches [OF touches_inv [OF t2] assms(2)]]
  show ?thesis
    using r t1 d1 t2 d2 commit_touches(2) [OF touches_inv [OF t1] assms(2) cm] unfolding dl cm
    by (auto split: option.splits sum.splits if_splits simp: Let_def)
qed

end
