(* ===== verification/Spec2Isabelle.thy ===== *)
theory Spec2Isabelle
  imports QuotaManager Verifier Tracker SqlStore CachedStore Advertise EngineRun
begin

text \<open>
  Spider distributes content-addressed artifacts over a mesh of peers. An artifact is a set of files cut into
  chunks; its manifest lists the files and the SHA-256 hashes of their chunks. A node keeps chunks in a chunk
  store under a quota, fetches missing ones from peers or from the origin, materialises files from
  them and verifies what it has written. A tracker knows the nodes and who holds which chunk, over
  a store (memory, SQLite, Postgres) with an optional cache in front.

  \<^bold>\<open>Theories, bottom up.\<close>

  \<^item> \<open>Prelude\<close>, \<open>Filepath\<close>, \<open>Sha256\<close>, \<open>Json\<close>, \<open>Osfs\<close>, \<open>Float64\<close>: what the source uses of Go: 64-bit wrap-around, wrapped
    errors, strings, sorting, maps as association lists, paths, SHA-256, the encoding of JSON, a file system with
    inodes, hard links, open files and failing devices, and binary64 rounding.
  \<^item> \<open>Manifest\<close> (\<open>api/v1/manifest.go\<close>): structs, \<open>Normalize\<close>, \<open>ComputeID\<close>, \<open>Finalize\<close>, \<open>Validate\<close>; what \<open>Validate\<close>
    accepts, that \<open>Finalize\<close> produces it, and what 64-bit sums let through.
  \<^item> \<open>Chunker\<close> (\<open>pkg/chunk\<close>): streams are cut into chunks that concatenate to the stream.
  \<^item> \<open>ChunkStore\<close> (\<open>pkg/cache/cache.go\<close>): partial downloads, commits by rename, reads. Every run with any device
    failures delivers only bytes that have the hash asked for.
  \<^item> \<open>QuotaManager\<close> (\<open>pkg/cache/manager.go\<close>): touches, pins, reference counts, eviction; pinned chunks survive, the
    least recently used go first.
  \<^item> \<open>Materializer\<close> (\<open>pkg/materializer\<close>), \<open>Verifier\<close> (\<open>pkg/verifier\<close>): files are installed exactly, by copy or hard link, never
    outside of the destination, and verification reports exactly the files that match.
  \<^item> \<open>Topology\<close> (\<open>pkg/topology\<close>), \<open>Scheduler\<close> (\<open>pkg/scheduler\<close>): distances, ranking of peers, slots, moving averages, the
    circuit breaker, rarest-first order.
  \<^item> \<open>MetaStore\<close> (\<open>pkg/store/store.go\<close>, \<open>memory.go\<close>): the interface \<open>Store\<close> as a record of operations, the abstract index it
    keeps, the contracts \<open>location_store\<close> and \<open>metadata_store\<close>, and the in-memory driver, which satisfies both.
  \<^item> \<open>SqlQueries\<close>, \<open>SqlStore\<close> (\<open>embed.go\<close>, \<open>sql.go\<close>, the SQL files): the SQL driver with failing statements and
    transactions, which satisfies the same contracts.
  \<^item> \<open>MetaCache\<close> (\<open>pkg/metacache\<close>): the cache interface, its contract \<open>meta_cache\<close> and its drivers.
  \<^item> \<open>CachedStore\<close> (\<open>pkg/store/cached.go\<close>): the read-through store over any inner store and cache. The laws of both give
    \<open>location_store\<close> for the whole, with peers shown up to their heartbeat, so what a cached tracker answers is what
    the database says; the cached list of peers may lag behind heartbeats.
  \<^item> \<open>Fleet\<close>, \<open>Registry\<close>, \<open>Tracker\<close> (\<open>pkg/tracker\<close>): milestones of a distribution; the registry and the gRPC handlers over
    any store; the tracker as a machine that refines steps on the abstract index, with liveness and safety of what
    it locates over traces of requests and pruning rounds.

  \<^item> \<open>PeerServer\<close>, \<open>PeerClient\<close> (\<open>pkg/peer\<close>): admission of uploads and the pool of connections as steps of concurrent requests, with
    their invariants; what a server streams and a client writes is exactly what is missing of a chunk.
  \<^item> \<open>ManifestStore\<close> (\<open>SaveManifest\<close> of \<open>pkg/cache/cache.go\<close>, \<open>reconcile.go\<close>): manifests on disk and the cached chunks of a manifest.
  \<^item> \<open>Advertise\<close> (\<open>pkg/advertise\<close>): batches and retries of reports to the tracker; no hash is lost.
  \<^item> \<open>Engine\<close>, \<open>EngineRun\<close> (\<open>pkg/engine/engine.go\<close>): \<open>Sync\<close> with its workers as state machines that take steps in any order,
    over an environment that answers for peers, origin and tracker; what its downloads do to the store.

  \<^bold>\<open>State and time.\<close> An operation takes the state and returns it with a result; errors are values. The clock is an
  argument. Contexts are the list of their answers to \<open>Err\<close>. Go maps are association lists with distinct keys,
  in any order, so a theorem about every list covers every iteration order. Locks are the atomicity of operations.

  \<^bold>\<open>Bounds.\<close> No model runs on fuel that a theorem depends on: loops are structural, or come with a termination proof.

  \<^bold>\<open>Not modelled.\<close> The generated protobuf code, the command-line programs (flags, printing, signals), the benchmark
  programs, HTTP servers, logging and metrics, the configuration: they move data to the terminal or the network and hold no state of the
  mesh. Third-party code (gRPC, drivers, SDKs) appears as parameters or as answers of the environment.
\<close>

section \<open>The tracker over SQL\<close>



end
